(* ===== verification/Prelude.thy ===== *)
theory Prelude
  imports Main "HOL-Library.Word" "HOL-Library.Finite_Map" "HOL-Library.Multiset"
    "HOL-Library.Char_ord" "HOL-Library.List_Lexorder"
begin

text \<open>
  Shared vocabulary of the development: the Go machine types, the result type of code that can
  panic or run for ever, finite maps for Go's \<open>map\<close> and \<open>sync.Map\<close>, and the iteration
  order of a map as an explicit argument.  The generic lemmas on lists, maps and words that the
  component theories use are here too, most of them in the collection \<open>go_simps\<close>.
\<close>

named_theorems go_simps \<open>computation rules of the Go layer: results, maps, channels\<close>
named_theorems gossip_defs \<open>definitions that are unfolded together when a handler is run\<close>

section \<open>Machine types\<close>

text \<open>
  Go's fixed width unsigned integers are words.  A Go string is a sequence of bytes, and an
  Isabelle \<open>char\<close> is a byte, so a Go string is a \<open>string\<close>.
\<close>

type_synonym byte = "8 word"
type_synonym u32 = "32 word"
type_synonym u64 = "64 word"
type_synonym bytes = "byte list"

section \<open>Faults\<close>

text \<open>
  A run time panic of Go (here: a failed type assertion on a nil interface, a slice or index out
  of range, \<open>rand.Intn(0)\<close>, an error passed to \<open>panic\<close>) ends the process.  A loop that never returns blocks its
  goroutine.  Both are values of the model.
\<close>

datatype go_fault = NilAssertion | OutOfRange | IntnOfZero | NoReturn | ErrorRaised

type_synonym 'a res = "go_fault + 'a"

fun res_bind :: "'a res \<Rightarrow> ('a \<Rightarrow> 'b res) \<Rightarrow> 'b res" where
  "res_bind (Inl e) f = Inl e"
| "res_bind (Inr x) f = f x"

fun of_option :: "go_fault \<Rightarrow> 'a option \<Rightarrow> 'a res" where
  "of_option e None = Inl e"
| "of_option e (Some x) = Inr x"

lemma res_bind_eq_Inr [go_simps]:
  "res_bind r f = Inr y \<longleftrightarrow> (\<exists>x. r = Inr x \<and> f x = Inr y)"
  by (cases r) auto

lemma res_bind_eq_Inl:
  "res_bind r f = Inl e \<longleftrightarrow> r = Inl e \<or> (\<exists>x. r = Inr x \<and> f x = Inl e)"
  by (cases r) auto

lemma of_option_eq_Inr [go_simps]: "of_option e r = Inr x \<longleftrightarrow> r = Some x"
  by (cases r) auto

lemma of_option_eq_Inl [go_simps]: "of_option e r = Inl e' \<longleftrightarrow> r = None \<and> e' = e"
  by (cases r) auto

lemma res_bind_assoc: "res_bind (res_bind r f) g = res_bind r (\<lambda>x. res_bind (f x) g)"
  by (cases r) auto

section \<open>Maps and their iteration order\<close>

text \<open>
  Ranging over a Go map visits every key once, in an order the language leaves open.  A model
  function that ranges over a map takes the order as an argument: a function that enumerates any
  finite set of keys.  The laws of such an order are the locale \<open>map_order\<close>; what is proved
  from it holds whatever order the run time picks.
\<close>

locale map_order =
  fixes ord :: "'k fset \<Rightarrow> 'k list"
  assumes ord_distinct: "distinct (ord S)"
    and ord_set: "set (ord S) = fset S"
begin

lemma ord_mem [simp]: "k \<in> set (ord S) \<longleftrightarrow> k |\<in>| S"
  by (simp add: ord_set)

lemma ord_length: "length (ord S) = fcard S"
  by (metis distinct_card fcard.rep_eq ord_distinct ord_set)

lemma ord_empty [simp]: "ord {||} = []"
  by (metis bot_fset.rep_eq ord_set set_empty2)

lemma ord_singleton: "ord {|k|} = [k]"
proof -
  have "set (ord {|k|}) = {k}" and "length (ord {|k|}) = 1"
    by (simp_all add: ord_set ord_length fcard.rep_eq)
  then show ?thesis
    by (metis One_nat_def length_0_conv length_Suc_conv list.set_intros(1) singletonD)
qed

end

definition is_order :: "('k fset \<Rightarrow> 'k list) \<Rightarrow> bool" where
  "is_order ord \<longleftrightarrow> map_order ord"

lemma is_order_iff: "is_order ord \<longleftrightarrow> (\<forall>S. distinct (ord S) \<and> set (ord S) = fset S)"
  unfolding is_order_def map_order_def by auto

lemma is_order_set: "is_order ord \<Longrightarrow> set (ord S) = fset S"
  by (simp add: is_order_iff)

lemma is_order_distinct: "is_order ord \<Longrightarrow> distinct (ord S)"
  by (simp add: is_order_iff)

interpretation key_order: map_order "sorted_list_of_fset :: 'k::linorder fset \<Rightarrow> 'k list"
  by unfold_locales (simp_all add: sorted_list_of_fset.rep_eq)

lemma sorted_is_order: "is_order (sorted_list_of_fset :: 'k::linorder fset \<Rightarrow> 'k list)"
  using key_order.map_order_axioms by (simp add: is_order_def)

text \<open>The size of a map, Go's \<open>len\<close>.\<close>

definition map_len :: "('k, 'v) fmap \<Rightarrow> nat" where
  "map_len m = fcard (fmdom m)"

lemma map_len_empty [simp]: "map_len fmempty = 0"
  by (simp add: map_len_def)

lemma map_len_upd [go_simps]:
  "map_len (fmupd k v m) = (if k |\<in>| fmdom m then map_len m else Suc (map_len m))"
  by (simp add: map_len_def finsert_absorb fcard_finsert_disjoint)

lemma map_len_upd_ge: "map_len m \<le> map_len (fmupd k v m)"
  by (simp add: map_len_upd)

text \<open>\<open>sync.Map.LoadOrStore\<close>: the map after the call, the value read, and whether it was there.\<close>

definition LoadOrStore :: "'k \<Rightarrow> 'v \<Rightarrow> ('k, 'v) fmap \<Rightarrow> ('k, 'v) fmap \<times> 'v \<times> bool" where
  "LoadOrStore k v m =
     (case fmlookup m k of None \<Rightarrow> (fmupd k v m, v, False) | Some w \<Rightarrow> (m, w, True))"

lemma LoadOrStore_present [go_simps]:
  "fmlookup m k = Some w \<Longrightarrow> LoadOrStore k v m = (m, w, True)"
  by (simp add: LoadOrStore_def)

lemma LoadOrStore_absent [go_simps]:
  "fmlookup m k = None \<Longrightarrow> LoadOrStore k v m = (fmupd k v m, v, False)"
  by (simp add: LoadOrStore_def)

section \<open>Words\<close>

lemma unat_Suc_word: "(w::'a::len word) + 1 \<noteq> 0 \<Longrightarrow> unat (w + 1) = Suc (unat w)"
  using unatSuc [of w] by (simp add: add.commute)

text \<open>Stepping a counter towards a target shortens the cyclic distance to it.\<close>

lemma unat_diff_step:
  fixes k w :: "'a::len word"
  assumes "k \<noteq> w"
  shows "unat (k - (w + 1)) < unat (k - w)"
proof -
  have "k - w \<noteq> 0" using assms by simp
  then have "unat (k - w - 1) < unat (k - w)"
    by (metis unat_minus_one unat_gt_0 diff_less zero_less_one)
  then show ?thesis by (simp add: diff_diff_eq)
qed

lemma one_le_word: "(1::u32) \<le> i \<longleftrightarrow> i \<noteq> 0"
  by unat_arith

lemma word_step_le: "(s::u32) < k \<Longrightarrow> s + 1 \<le> k" "(s::u32) < k \<Longrightarrow> s < s + 1"
  by unat_arith+

lemma less_not_max: "(x::u32) < y \<Longrightarrow> x \<noteq> -1"
  using word_order.extremum_strict [of y] by auto

lemma word_Suc_neq_0: "(n::'a::len word) \<noteq> -1 \<Longrightarrow> n + 1 \<noteq> 0"
  by (metis add.commute add_left_cancel right_minus)

lemma word_less_Suc: "(n::'a::len word) \<noteq> -1 \<Longrightarrow> i < n + 1 \<longleftrightarrow> i < n \<or> i = n"
  using unat_Suc_word [OF word_Suc_neq_0, of n]
  by (auto simp: word_less_nat_alt less_Suc_eq simp flip: word_unat_eq_iff)

lemma unat_pred: "0 < (h::'a::len word) \<Longrightarrow> unat (h - 1) = unat h - 1"
  by (metis unat_minus_one word_neq_0_conv)

lemma unat_pos: "0 < (h::'a::len word) \<Longrightarrow> 0 < unat h"
  by (simp add: word_less_nat_alt)

lemma unat_pred_less: "0 < (h::'a::len word) \<Longrightarrow> unat (h - 1) < unat h"
  using unat_pos [of h] by (simp add: unat_pred)

section \<open>Lists\<close>

lemma filter_neq_length_less: "x \<in> set xs \<Longrightarrow> \<not> P x \<Longrightarrow> length (filter P xs) < length xs"
  by (meson length_filter_less)

lemma length_filter_neq: "distinct xs \<Longrightarrow> a \<in> set xs \<Longrightarrow> length (filter (\<lambda>x. x \<noteq> a) xs) = length xs - 1"
  using length_remove1 [of a xs] distinct_remove1_removeAll [of xs a] removeAll_filter_not_eq [of a]
  by (simp add: eq_commute [of a])

lemma map_of_map_key: "map_of (map (\<lambda>k. (k, f k)) ks) k = (if k \<in> set ks then Some (f k) else None)"
  by (induction ks) auto

lemma find_SomeD: "find P xs = Some x \<Longrightarrow> x \<in> set xs \<and> P x"
  by (induction xs) (auto split: if_splits)

lemma fmupd_neq_fmempty [simp]: "fmupd k v m \<noteq> fmempty" "fmempty \<noteq> fmupd k v m"
  by (metis fmempty_lookup fmupd_lookup option.distinct(1))+

end
