(* ===== verification/GoLib.thy ===== *)
theory GoLib
  imports Prelude
begin

text \<open>
  What the source uses of Go's standard library: decimal and hexadecimal formatting, the string
  functions \<open>Split\<close>, \<open>Join\<close> and \<open>Contains\<close>, the binary search \<open>sort.Search\<close>, the comparison
  of \<open>float32\<close> values, little endian encoding, and the printed form of a UDP address.
\<close>

unbundle bit_operations_syntax

section \<open>Decimal numbers\<close>

definition digit :: "nat \<Rightarrow> char" where
  "digit d = char_of (48 + d)"

text \<open>\<open>fmt.Sprint\<close> of an unsigned integer.\<close>

fun dec :: "nat \<Rightarrow> string" where
  "dec n = (if n < 10 then [digit n] else dec (n div 10) @ [digit (n mod 10)])"

declare dec.simps [simp del]

definition undec :: "string \<Rightarrow> nat" where
  "undec s = foldl (\<lambda>a c. a * 10 + (of_char c - 48)) 0 s"

lemma of_char_digit: "d < 10 \<Longrightarrow> (of_char (digit d) :: nat) = 48 + d"
  by (simp add: digit_def)

lemma undec_dec: "undec (dec n) = n"
proof (induction n rule: dec.induct)
  case (1 n)
  show ?case
  proof (cases "n < 10")
    case True
    then show ?thesis by (simp add: dec.simps [of n] undec_def of_char_digit)
  next
    case False
    with 1 have "undec (dec (n div 10)) = n div 10" by simp
    with False show ?thesis
      by (simp add: dec.simps [of n] undec_def of_char_digit div_mult_mod_eq)
  qed
qed

lemma dec_inject [simp]: "dec m = dec n \<longleftrightarrow> m = n"
  by (metis undec_dec)

definition is_digit :: "char \<Rightarrow> bool" where
  "is_digit c \<longleftrightarrow> (48::nat) \<le> of_char c \<and> (of_char c :: nat) < 58"

lemma is_digit_digit: "d < 10 \<Longrightarrow> is_digit (digit d)"
  by (simp add: is_digit_def of_char_digit)

lemma dec_digits: "\<forall>c \<in> set (dec n). is_digit c"
proof (induction n rule: dec.induct)
  case (1 n)
  then show ?case by (subst dec.simps) (auto simp: is_digit_digit)
qed

lemma not_digit_dec [simp]: "\<not> is_digit c \<Longrightarrow> c \<notin> set (dec n)"
  using dec_digits by blast

lemma separators [simp]: "\<not> is_digit CHR ''.''" "\<not> is_digit CHR '':''"
  by (simp_all add: is_digit_def)

text \<open>\<open>fmt.Sprint\<close> of a signed integer.\<close>

definition dec_int :: "int \<Rightarrow> string" where
  "dec_int i = (if i < 0 then CHR ''-'' # dec (nat (- i)) else dec (nat i))"

section \<open>Hexadecimal\<close>

definition hex_digit :: "nat \<Rightarrow> char" where
  "hex_digit d = (if d < 10 then char_of (48 + d) else char_of (87 + d))"

definition hex_value :: "char \<Rightarrow> nat option" where
  "hex_value c =
     (let k = of_char c in
      if 48 \<le> k \<and> k \<le> 57 then Some (k - 48)
      else if 97 \<le> k \<and> k \<le> 102 then Some (k - 87)
      else if 65 \<le> k \<and> k \<le> 70 then Some (k - 55)
      else None)"

text \<open>\<open>hex.EncodeToString\<close> and \<open>hex.DecodeString\<close> (\<open>None\<close> is the error).\<close>

fun hex_encode :: "bytes \<Rightarrow> string" where
  "hex_encode [] = []"
| "hex_encode (b # bs) = hex_digit (unat b div 16) # hex_digit (unat b mod 16) # hex_encode bs"

fun hex_decode :: "string \<Rightarrow> bytes option" where
  "hex_decode [] = Some []"
| "hex_decode [c] = None"
| "hex_decode (c # d # s) =
     (case (hex_value c, hex_value d, hex_decode s) of
        (Some h, Some l, Some bs) \<Rightarrow> Some (of_nat (16 * h + l) # bs)
      | _ \<Rightarrow> None)"

lemma hex_value_digit: "d < 16 \<Longrightarrow> hex_value (hex_digit d) = Some d"
  by (auto simp: hex_value_def hex_digit_def Let_def)

lemma unat_byte_div: "unat (b::byte) div 16 < 16"
  using unsigned_less [of b, where ?'a = nat] by (simp add: less_mult_imp_div_less)

lemma hex_decode_encode [simp]: "hex_decode (hex_encode bs) = Some bs"
proof (induction bs)
  case (Cons b bs)
  have "unat b div 16 < 16" by (rule unat_byte_div)
  moreover have "16 * (unat b div 16) + unat b mod 16 = unat b" by simp
  ultimately show ?case using Cons by (simp add: hex_value_digit)
qed simp

lemma hex_encode_inject [simp]: "hex_encode xs = hex_encode ys \<longleftrightarrow> xs = ys"
  by (metis hex_decode_encode option.inject)

lemma length_hex_encode [simp]: "length (hex_encode bs) = 2 * length bs"
  by (induction bs) auto

section \<open>Strings\<close>

fun str_split :: "char \<Rightarrow> string \<Rightarrow> string list" where
  "str_split c [] = [[]]"
| "str_split c (x # s) =
     (if x = c then [] # str_split c s
      else (case str_split c s of [] \<Rightarrow> [[x]] | w # ws \<Rightarrow> (x # w) # ws))"

fun str_join :: "string \<Rightarrow> string list \<Rightarrow> string" where
  "str_join sep [] = []"
| "str_join sep [w] = w"
| "str_join sep (w # v # ws) = w @ sep @ str_join sep (v # ws)"

lemma str_split_nonempty [simp]: "str_split c s \<noteq> []"
  by (induction s) (auto split: list.splits)

lemma str_join_split: "str_join [c] (str_split c s) = s"
proof (induction s)
  case (Cons x s)
  obtain w ws where e: "str_split c s = w # ws"
    by (metis str_split_nonempty list.exhaust)
  with Cons show ?case by (cases ws) auto
qed simp

lemma str_join_nil: "str_join [] ws = concat ws"
  by (induction "[] :: string" ws rule: str_join.induct) auto

definition str_contains :: "string \<Rightarrow> string \<Rightarrow> bool" where
  "str_contains s sub \<longleftrightarrow>
     list_ex (\<lambda>k. take (length sub) (drop k s) = sub) [0..<Suc (length s)]"

lemma str_contains_iff: "str_contains s sub \<longleftrightarrow> (\<exists>u v. s = u @ sub @ v)"
proof
  assume "str_contains s sub"
  then obtain k where k: "take (length sub) (drop k s) = sub"
    by (auto simp: str_contains_def list_ex_iff)
  have "s = take k s @ sub @ drop (length sub) (drop k s)"
    by (metis append_take_drop_id k)
  then show "\<exists>u v. s = u @ sub @ v" by blast
next
  assume "\<exists>u v. s = u @ sub @ v"
  then obtain u v where "s = u @ sub @ v" by blast
  then show "str_contains s sub"
    unfolding str_contains_def list_ex_iff
    by (intro bexI [of _ "length u"]) auto
qed

text \<open>The conversion \<open>[]byte(s)\<close>.\<close>

definition bytes_of :: "string \<Rightarrow> bytes" where
  "bytes_of s = map (\<lambda>c. of_nat (of_char c)) s"

lemma of_char_byte_inject: "(of_nat (of_char c) :: byte) = of_nat (of_char d) \<longleftrightarrow> c = d"
proof
  assume "(of_nat (of_char c) :: byte) = of_nat (of_char d)"
  then have "(of_char c :: nat) mod 256 = of_char d mod 256"
    by (simp add: word_of_nat_eq_iff take_bit_eq_mod)
  then show "c = d" by simp
qed simp

lemma bytes_of_inject [simp]: "bytes_of s = bytes_of t \<longleftrightarrow> s = t"
  by (simp add: bytes_of_def inj_map_eq_map inj_def of_char_byte_inject)

lemma length_bytes_of [simp]: "length (bytes_of s) = length s"
  by (simp add: bytes_of_def)

text \<open>\<open>binary.Write\<close> of a \<open>uint32\<close>, little endian.\<close>

definition u32_le :: "u32 \<Rightarrow> bytes" where
  "u32_le w = map (\<lambda>k. ucast (drop_bit (8 * k) w)) [0..<4]"

lemma length_u32_le [simp]: "length (u32_le w) = 4"
  by (simp add: u32_le_def)

section \<open>Slices\<close>

text \<open>\<open>xs[lo:hi]\<close>; the capacity of the slice is taken to be its length.\<close>

definition go_slice :: "nat \<Rightarrow> nat \<Rightarrow> 'a list \<Rightarrow> 'a list res" where
  "go_slice lo hi xs =
     (if lo \<le> hi \<and> hi \<le> length xs then Inr (take (hi - lo) (drop lo xs)) else Inl OutOfRange)"

lemma go_slice_eq_Inr [go_simps]:
  "go_slice lo hi xs = Inr ys \<longleftrightarrow> lo \<le> hi \<and> hi \<le> length xs \<and> ys = take (hi - lo) (drop lo xs)"
  by (auto simp: go_slice_def)

lemma go_slice_eq_Inl [go_simps]:
  "go_slice lo hi xs = Inl e \<longleftrightarrow> e = OutOfRange \<and> \<not> (lo \<le> hi \<and> hi \<le> length xs)"
  by (auto simp: go_slice_def)

text \<open>\<open>copy(dst[lo:hi], src)\<close> with a source at least as long as the slice.\<close>

definition overwrite :: "nat \<Rightarrow> 'a list \<Rightarrow> 'a list \<Rightarrow> 'a list" where
  "overwrite lo src dst = take lo dst @ src @ drop (lo + length src) dst"

lemma length_overwrite: "lo + length src \<le> length dst \<Longrightarrow> length (overwrite lo src dst) = length dst"
  by (simp add: overwrite_def)

section \<open>Binary search\<close>

text \<open>\<open>sort.Search(n, f)\<close> is \<open>go_search f 0 n\<close>.\<close>

function go_search :: "(nat \<Rightarrow> bool) \<Rightarrow> nat \<Rightarrow> nat \<Rightarrow> nat" where
  "go_search f i j =
     (if i < j then
        (let h = (i + j) div 2 in if \<not> f h then go_search f (h + 1) j else go_search f i h)
      else i)"
  by pat_completeness auto
termination
  by (relation "measure (\<lambda>(f, i, j). j - i)") auto

declare go_search.simps [simp del]

lemma go_search_bounds: "i \<le> j \<Longrightarrow> i \<le> go_search f i j \<and> go_search f i j \<le> j"
proof (induction f i j rule: go_search.induct)
  case (1 f i j)
  show ?case
  proof (cases "i < j")
    case True
    then have "i \<le> (i + j) div 2" and "(i + j) div 2 < j" by auto
    with 1 True show ?thesis
      by (subst (1 2) go_search.simps) (fastforce simp: Let_def)
  next
    case False
    with 1 show ?thesis by (subst (1 2) go_search.simps) simp
  qed
qed

lemma go_search_step:
  "i < j \<Longrightarrow> f ((i + j) div 2) \<Longrightarrow> go_search f i j = go_search f i ((i + j) div 2)"
  "i < j \<Longrightarrow> \<not> f ((i + j) div 2) \<Longrightarrow> go_search f i j = go_search f (Suc ((i + j) div 2)) j"
  "\<not> i < j \<Longrightarrow> go_search f i j = i"
  by (subst go_search.simps; simp add: Let_def)+

lemma go_search_correct:
  assumes mono: "\<And>a b. a \<le> b \<Longrightarrow> f a \<Longrightarrow> f b"
    and "i \<le> j" and "\<forall>k < i. \<not> f k" and "\<forall>k. j \<le> k \<and> k < n \<longrightarrow> f k"
  shows "(\<forall>k < go_search f i j. \<not> f k) \<and> (\<forall>k < n. go_search f i j \<le> k \<longrightarrow> f k)"
  using assms(2-4)
proof (induction "j - i" arbitrary: i j rule: less_induct)
  case less
  let ?h = "(i + j) div 2"
  show ?case
  proof (cases "i < j")
    case True
    show ?thesis
    proof (cases "f ?h")
      case fh: True
      have "\<forall>k. ?h \<le> k \<and> k < n \<longrightarrow> f k" using mono fh by blast
      moreover have "?h - i < j - i" and "i \<le> ?h" using True by auto
      ultimately show ?thesis
        unfolding go_search_step(1) [of i j f, OF True fh] using less.hyps [of ?h i] less.prems by blast
    next
      case fh: False
      have "\<forall>k < Suc ?h. \<not> f k" using mono fh by (auto simp: less_Suc_eq_le)
      moreover have "j - Suc ?h < j - i" and "Suc ?h \<le> j" using True by auto
      ultimately show ?thesis
        unfolding go_search_step(2) [of i j f, OF True fh] using less.hyps [of j "Suc ?h"] less.prems by blast
    qed
  next
    case False
    with less.prems show ?thesis by (simp add: go_search_step(3))
  qed
qed

section \<open>Single precision floats\<close>

text \<open>
  A \<open>float32\<close> is its IEEE 754 bit pattern.  The order of two patterns that are not NaN is
  the order of their sign-magnitude values, and a comparison with a NaN is false.
\<close>

type_synonym float32 = "32 word"

definition f32_nan :: "float32 \<Rightarrow> bool" where
  "f32_nan x \<longleftrightarrow> 0x7F800000 < x AND 0x7FFFFFFF"

definition f32_key :: "float32 \<Rightarrow> int" where
  "f32_key x = (if bit x 31 then - uint (x AND 0x7FFFFFFF) else uint (x AND 0x7FFFFFFF))"

definition f32_greater :: "float32 \<Rightarrow> float32 \<Rightarrow> bool" where
  "f32_greater x y \<longleftrightarrow> \<not> f32_nan x \<and> \<not> f32_nan y \<and> f32_key y < f32_key x"

definition f32_ge :: "float32 \<Rightarrow> float32 \<Rightarrow> bool" where
  "f32_ge x y \<longleftrightarrow> \<not> f32_nan x \<and> \<not> f32_nan y \<and> f32_key y \<le> f32_key x"

lemma f32_greater_irrefl [simp]: "\<not> f32_greater x x"
  by (simp add: f32_greater_def)

lemma f32_greater_trans: "f32_greater x y \<Longrightarrow> f32_greater y z \<Longrightarrow> f32_greater x z"
  by (auto simp: f32_greater_def)

lemma f32_greater_nan: "f32_greater x y \<Longrightarrow> \<not> f32_nan x"
  by (simp add: f32_greater_def)

lemma f32_zero [simp]: "\<not> f32_nan 0" "f32_key 0 = 0"
  by (simp_all add: f32_nan_def f32_key_def)

lemma f32_ge_not_greater: "\<not> f32_nan x \<Longrightarrow> \<not> f32_nan y \<Longrightarrow> f32_ge x y \<longleftrightarrow> \<not> f32_greater y x"
  by (auto simp: f32_ge_def f32_greater_def)

section \<open>UDP addresses\<close>

text \<open>A resolved \<open>udp4\<close> address and its \<open>String\<close> method, e.g. \<open>127.0.0.1:5000\<close>.\<close>

record udp_addr =
  IP0 :: byte
  IP1 :: byte
  IP2 :: byte
  IP3 :: byte
  Port :: "16 word"

definition addr_string :: "udp_addr \<Rightarrow> string" where
  "addr_string a =
     dec (unat (IP0 a)) @ CHR ''.'' # dec (unat (IP1 a)) @ CHR ''.'' # dec (unat (IP2 a))
     @ CHR ''.'' # dec (unat (IP3 a)) @ CHR '':'' # dec (unat (Port a))"

lemma append_sep_inject:
  "c \<notin> set xs \<Longrightarrow> c \<notin> set xs' \<Longrightarrow> xs @ c # ys = xs' @ c # ys' \<longleftrightarrow> xs = xs' \<and> ys = ys'"
proof (induction xs arbitrary: xs')
  case Nil
  then show ?case by (cases xs') auto
next
  case (Cons x xs)
  then show ?case by (cases xs') auto
qed

lemma addr_string_inject [simp]: "addr_string a = addr_string b \<longleftrightarrow> a = b"
proof
  assume "addr_string a = addr_string b"
  then show "a = b"
    by (cases a; cases b)
      (auto simp: addr_string_def append_sep_inject dest!: unsigned_word_eqI)
qed simp

end
