(* ===== verification/Header.thy ===== *)
theory Header
  imports GoLib
begin

text \<open>
  The data of \<open>gossiper/header.go\<close> and \<open>helpers.Message\<close>: every struct is a record with
  the struct's fields in order, a pointer that may be nil is an option, a 32 byte hash is a byte
  list, an identifier keeps its width.  The flags and constants of the package are one record,
  set by \<open>SetAppConstants\<close>.
\<close>

section \<open>Messages\<close>

record simple_message =
  simple_OriginalName :: string
  simple_RelayPeerAddr :: string
  simple_Contents :: string

record rumor_message =
  rumor_Origin :: string
  rumor_ID :: u32
  rumor_Text :: string

record peer_status =
  Identifier :: string
  NextID :: u32

record status_packet =
  Want :: "peer_status list"

record private_message =
  priv_Origin :: string
  priv_ID :: u32
  priv_Text :: string
  priv_Destination :: string
  priv_HopLimit :: u32

type_synonym tlc_ack = private_message

record data_request =
  dreq_Origin :: string
  dreq_Destination :: string
  dreq_HopLimit :: u32
  dreq_HashValue :: bytes

text \<open>The data of a reply is nil when the peer asked does not have it.\<close>

record data_reply =
  drep_Origin :: string
  drep_Destination :: string
  drep_HopLimit :: u32
  drep_HashValue :: bytes
  drep_Data :: "bytes option"

record search_request =
  sreq_Origin :: string
  sreq_Budget :: u64
  sreq_Keywords :: "string list"

record search_result =
  sres_FileName :: string
  sres_MetafileHash :: bytes
  sres_ChunkMap :: "u64 list"
  sres_ChunkCount :: u64

record search_reply =
  srep_Origin :: string
  srep_Destination :: string
  srep_HopLimit :: u32
  srep_Results :: "search_result list"

record tx_publish =
  tx_Name :: string
  tx_Size :: int
  tx_MetafileHash :: bytes

record block_publish =
  PrevHash :: bytes
  Transaction :: tx_publish

record tlc_message =
  tlc_Origin :: string
  tlc_ID :: u32
  tlc_Confirmed :: int
  tlc_TxBlock :: block_publish
  tlc_VectorClock :: "status_packet option"
  tlc_Fitness :: float32

record gossip_packet =
  Simple :: "simple_message option"
  Rumor :: "rumor_message option"
  Status :: "status_packet option"
  Private :: "private_message option"
  DataRequest :: "data_request option"
  DataReply :: "data_reply option"
  SearchRequest :: "search_request option"
  SearchReply :: "search_reply option"
  TLCMessage :: "tlc_message option"
  Ack :: "tlc_ack option"

definition empty_packet :: gossip_packet where
  "empty_packet = \<lparr>Simple = None, Rumor = None, Status = None, Private = None,
     DataRequest = None, DataReply = None, SearchRequest = None, SearchReply = None,
     TLCMessage = None, Ack = None\<rparr>"

lemma empty_packet_fields [simp]:
  "Simple empty_packet = None" "Rumor empty_packet = None" "Status empty_packet = None"
  "Private empty_packet = None" "DataRequest empty_packet = None" "DataReply empty_packet = None"
  "SearchRequest empty_packet = None" "SearchReply empty_packet = None"
  "TLCMessage empty_packet = None" "Ack empty_packet = None"
  by (simp_all add: empty_packet_def)

text \<open>\<open>connectionhandler.go\<close>: a gossip packet with the address of its sender.\<close>

record ext_packet =
  Packet :: gossip_packet
  SenderAddr :: udp_addr

text \<open>\<open>uifunctions.go\<close>: what the interface shows of a file.\<close>

record file_gui =
  gui_Name :: string
  gui_MetaHash :: string
  gui_Size :: int

text \<open>
  \<open>filehandler.go\<close>: what is known of a file.  A file that is only known from the network has
  size 0 until it is downloaded.
\<close>

record file_metadata =
  FileName :: string
  MetafileHash :: bytes
  ChunkCount :: u64
  ChunkMap :: "u64 list"
  FileSize :: int

text \<open>\<open>helpers.Message\<close>: a command of the client.\<close>

record client_message =
  Text :: string
  Destination :: "string option"
  File :: "string option"
  Request :: "bytes option"
  Keywords :: "string option"
  Budget :: "u64 option"

section \<open>Flags and constants\<close>

record app_config =
  hw1 :: bool
  hw2 :: bool
  hw3 :: bool
  simpleMode :: bool
  hw3ex2Mode :: bool
  hw3ex3Mode :: bool
  hw3ex4Mode :: bool
  ackAllMode :: bool
  hopLimit :: int
  stubbornTimeout :: int
  routeRumorTimeout :: int
  antiEntropyTimeout :: int

definition initial_config :: app_config where
  "initial_config = \<lparr>hw1 = True, hw2 = True, hw3 = True, simpleMode = False,
     hw3ex2Mode = False, hw3ex3Mode = False, hw3ex4Mode = False, ackAllMode = False,
     hopLimit = 10, stubbornTimeout = 10, routeRumorTimeout = 0, antiEntropyTimeout = 10\<rparr>"

definition modeTypes :: "string list" where
  "modeTypes = [''simple'', ''rumor'', ''status'', ''private'', ''dataRequest'', ''dataReply'',
     ''searchRequest'', ''searchReply'', ''tlcMes'', ''tlcAck'', ''clientBlock'', ''tlcCausal'']"

definition maxChannelSize :: nat where "maxChannelSize = 100"
definition latestMessagesBuffer :: nat where "latestMessagesBuffer = 30"
definition matchThreshold :: nat where "matchThreshold = 2"
definition maxBudget :: u64 where "maxBudget = 32"
definition defaultBudget :: u64 where "defaultBudget = 2"
definition fileChunk :: nat where "fileChunk = 8192"

text \<open>\<open>500 * time.Millisecond\<close>, in nanoseconds.\<close>

definition searchRequestDuplicateTimeout :: int where
  "searchRequestDuplicateTimeout = 500 * 1000000"

text \<open>\<open>SetAppConstants\<close> of \<open>gossiper.go\<close>, with its two implications between the modes.\<close>

definition SetAppConstants ::
  "bool \<Rightarrow> bool \<Rightarrow> bool \<Rightarrow> bool \<Rightarrow> bool \<Rightarrow> u64 \<Rightarrow> u64 \<Rightarrow> u64 \<Rightarrow> u64 \<Rightarrow> app_config \<Rightarrow> app_config" where
  "SetAppConstants simple ex2 ex3 ex4 ackAll hopLimitVal stubbornTimeoutVal rtimer antiEntropy c =
     (let c = c\<lparr>simpleMode := simple, hw3ex2Mode := ex2, hw3ex3Mode := ex3,
                hw3ex4Mode := ex4, ackAllMode := ackAll\<rparr>;
          c = (if hw3ex4Mode c then c\<lparr>hw3ex3Mode := True\<rparr> else c);
          c = (if hw3ex3Mode c then c\<lparr>hw3ex3Mode := True\<rparr> else c)
      in c\<lparr>hopLimit := sint hopLimitVal, stubbornTimeout := sint stubbornTimeoutVal,
           routeRumorTimeout := sint rtimer, antiEntropyTimeout := sint antiEntropy\<rparr>)"

text \<open>\<open>initPacketChannels\<close>: the names for which a channel is made.\<close>

definition initPacketChannels :: "app_config \<Rightarrow> string list" where
  "initPacketChannels c =
     filter (\<lambda>t. (t \<noteq> ''simple'' \<and> \<not> simpleMode c) \<or> (t = ''simple'' \<and> simpleMode c)) modeTypes"

section \<open>Types of packets and of client messages\<close>

text \<open>\<open>getTypeFromGossip\<close> of \<open>utils.go\<close>: the first field that is not nil decides.\<close>

definition getTypeFromGossip :: "gossip_packet \<Rightarrow> string" where
  "getTypeFromGossip p =
     (if Simple p \<noteq> None then ''simple''
      else if Rumor p \<noteq> None then ''rumor''
      else if Private p \<noteq> None then ''private''
      else if Status p \<noteq> None then ''status''
      else if DataRequest p \<noteq> None then ''dataRequest''
      else if DataReply p \<noteq> None then ''dataReply''
      else if SearchRequest p \<noteq> None then ''searchRequest''
      else if SearchReply p \<noteq> None then ''searchReply''
      else if TLCMessage p \<noteq> None then ''tlcMes''
      else if Ack p \<noteq> None then ''tlcAck''
      else ''unknown'')"

definition getTypeFromMessage :: "app_config \<Rightarrow> client_message \<Rightarrow> string" where
  "getTypeFromMessage c m =
     (if simpleMode c then ''simple''
      else if Destination m \<noteq> None \<and> Text m \<noteq> '''' \<and> File m = None \<and> Request m = None
        \<and> Keywords m = None then ''private''
      else if Text m = '''' \<and> File m \<noteq> None \<and> Request m \<noteq> None \<and> Keywords m = None
        then ''dataRequest''
      else if Destination m = None \<and> Text m = '''' \<and> File m \<noteq> None \<and> Request m = None
        \<and> Keywords m = None then ''file''
      else if Destination m = None \<and> Text m = '''' \<and> File m = None \<and> Request m = None
        \<and> Keywords m \<noteq> None then ''searchRequest''
      else if Text m \<noteq> '''' \<and> Destination m = None \<and> File m = None \<and> Request m = None
        \<and> Keywords m = None then ''rumor''
      else ''unknown'')"

lemma getTypeFromMessage_values:
  "getTypeFromMessage c m \<in> {''simple'', ''private'', ''rumor'', ''file'', ''dataRequest'', ''searchRequest'', ''unknown''}"
  unfolding getTypeFromMessage_def by (simp only: insert_iff split: if_split) simp

lemma getTypeFromMessage_fields:
  "getTypeFromMessage c m = ''private'' \<Longrightarrow> \<exists>d. Destination m = Some d"
  "getTypeFromMessage c m = ''file'' \<Longrightarrow> \<exists>f. File m = Some f"
  "getTypeFromMessage c m = ''dataRequest'' \<Longrightarrow> \<exists>f q. File m = Some f \<and> Request m = Some q"
  "getTypeFromMessage c m = ''searchRequest'' \<Longrightarrow> \<exists>k. Keywords m = Some k"
  by (auto simp: getTypeFromMessage_def split: if_splits)

text \<open>The type of a packet names a field of the packet that is there.\<close>

lemma type_simple_iff: "getTypeFromGossip p = ''simple'' \<longleftrightarrow> Simple p \<noteq> None"
  by (simp add: getTypeFromGossip_def)

lemma type_rumor_iff: "getTypeFromGossip p = ''rumor'' \<longleftrightarrow> Simple p = None \<and> Rumor p \<noteq> None"
  by (simp add: getTypeFromGossip_def)

lemma type_unknown_iff: "getTypeFromGossip p = ''unknown'' \<longleftrightarrow> p = empty_packet"
  by (cases p) (simp add: getTypeFromGossip_def empty_packet_def)

lemma type_in_modes:
  "p \<noteq> empty_packet \<Longrightarrow> getTypeFromGossip p \<in> set modeTypes"
  using type_unknown_iff [of p] by (auto simp: getTypeFromGossip_def modeTypes_def split: if_splits)

lemma packet_field_types [simp]:
  "getTypeFromGossip (empty_packet\<lparr>Rumor := Some r\<rparr>) = ''rumor''"
  "getTypeFromGossip (empty_packet\<lparr>TLCMessage := Some t\<rparr>) = ''tlcMes''"
  "getTypeFromGossip (empty_packet\<lparr>Status := Some s\<rparr>) = ''status''"
  "getTypeFromGossip (empty_packet\<lparr>Simple := Some m\<rparr>) = ''simple''"
  "getTypeFromGossip (empty_packet\<lparr>Private := Some v\<rparr>) = ''private''"
  by (simp_all add: getTypeFromGossip_def empty_packet_def)

end
