(* ===== verification/Helpers.thy ===== *)
theory Helpers
  imports Header
begin

text \<open>
  \<open>helpers/generalhelpers.go\<close>: the difference of two peer lists, the removal of duplicates by
  way of a map (the result comes back in the map's iteration order, an argument here), and the
  insertion into a sorted slice by binary search.
\<close>

definition DifferenceString :: "udp_addr list \<Rightarrow> udp_addr list \<Rightarrow> udp_addr list" where
  "DifferenceString list1 list2 =
     (let mapList2 = fset_of_list (map addr_string list2)
      in filter (\<lambda>x. addr_string x |\<notin>| mapList2) list1)"

definition GetArrayStringFromAddresses :: "udp_addr list \<Rightarrow> string list" where
  "GetArrayStringFromAddresses peers = map addr_string peers"

definition RemoveDuplicatesFromStringSlice :: "(string fset \<Rightarrow> string list) \<Rightarrow> string list \<Rightarrow> string list" where
  "RemoveDuplicatesFromStringSlice ord ks = ord (fset_of_list ks)"

definition RemoveDuplicatesFromUint64Slice :: "(u64 fset \<Rightarrow> u64 list) \<Rightarrow> u64 list \<Rightarrow> u64 list" where
  "RemoveDuplicatesFromUint64Slice ord ks = ord (fset_of_list ks)"

text \<open>
  The search predicate is only asked for indices below the length.  Appending a slot, shifting
  the tail by one and writing the element is an insertion at the index found.
\<close>

definition InsertToSortUint64Slice :: "u64 list \<Rightarrow> u64 \<Rightarrow> u64 list" where
  "InsertToSortUint64Slice data el =
     (let index = go_search (\<lambda>i. i < length data \<longrightarrow> el < data ! i) 0 (length data)
      in take index data @ el # drop index data)"

text \<open>Addresses are compared by their printed form, which is injective: the difference is exact.\<close>

lemma DifferenceString_filter [go_simps]:
  "DifferenceString xs ys = filter (\<lambda>x. x \<notin> set ys) xs"
  by (auto simp: DifferenceString_def fset_of_list_elem intro!: filter_cong)

lemma DifferenceString_set [simp]: "set (DifferenceString xs ys) = set xs - set ys"
  by (auto simp: DifferenceString_filter)

lemma DifferenceString_distinct: "distinct xs \<Longrightarrow> distinct (DifferenceString xs ys)"
  by (simp add: DifferenceString_filter)

lemma DifferenceString_snoc:
  "DifferenceString xs (ys @ [y]) = filter (\<lambda>x. x \<noteq> y) (DifferenceString xs ys)"
  by (auto simp: DifferenceString_filter intro!: filter_cong)

lemma RemoveDuplicatesFromStringSlice_set:
  "is_order ord \<Longrightarrow> set (RemoveDuplicatesFromStringSlice ord xs) = set xs"
  by (simp add: RemoveDuplicatesFromStringSlice_def is_order_set fset_of_list.rep_eq)

lemma RemoveDuplicatesFromStringSlice_distinct:
  "is_order ord \<Longrightarrow> distinct (RemoveDuplicatesFromStringSlice ord xs)"
  by (simp add: RemoveDuplicatesFromStringSlice_def is_order_distinct)

lemma RemoveDuplicatesFromUint64Slice_set:
  "is_order ord \<Longrightarrow> set (RemoveDuplicatesFromUint64Slice ord xs) = set xs"
  by (simp add: RemoveDuplicatesFromUint64Slice_def is_order_set fset_of_list.rep_eq)

lemma RemoveDuplicatesFromUint64Slice_distinct:
  "is_order ord \<Longrightarrow> distinct (RemoveDuplicatesFromUint64Slice ord xs)"
  by (simp add: RemoveDuplicatesFromUint64Slice_def is_order_distinct)

lemma mset_InsertToSort: "mset (InsertToSortUint64Slice xs x) = add_mset x (mset xs)"
proof -
  have "mset (take i xs) + mset (drop i xs) = mset xs" for i
    by (simp flip: mset_append)
  then show ?thesis by (simp add: InsertToSortUint64Slice_def Let_def)
qed

lemma set_InsertToSort [simp]: "set (InsertToSortUint64Slice xs x) = insert x (set xs)"
  by (metis mset_InsertToSort set_mset_add_mset_insert set_mset_mset)

lemma sorted_InsertToSort_aux:
  assumes "sorted xs" "\<forall>k < i. \<not> x < xs ! k" "\<forall>k < length xs. i \<le> k \<longrightarrow> x < xs ! k" "i \<le> length xs"
  shows "sorted (take i xs @ x # drop i (xs :: 'a::linorder list))"
proof -
  have "\<forall>y \<in> set (take i xs). y \<le> x"
    using assms(2,4) by (auto simp: in_set_conv_nth not_less)
  moreover have hi: "\<forall>y \<in> set (drop i xs). x \<le> y"
    using assms(3,4) by (auto simp: in_set_conv_nth intro!: less_imp_le)
  moreover have "\<forall>y \<in> set (take i xs). \<forall>z \<in> set (drop i xs). y \<le> z"
    using calculation by (meson order_trans)
  ultimately show ?thesis
    using assms(1) by (simp add: sorted_append sorted_wrt_take sorted_wrt_drop)
qed

text \<open>Inserting into a sorted slice keeps it sorted and adds exactly the element.\<close>

lemma InsertToSort_sorted:
  assumes "sorted xs"
  shows "sorted (InsertToSortUint64Slice xs x) \<and> mset (InsertToSortUint64Slice xs x) = add_mset x (mset xs)"
proof -
  let ?f = "\<lambda>i. i < length xs \<longrightarrow> x < xs ! i"
  let ?i = "go_search ?f 0 (length xs)"
  have mono: "?f b" if "a \<le> b" and "?f a" for a b
    using that sorted_nth_mono [OF assms, of a b] by auto
  have "(\<forall>k < ?i. \<not> ?f k) \<and> (\<forall>k < length xs. ?i \<le> k \<longrightarrow> ?f k)"
    by (rule go_search_correct [OF mono]) auto
  moreover have "?i \<le> length xs" using go_search_bounds [of 0 "length xs" ?f] by simp
  ultimately have "sorted (take ?i xs @ x # drop ?i xs)"
    by (intro sorted_InsertToSort_aux [OF assms]) blast+
  then show ?thesis using mset_InsertToSort [of xs x] by (simp add: InsertToSortUint64Slice_def Let_def)
qed

lemma InsertToSort_sorted_witness:
  "sorted [1, 3 :: u64] \<and> sorted (InsertToSortUint64Slice [1, 3] 2)"
  using InsertToSort_sorted [of "[1, 3]" 2] by simp

end
