(* ===== verification/Status.thy ===== *)
theory Status
  imports Helpers
begin

text \<open>
  \<open>gossiper/status.go\<close>: the vector clock of a node, which maps an origin to the least sequence
  number of it that is not stored, the comparisons of two clocks that drive the anti-entropy
  exchange, and the registry of listeners for status packets.  \<open>'p\<close> is the type of the stored
  messages.  Ranging over a map takes the order \<open>ord\<close> of its keys.
\<close>

type_synonym vector_clock = "(string, u32) fmap"
type_synonym 'p message_map = "(u32, 'p) fmap"
type_synonym 'p message_storage = "(string, 'p message_map) fmap"

section \<open>Advancing the clock\<close>

text \<open>
  The loop of \<open>updateStatus\<close>.  The counter is a \<open>uint32\<close> and wraps, so the loop ends exactly
  when some sequence number is missing from the map; \<open>None\<close> is the loop that never ends.
\<close>

partial_function (option) updateStatus_loop ::
  "string \<Rightarrow> 'p message_map \<Rightarrow> u32 \<Rightarrow> vector_clock \<Rightarrow> vector_clock option" where
  "updateStatus_loop origin mapValue maxID E =
     (case fmlookup mapValue maxID of
        None \<Rightarrow> Some E
      | Some m \<Rightarrow> updateStatus_loop origin mapValue (maxID + 1) (fmupd origin (maxID + 1) E))"

definition updateStatus ::
  "string \<Rightarrow> u32 \<Rightarrow> 'p message_map \<Rightarrow> vector_clock \<Rightarrow> vector_clock option" where
  "updateStatus origin mid mapValue E =
     (let maxID = (case fmlookup E origin of None \<Rightarrow> 1 | Some v \<Rightarrow> v)
      in if maxID \<le> mid then updateStatus_loop origin mapValue maxID E else Some E)"

section \<open>Comparing clocks\<close>

definition createMyStatusPacket :: "(string fset \<Rightarrow> string list) \<Rightarrow> vector_clock \<Rightarrow> status_packet" where
  "createMyStatusPacket ord E =
     \<lparr>Want = map (\<lambda>origin. \<lparr>Identifier = origin, NextID = the (fmlookup E origin)\<rparr>) (ord (fmdom E))\<rparr>"

text \<open>The map built from the other peer's list: a later entry overwrites an earlier one.\<close>

definition originIDMap :: "peer_status list \<Rightarrow> (string, u32) fmap" where
  "originIDMap otherStatus = fold (\<lambda>elem m. fmupd (Identifier elem) (NextID elem) m) otherStatus fmempty"

fun scan_status :: "vector_clock \<Rightarrow> (string, u32) fmap \<Rightarrow> string list \<Rightarrow> peer_status option" where
  "scan_status E other [] = None"
| "scan_status E other (origin # os) =
     (case fmlookup other origin of
        None \<Rightarrow> Some \<lparr>Identifier = origin, NextID = 1\<rparr>
      | Some mid \<Rightarrow> if mid < the (fmlookup E origin) then Some \<lparr>Identifier = origin, NextID = mid\<rparr>
                   else scan_status E other os)"

definition getPeerStatusForPeer ::
  "(string fset \<Rightarrow> string list) \<Rightarrow> vector_clock \<Rightarrow> peer_status list \<Rightarrow> peer_status option" where
  "getPeerStatusForPeer ord E otherStatus = scan_status E (originIDMap otherStatus) (ord (fmdom E))"

definition checkIfINeedPeerStatus :: "vector_clock \<Rightarrow> peer_status list \<Rightarrow> bool" where
  "checkIfINeedPeerStatus E otherStatus =
     list_ex (\<lambda>elem. case fmlookup E (Identifier elem) of
                None \<Rightarrow> True | Some mid \<Rightarrow> mid < NextID elem) otherStatus"

text \<open>
  \<open>getPacketFromPeerStatus\<close>: the two loads ignore the found flag, and the type assertions panic
  on a nil interface.
\<close>

definition getPacketFromPeerStatus :: "'p message_storage \<Rightarrow> peer_status \<Rightarrow> 'p res" where
  "getPacketFromPeerStatus storage ps =
     (case fmlookup storage (Identifier ps) of
        None \<Rightarrow> Inl NilAssertion
      | Some idMessages \<Rightarrow> of_option NilAssertion (fmlookup idMessages (NextID ps)))"

section \<open>Listeners for status packets\<close>

text \<open>
  \<open>mongeringChannels\<close>: per peer, the messages being mongered with it.  The channel of a listener
  is the number of notifications sent to it.
\<close>

type_synonym message_id = "string \<times> u32"
type_synonym mongering_channels = "(string, (message_id, nat) fmap) fmap"

definition getListenerForStatus ::
  "string \<Rightarrow> u32 \<Rightarrow> string \<Rightarrow> mongering_channels \<Rightarrow> mongering_channels \<times> bool" where
  "getListenerForStatus origin mid peer mc =
     (let (mc1, msgChan, _) = LoadOrStore peer fmempty mc;
          (msgChan', _, loaded) = LoadOrStore (origin, mid) 0 msgChan
      in (fmupd peer msgChan' mc1, loaded))"

definition deleteListenerForStatus ::
  "string \<Rightarrow> u32 \<Rightarrow> string \<Rightarrow> mongering_channels \<Rightarrow> mongering_channels" where
  "deleteListenerForStatus origin mid peer mc =
     (let (mc1, msgChan, _) = LoadOrStore peer fmempty mc
      in fmupd peer (fmdrop (origin, mid) msgChan) mc1)"

text \<open>
  \<open>notifyListenersForStatus\<close>: one notification for every entry of the status that shows the
  message was received.
\<close>

definition acks_of :: "peer_status list \<Rightarrow> message_id \<Rightarrow> nat" where
  "acks_of want = (\<lambda>(origin, mid). length (filter (\<lambda>ps. Identifier ps = origin \<and> mid < NextID ps) want))"

definition notifyListenersForStatus ::
  "string \<Rightarrow> peer_status list \<Rightarrow> mongering_channels \<Rightarrow> mongering_channels" where
  "notifyListenersForStatus sender want mc =
     (case fmlookup mc sender of
        None \<Rightarrow> mc
      | Some msgChan \<Rightarrow> fmupd sender (fmmap_keys (\<lambda>k n. n + acks_of want k) msgChan) mc)"

section \<open>What the loop computes\<close>

lemma updateStatus_loop_spec:
  assumes "k |\<notin>| fmdom m" and "s \<le> k"
  shows "\<exists>r. updateStatus_loop origin m s E = Some (if r = s then E else fmupd origin r E)
           \<and> s \<le> r \<and> r \<le> k \<and> r |\<notin>| fmdom m \<and> (\<forall>i. s \<le> i \<and> i < r \<longrightarrow> i |\<in>| fmdom m)"
  using assms(2)
proof (induction "unat (k - s)" arbitrary: s E rule: less_induct)
  case less
  show ?case
  proof (cases "fmlookup m s")
    case None
    then have "s |\<notin>| fmdom m" by (simp add: fmdom_notI)
    with None less.prems show ?thesis
      by (intro exI [of _ s]) (auto simp: updateStatus_loop.simps)
  next
    case (Some x)
    then have s: "s |\<in>| fmdom m" by (rule fmdomI)
    with assms(1) have "s \<noteq> k" by blast
    with less.prems have sk: "s < k" by simp
    obtain r where r: "updateStatus_loop origin m (s + 1) (fmupd origin (s + 1) E)
        = Some (if r = s + 1 then fmupd origin (s + 1) E else fmupd origin r (fmupd origin (s + 1) E))"
      "s + 1 \<le> r" "r \<le> k" "r |\<notin>| fmdom m" "\<forall>i. s + 1 \<le> i \<and> i < r \<longrightarrow> i |\<in>| fmdom m"
      using less.hyps [of "s + 1" "fmupd origin (s + 1) E"] unat_diff_step [OF \<open>s \<noteq> k\<close> [symmetric]]
        word_step_le(1) [OF sk] by blast
    have "s < r" using word_step_le(2) [OF sk] r(2) by simp
    moreover have "i |\<in>| fmdom m" if "s \<le> i" "i < r" for i
      using that s r(5) by (cases "i = s") (auto simp: inc_le)
    ultimately show ?thesis
      using r Some by (intro exI [of _ r]) (auto simp: updateStatus_loop.simps [of origin m s E])
  qed
qed

text \<open>
  C19: the loop of \<open>updateStatus\<close> returns exactly when some sequence number is not stored; with
  all of the 2^32 numbers present it runs for ever.
\<close>

theorem updateStatus_loop_returns_iff:
  "(\<exists>E'. updateStatus_loop origin m s E = Some E') \<longleftrightarrow> (\<exists>k. k |\<notin>| fmdom m)"
proof
  assume "\<exists>E'. updateStatus_loop origin m s E = Some E'"
  then obtain E' where ret: "updateStatus_loop origin m s E = Some E'" ..
  show "\<exists>k. k |\<notin>| fmdom m"
  proof (rule updateStatus_loop.raw_induct [where P = "\<lambda>origin m s E r. \<exists>k. k |\<notin>| fmdom m", OF _ ret])
    fix f origin m s E r
    assume "\<And>origin (m :: 'a message_map) s E r. f origin m s E = Some r \<Longrightarrow> \<exists>k. k |\<notin>| fmdom m"
      and "(case fmlookup m s of None \<Rightarrow> Some E
            | Some x \<Rightarrow> f origin m (s + 1) (fmupd origin (s + 1) E)) = Some r"
    then show "\<exists>k. k |\<notin>| fmdom m"
      by (cases "fmlookup m s") (auto simp: fmlookup_dom_iff)
  qed
next
  assume "\<exists>k. k |\<notin>| fmdom m"
  then obtain k where k: "k |\<notin>| fmdom m" ..
  show "\<exists>E'. updateStatus_loop origin m s E = Some E'"
  proof (induction "unat (k - s)" arbitrary: s E rule: less_induct)
    case less
    show ?case
    proof (cases "s = k")
      case True
      with k have "updateStatus_loop origin m s E = Some E"
        by (subst updateStatus_loop.simps) (simp add: fmdom_notD)
      then show ?thesis ..
    next
      case False
      then have "\<exists>E'. updateStatus_loop origin m (s + 1) (fmupd origin (s + 1) E) = Some E'"
        using less.hyps [of "s + 1"] unat_diff_step [of k s] by blast
      then show ?thesis
        by (auto simp: updateStatus_loop.simps [of origin m s E] split: option.split)
    qed
  qed
qed

section \<open>What the comparisons decide\<close>

lemma fold_fmupd_lookup:
  "fmlookup (fold (\<lambda>e m. fmupd (f e) (g e) m) xs m0) k =
     (case find (\<lambda>e. f e = k) (rev xs) of None \<Rightarrow> fmlookup m0 k | Some e \<Rightarrow> Some (g e))"
  by (induction xs rule: rev_induct) auto

lemma originIDMap_lookup:
  "fmlookup (originIDMap xs) k = map_option NextID (find (\<lambda>e. Identifier e = k) (rev xs))"
  by (simp add: originIDMap_def fold_fmupd_lookup option.case_eq_if map_option_case)

lemma originIDMap_SomeD:
  "fmlookup (originIDMap xs) k = Some n \<Longrightarrow> \<exists>e \<in> set xs. Identifier e = k \<and> NextID e = n"
  by (auto simp: originIDMap_lookup dest!: find_SomeD)

text \<open>Sending a clock and reading it back gives the same clock, whatever the iteration order.\<close>

lemma find_key_map:
  "find (\<lambda>e. Identifier e = k) (map (\<lambda>a. \<lparr>Identifier = a, NextID = f a\<rparr>) ks)
     = (if k \<in> set ks then Some \<lparr>Identifier = k, NextID = f k\<rparr> else None)"
  by (induction ks) auto

lemma status_packet_roundtrip:
  assumes "is_order ord"
  shows "originIDMap (Want (createMyStatusPacket ord E)) = E"
proof (rule fmap_ext)
  fix k
  show "fmlookup (originIDMap (Want (createMyStatusPacket ord E))) k = fmlookup E k"
    using is_order_set [OF assms, of "fmdom E"]
    by (auto simp: originIDMap_lookup createMyStatusPacket_def find_key_map rev_map fmdom_notD
        split: if_splits dest: fmdom_notD)
qed

lemma Want_createMyStatusPacket:
  assumes "is_order ord"
  shows "e \<in> set (Want (createMyStatusPacket ord E)) \<longleftrightarrow> fmlookup E (Identifier e) = Some (NextID e)"
  using is_order_set [OF assms, of "fmdom E"]
  by (cases e) (auto simp: createMyStatusPacket_def image_iff dest: fmdomI)

lemma scan_status_None:
  "scan_status E other os = None \<longleftrightarrow>
     (\<forall>origin \<in> set os. \<exists>n. fmlookup other origin = Some n \<and> the (fmlookup E origin) \<le> n)"
  by (induction os) (auto split: option.splits simp: not_less)

lemma scan_status_Some:
  "scan_status E other os = Some ps \<Longrightarrow> Identifier ps \<in> set os \<and>
     (case fmlookup other (Identifier ps) of
        None \<Rightarrow> NextID ps = 1
      | Some n \<Rightarrow> NextID ps = n \<and> n < the (fmlookup E (Identifier ps)))"
  by (induction os) (auto split: option.splits if_splits)

definition clock_le :: "vector_clock \<Rightarrow> vector_clock \<Rightarrow> bool" where
  "clock_le E F \<longleftrightarrow> (\<forall>k n. fmlookup E k = Some n \<longrightarrow> (\<exists>m. fmlookup F k = Some m \<and> n \<le> m))"

lemma clock_le_refl [simp]: "clock_le E E"
  by (auto simp: clock_le_def)

lemma clock_le_trans: "clock_le E F \<Longrightarrow> clock_le F G \<Longrightarrow> clock_le E G"
  unfolding clock_le_def by (meson order_trans)

lemma clock_le_antisym: "clock_le E F \<Longrightarrow> clock_le F E \<Longrightarrow> E = F"
proof (rule fmap_ext)
  fix k
  assume "clock_le E F" and "clock_le F E"
  then show "fmlookup E k = fmlookup F k"
    unfolding clock_le_def
    by (cases "fmlookup E k"; cases "fmlookup F k") (fastforce dest: antisym)+
qed

lemma getPeerStatusForPeer_None:
  assumes "is_order ord"
  shows "getPeerStatusForPeer ord E want = None \<longleftrightarrow> clock_le E (originIDMap want)"
  using is_order_set [OF assms, of "fmdom E"]
  by (force simp: getPeerStatusForPeer_def scan_status_None clock_le_def fmlookup_dom_iff)

lemma getPeerStatusForPeer_Some:
  assumes "is_order ord" and "getPeerStatusForPeer ord E want = Some ps"
  shows "\<exists>n. fmlookup E (Identifier ps) = Some n \<and>
     (case fmlookup (originIDMap want) (Identifier ps) of
        None \<Rightarrow> NextID ps = 1 | Some k \<Rightarrow> NextID ps = k \<and> k < n)"
  using scan_status_Some [OF assms(2) [unfolded getPeerStatusForPeer_def]]
    is_order_set [OF assms(1), of "fmdom E"]
  by (auto simp: fmlookup_dom_iff split: option.splits)

lemma checkIfINeed_iff:
  assumes "is_order ord"
  shows "checkIfINeedPeerStatus E (Want (createMyStatusPacket ord F)) \<longleftrightarrow> \<not> clock_le F E"
  using Want_createMyStatusPacket [OF assms, of _ F]
  by (auto simp: checkIfINeedPeerStatus_def list_ex_iff clock_le_def not_le split: option.splits)
    (metis peer_status.select_convs not_le option.inject)+

text \<open>
  Two nodes report to be in sync (nothing to send, nothing to ask for) exactly when their
  vector clocks are equal, whatever the order in which either ranges over its map.
\<close>

theorem in_sync_iff:
  assumes "is_order ord" and "is_order ord'"
  shows "getPeerStatusForPeer ord E (Want (createMyStatusPacket ord' F)) = None
           \<and> \<not> checkIfINeedPeerStatus E (Want (createMyStatusPacket ord' F)) \<longleftrightarrow> E = F"
  using clock_le_antisym
  by (auto simp: getPeerStatusForPeer_None [OF assms(1)] status_packet_roundtrip [OF assms(2)]
      checkIfINeed_iff [OF assms(2)])

theorem in_sync_iff_witness:
  "is_order (sorted_list_of_fset :: string fset \<Rightarrow> string list) \<and>
   (let E = fmupd ''A'' 2 (fmempty :: vector_clock); st = createMyStatusPacket sorted_list_of_fset E
    in getPeerStatusForPeer sorted_list_of_fset E (Want st) = None \<and> \<not> checkIfINeedPeerStatus E (Want st))"
  using in_sync_iff [OF sorted_is_order sorted_is_order, of "fmupd ''A'' 2 fmempty" "fmupd ''A'' 2 fmempty"]
  by (simp add: sorted_is_order Let_def)

section \<open>Listeners\<close>

lemma getListener_registers [go_simps]:
  "\<exists>mch. fmlookup (fst (getListenerForStatus origin mid peer mc)) peer = Some mch
     \<and> (origin, mid) |\<in>| fmdom mch"
  by (auto simp: getListenerForStatus_def LoadOrStore_def Let_def split: option.splits intro: fmdomI)

end
