(* ===== verification/GossipStore.thy ===== *)
theory GossipStore
  imports Status
begin

text \<open>
  \<open>gossiper/gossiphandler.go\<close>: the state of the gossip layer and the storage of messages.  The
  invariant \<open>gossip_inv\<close> is the contract between the storage and the vector clock: the clock
  of an origin is the least positive sequence number that is not stored.  The locale
  \<open>message_log\<close> states what the anti-entropy exchange relies on; it is interpreted on
  \<open>storeMessage\<close>.
\<close>

record gossip_handler =
  seqID :: u32
  messageStorage :: "gossip_packet message_storage"
  myStatus :: vector_clock
  mongeringChannels :: mongering_channels

definition NewGossipHandler :: gossip_handler where
  "NewGossipHandler = \<lparr>seqID = 1, messageStorage = fmempty, myStatus = fmempty,
     mongeringChannels = fmempty\<rparr>"

text \<open>The outer map holds pointers: storing into the inner map updates the entry in place.\<close>

definition storeMessage ::
  "gossip_packet \<Rightarrow> string \<Rightarrow> u32 \<Rightarrow> gossip_handler \<Rightarrow> (bool \<times> gossip_handler) res" where
  "storeMessage packet origin mid gh =
     (let (storage, mapValue, _) = LoadOrStore origin fmempty (messageStorage gh);
          (mapValue', _, loaded) = LoadOrStore mid packet mapValue;
          gh' = gh\<lparr>messageStorage := fmupd origin mapValue' storage\<rparr>
      in res_bind (of_option NoReturn (updateStatus origin mid mapValue' (myStatus gh')))
           (\<lambda>E. Inr (loaded, gh'\<lparr>myStatus := E\<rparr>)))"

section \<open>The storage and the clock\<close>

definition stored_ids :: "gossip_handler \<Rightarrow> string \<Rightarrow> u32 fset" where
  "stored_ids gh origin = (case fmlookup (messageStorage gh) origin of None \<Rightarrow> {||} | Some m \<Rightarrow> fmdom m)"

definition stored_msg :: "gossip_handler \<Rightarrow> string \<Rightarrow> u32 \<Rightarrow> gossip_packet option" where
  "stored_msg gh origin mid = Option.bind (fmlookup (messageStorage gh) origin) (\<lambda>m. fmlookup m mid)"

definition next_of :: "vector_clock \<Rightarrow> string \<Rightarrow> u32" where
  "next_of E origin = (case fmlookup E origin of None \<Rightarrow> 1 | Some v \<Rightarrow> v)"

definition is_next :: "u32 fset \<Rightarrow> u32 \<Rightarrow> bool" where
  "is_next S n \<longleftrightarrow> 1 \<le> n \<and> n |\<notin>| S \<and> (\<forall>i. 1 \<le> i \<and> i < n \<longrightarrow> i |\<in>| S)"

definition gossip_inv :: "gossip_handler \<Rightarrow> bool" where
  "gossip_inv gh \<longleftrightarrow>
     (\<forall>origin. is_next (stored_ids gh origin) (next_of (myStatus gh) origin)) \<and>
     (\<forall>origin n. fmlookup (myStatus gh) origin = Some n \<longrightarrow> 1 < n)"

text \<open>A sequence number is still free for the origin, so that a least one exists.\<close>

definition has_room :: "u32 fset \<Rightarrow> bool" where
  "has_room S \<longleftrightarrow> (\<exists>k \<ge> 1. k |\<notin>| S)"

lemma is_next_unique: "is_next S m \<Longrightarrow> is_next S n \<Longrightarrow> m = n"
  unfolding is_next_def by (metis linorder_neqE)

lemma stored_msg_iff: "stored_msg gh origin mid = None \<longleftrightarrow> mid |\<notin>| stored_ids gh origin"
  by (auto simp: stored_msg_def stored_ids_def fmlookup_dom_iff split: option.splits)

lemma stored_ids_iff: "mid |\<in>| stored_ids gh origin \<longleftrightarrow> stored_msg gh origin mid \<noteq> None"
  by (simp add: stored_msg_iff)

lemma NewGossipHandler_inv: "gossip_inv NewGossipHandler"
  by (auto simp: gossip_inv_def NewGossipHandler_def stored_ids_def next_of_def is_next_def)

lemma clock_le_next:
  assumes "\<And>k n. fmlookup E k = Some n \<Longrightarrow> 1 < n" and "\<And>k. next_of E k \<le> next_of F k"
  shows "clock_le E F"
  unfolding clock_le_def
proof (intro allI impI)
  fix k n
  assume n: "fmlookup E k = Some n"
  then have "n \<le> next_of F k" and "1 < n" using assms [of k] by (auto simp: next_of_def)
  then show "\<exists>m. fmlookup F k = Some m \<and> n \<le> m"
    by (cases "fmlookup F k") (auto simp: next_of_def)
qed

lemma updateStatus_next:
  assumes "is_next S n" and "n = next_of E origin" and "fmdom m = finsert mid S"
    and "has_room (fmdom m)" and "\<And>v. fmlookup E origin = Some v \<Longrightarrow> 1 < v"
  shows "\<exists>E'. updateStatus origin mid m E = Some E' \<and> is_next (fmdom m) (next_of E' origin)
           \<and> n \<le> next_of E' origin \<and> (\<forall>k. k \<noteq> origin \<longrightarrow> fmlookup E' k = fmlookup E k)
           \<and> (\<forall>v. fmlookup E' origin = Some v \<longrightarrow> 1 < v)"
proof (cases "n \<le> mid")
  case True
  obtain k where k: "1 \<le> k" "k |\<notin>| fmdom m" using assms(4) by (auto simp: has_room_def)
  have "n \<le> k" using k assms(1,3) unfolding is_next_def by (metis finsertCI not_le)
  from updateStatus_loop_spec [OF k(2) this, of origin E]
  obtain r where r: "updateStatus_loop origin m n E = Some (if r = n then E else fmupd origin r E)"
    "n \<le> r" "r |\<notin>| fmdom m" "\<forall>i. n \<le> i \<and> i < r \<longrightarrow> i |\<in>| fmdom m" by blast
  have "is_next (fmdom m) r"
    using assms(1,3) r unfolding is_next_def by (metis finsertCI not_le order_trans)
  with r True assms(2,5) show ?thesis
    by (auto simp: updateStatus_def next_of_def is_next_def Let_def split: option.splits)
next
  case False
  then have "mid |\<in>| S \<or> mid = 0"
    using assms(1) by (auto simp: is_next_def one_le_word not_le)
  then have "is_next (fmdom m) n"
    using assms(1,3) False unfolding is_next_def by auto
  with False assms show ?thesis
    by (auto simp: updateStatus_def next_of_def Let_def split: option.splits)
qed

lemma stored_ids_update:
  "stored_ids (gh\<lparr>messageStorage := fmupd origin m st, myStatus := E\<rparr>) k =
     (if k = origin then fmdom m else case fmlookup st k of None \<Rightarrow> {||} | Some m \<Rightarrow> fmdom m)"
  by (simp add: stored_ids_def)

text \<open>
  What \<open>storeMessage\<close> does when the origin has a free sequence number: it returns, tells
  whether the message was known, keeps a message that is there, and the clock is right after it.
\<close>

lemma storeMessage_spec:
  assumes inv: "gossip_inv gh" and room: "has_room (finsert mid (stored_ids gh origin))"
  shows "\<exists>gh'. storeMessage p origin mid gh = Inr (mid |\<in>| stored_ids gh origin, gh') \<and> gossip_inv gh'
    \<and> (\<forall>k. stored_ids gh' k = (if k = origin then finsert mid (stored_ids gh k) else stored_ids gh k))
    \<and> (\<forall>k i. stored_msg gh' k i = (if k = origin \<and> i = mid \<and> stored_msg gh k i = None then Some p
                                  else stored_msg gh k i))
    \<and> clock_le (myStatus gh) (myStatus gh') \<and> seqID gh' = seqID gh"
proof -
  define M where "M = (case fmlookup (messageStorage gh) origin of None \<Rightarrow> fmempty | Some m \<Rightarrow> m)"
  define M' where "M' = (if mid |\<in>| fmdom M then M else fmupd mid p M)"
  have S: "fmdom M = stored_ids gh origin"
    by (auto simp: M_def stored_ids_def split: option.split)
  have dom: "fmdom M' = finsert mid (stored_ids gh origin)"
    by (auto simp: M'_def S [symmetric])
  obtain E where E: "updateStatus origin mid M' (myStatus gh) = Some E"
    "is_next (fmdom M') (next_of E origin)" "next_of (myStatus gh) origin \<le> next_of E origin"
    "\<forall>k. k \<noteq> origin \<longrightarrow> fmlookup E k = fmlookup (myStatus gh) k"
    "\<forall>v. fmlookup E origin = Some v \<longrightarrow> 1 < v"
    using updateStatus_next [OF _ refl dom, of "myStatus gh"] inv room
    unfolding gossip_inv_def dom by blast
  let ?gh = "gh\<lparr>messageStorage := fmupd origin M' (messageStorage gh), myStatus := E\<rparr>"
  have run: "storeMessage p origin mid gh = Inr (mid |\<in>| stored_ids gh origin, ?gh)"
    using E(1) S [symmetric]
    by (auto simp: storeMessage_def M_def M'_def LoadOrStore_def Let_def fmlookup_dom_iff
        split: option.splits dest: fmdom_notD)
  have ids: "stored_ids ?gh k = (if k = origin then finsert mid (stored_ids gh k) else stored_ids gh k)" for k
    by (simp add: stored_ids_update dom) (simp add: stored_ids_def)
  have nx: "next_of E k = next_of (myStatus gh) k" if "k \<noteq> origin" for k
    using that E(4) by (simp add: next_of_def)
  have "1 < v" if "fmlookup E k = Some v" for k v
    using that E(4,5) inv unfolding gossip_inv_def by (cases "k = origin") auto
  then have "gossip_inv ?gh"
    using inv E(2) ids nx dom unfolding gossip_inv_def by auto
  moreover have "stored_msg ?gh k i = (if k = origin \<and> i = mid \<and> stored_msg gh k i = None then Some p
      else stored_msg gh k i)" for k i
    by (auto simp: stored_msg_def M'_def M_def fmlookup_dom_iff split: option.splits)
  moreover have "next_of (myStatus gh) k \<le> next_of E k" for k
    using E(3) nx by (cases "k = origin") auto
  then have "clock_le (myStatus gh) E"
    using inv unfolding gossip_inv_def by (intro clock_le_next) auto
  ultimately show ?thesis using run ids by (intro exI [of _ ?gh]) auto
qed

lemma is_next_room: "is_next S n \<Longrightarrow> -1 |\<notin>| S \<Longrightarrow> has_room S"
  unfolding has_room_def by (intro exI [of _ "-1"]) simp

section \<open>What the exchange relies on\<close>

text \<open>
  A log of messages numbered per origin, with the least number it lacks.  Numbers stay below the
  last \<open>uint32\<close>, which is never stored.
\<close>

locale message_log =
  fixes inv :: "'s \<Rightarrow> bool"
    and has :: "'s \<Rightarrow> string \<Rightarrow> u32 \<Rightarrow> bool"
    and nxt :: "'s \<Rightarrow> string \<Rightarrow> u32"
    and put :: "string \<Rightarrow> u32 \<Rightarrow> 'p \<Rightarrow> 's \<Rightarrow> 's"
  assumes nxt_missing: "inv s \<Longrightarrow> \<not> has s origin (nxt s origin)"
    and nxt_least: "inv s \<Longrightarrow> 1 \<le> i \<Longrightarrow> i < nxt s origin \<Longrightarrow> has s origin i"
    and nxt_pos: "inv s \<Longrightarrow> 1 \<le> nxt s origin"
    and put_inv: "inv s \<Longrightarrow> i \<noteq> -1 \<Longrightarrow> inv (put origin i p s)"
    and put_has: "inv s \<Longrightarrow> i \<noteq> -1 \<Longrightarrow>
       has (put origin i p s) k j \<longleftrightarrow> has s k j \<or> (k = origin \<and> j = i)"
    and has_finite: "inv s \<Longrightarrow> finite {(k, i). has s k i}"
begin

lemma nxt_mono:
  assumes "inv s" "inv t" "\<And>i. has s origin i \<Longrightarrow> has t origin i"
  shows "nxt s origin \<le> nxt t origin"
  using assms nxt_least [OF assms(1)] nxt_missing [OF assms(2)] nxt_pos [OF assms(2)]
  by (metis not_le)

lemma put_nxt_mono:
  assumes "inv s" "i \<noteq> -1"
  shows "nxt s k \<le> nxt (put origin i p s) k"
  using assms by (intro nxt_mono put_inv) (auto simp: put_has)

lemma put_nxt_strict:
  assumes "inv s" "nxt s origin \<noteq> -1"
  shows "nxt s origin < nxt (put origin (nxt s origin) p s) origin"
proof -
  have "has (put origin (nxt s origin) p s) origin (nxt s origin)"
    using assms by (simp add: put_has)
  then have "nxt s origin \<noteq> nxt (put origin (nxt s origin) p s) origin"
    using nxt_missing [OF put_inv [OF assms], of origin p origin] by metis
  with put_nxt_mono [OF assms, of origin origin p] show ?thesis by simp
qed

text \<open>
  Two replicas: what one of them has and the other lacks.  Putting a message one has into the
  other brings them closer and loses nothing.
\<close>

definition differ :: "'s \<Rightarrow> 's \<Rightarrow> (string \<times> u32) set" where
  "differ s t = {(k, i). has s k i \<noteq> has t k i}"

lemma differ_sym: "differ s t = differ t s"
  by (auto simp: differ_def)

lemma differ_put:
  assumes "inv s" "inv t" "has s origin i" "\<not> has t origin i" "i \<noteq> -1"
  shows "card (differ s (put origin i p t)) < card (differ s t)"
proof (rule psubset_card_mono)
  have "differ s t \<subseteq> {(k, i). has s k i} \<union> {(k, i). has t k i}"
    by (auto simp: differ_def)
  then show "finite (differ s t)"
    using has_finite [OF assms(1)] has_finite [OF assms(2)] by (auto intro: finite_subset)
  have "(origin, i) \<in> differ s t" "(origin, i) \<notin> differ s (put origin i p t)"
    using assms by (auto simp: differ_def put_has)
  moreover have "differ s (put origin i p t) \<subseteq> differ s t"
    using assms by (auto simp: differ_def put_has)
  ultimately show "differ s (put origin i p t) \<subset> differ s t" by blast
qed

lemma same_nxt:
  assumes "inv s" "inv t" "nxt s k = nxt t k"
  shows "\<not> has s k (nxt s k)" "\<not> has t k (nxt s k)"
    and "1 \<le> i \<Longrightarrow> i < nxt s k \<Longrightarrow> has s k i" "1 \<le> i \<Longrightarrow> i < nxt s k \<Longrightarrow> has t k i"
  using nxt_missing [OF assms(1), of k] nxt_missing [OF assms(2), of k] assms(3)
    nxt_least [OF assms(1), of i k] nxt_least [OF assms(2), of i k] by auto

end

definition log_inv :: "gossip_handler \<Rightarrow> bool" where
  "log_inv gh \<longleftrightarrow> gossip_inv gh \<and> (\<forall>origin. -1 |\<notin>| stored_ids gh origin)"

definition store_put :: "string \<Rightarrow> u32 \<Rightarrow> gossip_packet \<Rightarrow> gossip_handler \<Rightarrow> gossip_handler" where
  "store_put origin mid p gh = (case storeMessage p origin mid gh of Inl _ \<Rightarrow> gh | Inr (_, gh') \<Rightarrow> gh')"

lemma log_inv_room: "log_inv gh \<Longrightarrow> mid \<noteq> -1 \<Longrightarrow> has_room (finsert mid (stored_ids gh origin))"
  unfolding log_inv_def has_room_def by (intro exI [of _ "-1"]) auto

lemma storeMessage_log_ex:
  assumes "log_inv gh" "mid \<noteq> -1"
  shows "\<exists>gh'. storeMessage p origin mid gh = Inr (mid |\<in>| stored_ids gh origin, gh')
    \<and> store_put origin mid p gh = gh' \<and> log_inv gh'
    \<and> (\<forall>k. stored_ids gh' k = (if k = origin then finsert mid (stored_ids gh k) else stored_ids gh k))
    \<and> (\<forall>k i. stored_msg gh' k i = (if k = origin \<and> i = mid \<and> stored_msg gh k i = None then Some p
                                  else stored_msg gh k i))
    \<and> clock_le (myStatus gh) (myStatus gh') \<and> seqID gh' = seqID gh"
proof -
  have "gossip_inv gh" using assms(1) by (simp add: log_inv_def)
  from storeMessage_spec [OF this log_inv_room [OF assms], of p]
  obtain gh' where g: "storeMessage p origin mid gh = Inr (mid |\<in>| stored_ids gh origin, gh')" "gossip_inv gh'"
    "\<forall>k. stored_ids gh' k = (if k = origin then finsert mid (stored_ids gh k) else stored_ids gh k)"
    "\<forall>k i. stored_msg gh' k i = (if k = origin \<and> i = mid \<and> stored_msg gh k i = None then Some p
                                  else stored_msg gh k i)"
    "clock_le (myStatus gh) (myStatus gh')" "seqID gh' = seqID gh" by blast
  moreover have "log_inv gh'"
    using g(2,3) assms by (auto simp: log_inv_def split: if_splits)
  moreover have "store_put origin mid p gh = gh'"
    using g(1) by (simp add: store_put_def)
  ultimately show ?thesis by (intro exI [of _ gh']) blast
qed

lemma storeMessage_log:
  assumes "log_inv gh" "mid \<noteq> -1"
  shows "storeMessage p origin mid gh = Inr (mid |\<in>| stored_ids gh origin, store_put origin mid p gh)"
    and "log_inv (store_put origin mid p gh)"
    and "stored_ids (store_put origin mid p gh) k
      = (if k = origin then finsert mid (stored_ids gh k) else stored_ids gh k)"
    and "stored_msg (store_put origin mid p gh) k i
      = (if k = origin \<and> i = mid \<and> stored_msg gh k i = None then Some p else stored_msg gh k i)"
    and "clock_le (myStatus gh) (myStatus (store_put origin mid p gh))"
    and "seqID (store_put origin mid p gh) = seqID gh"
  using storeMessage_log_ex [OF assms, of p origin] by blast+

lemma log_inv_next:
  assumes "log_inv gh"
  shows "1 \<le> next_of (myStatus gh) origin" "next_of (myStatus gh) origin |\<notin>| stored_ids gh origin"
    and "1 \<le> i \<Longrightarrow> i < next_of (myStatus gh) origin \<Longrightarrow> i |\<in>| stored_ids gh origin"
  using assms by (auto simp: log_inv_def gossip_inv_def is_next_def)

lemma stored_finite: "finite {(k, i). i |\<in>| stored_ids gh k}"
proof (rule finite_subset)
  show "{(k, i). i |\<in>| stored_ids gh k} \<subseteq> fset (fmdom (messageStorage gh)) \<times> UNIV"
    by (auto simp: stored_ids_def fmlookup_dom_iff split: option.splits)
qed simp

interpretation glog: message_log log_inv "\<lambda>gh origin i. i |\<in>| stored_ids gh origin"
  "\<lambda>gh. next_of (myStatus gh)" store_put
  by unfold_locales (auto simp: storeMessage_log(2,3) stored_finite dest: log_inv_next split: if_splits)

section \<open>Properties of the gossip storage\<close>

text \<open>
  C16: storing a gossip message returns and reports whether it was known.  Exactly that message is
  added, an earlier message with the same number is kept, no clock entry goes back, and afterwards
  the clock of every origin is again the least positive number not stored.
\<close>

theorem storeMessage_correct:
  assumes "gossip_inv gh" and "has_room (finsert mid (stored_ids gh origin))"
  shows "\<exists>gh'. storeMessage p origin mid gh = Inr (stored_msg gh origin mid \<noteq> None, gh')
    \<and> gossip_inv gh'
    \<and> stored_msg gh' origin mid = Some (case stored_msg gh origin mid of None \<Rightarrow> p | Some q \<Rightarrow> q)
    \<and> (\<forall>k i. (k, i) \<noteq> (origin, mid) \<longrightarrow> stored_msg gh' k i = stored_msg gh k i)
    \<and> clock_le (myStatus gh) (myStatus gh') \<and> seqID gh' = seqID gh"
proof -
  obtain gh' where g: "storeMessage p origin mid gh = Inr (mid |\<in>| stored_ids gh origin, gh')" "gossip_inv gh'"
    "\<forall>k i. stored_msg gh' k i = (if k = origin \<and> i = mid \<and> stored_msg gh k i = None then Some p
                                  else stored_msg gh k i)"
    "clock_le (myStatus gh) (myStatus gh')" "seqID gh' = seqID gh"
    using storeMessage_spec [OF assms, of p] by blast
  moreover have "mid |\<in>| stored_ids gh origin \<longleftrightarrow> stored_msg gh origin mid \<noteq> None"
    by (simp add: stored_msg_iff)
  ultimately show ?thesis by (intro exI [of _ gh']) (auto split: option.split)
qed

theorem storeMessage_correct_witness:
  "gossip_inv NewGossipHandler \<and> has_room (finsert 1 (stored_ids NewGossipHandler ''A'')) \<and>
   (\<exists>gh'. storeMessage empty_packet ''A'' 1 NewGossipHandler = Inr (False, gh') \<and> gossip_inv gh')"
proof -
  have room: "has_room (finsert 1 (stored_ids NewGossipHandler ''A''))"
    by (auto simp: has_room_def NewGossipHandler_def stored_ids_def intro!: exI [of _ 2])
  from storeMessage_correct [OF NewGossipHandler_inv room, of empty_packet] room show ?thesis
    using NewGossipHandler_inv by (auto simp: stored_msg_def NewGossipHandler_def)
qed

text \<open>
  The packet \<open>handlePeerStatus\<close> decides to send is one the node has, so the type assertions
  in \<open>getPacketFromPeerStatus\<close> hold, provided the other peer asks for numbers from 1 on.
\<close>

theorem getPacket_no_panic:
  assumes "gossip_inv gh" and "is_order ord" and "\<forall>e \<in> set want. NextID e \<noteq> 0"
    and "getPeerStatusForPeer ord (myStatus gh) want = Some ps"
  shows "\<exists>p. getPacketFromPeerStatus (messageStorage gh) ps = Inr p
           \<and> stored_msg gh (Identifier ps) (NextID ps) = Some p"
proof -
  obtain n where n: "fmlookup (myStatus gh) (Identifier ps) = Some n"
    "case fmlookup (originIDMap want) (Identifier ps) of
       None \<Rightarrow> NextID ps = 1 | Some k \<Rightarrow> NextID ps = k \<and> k < n"
    using getPeerStatusForPeer_Some [OF assms(2,4)] by blast
  have "1 < n" using n(1) assms(1) by (simp add: gossip_inv_def)
  then have "1 \<le> NextID ps" "NextID ps < n"
    using n(2) assms(3) by (auto simp: one_le_word split: option.splits dest!: originIDMap_SomeD)
  then have "NextID ps |\<in>| stored_ids gh (Identifier ps)"
    using assms(1) n(1) unfolding gossip_inv_def is_next_def next_of_def by (metis option.simps(5))
  then show ?thesis
    by (auto simp: stored_ids_def stored_msg_def getPacketFromPeerStatus_def fmlookup_dom_iff
        split: option.splits)
qed

definition sample_store :: gossip_handler where
  "sample_store = NewGossipHandler\<lparr>messageStorage := fmupd ''A'' (fmupd 1 empty_packet fmempty) fmempty,
     myStatus := fmupd ''A'' 2 fmempty\<rparr>"

lemma sample_store_inv: "gossip_inv sample_store"
proof -
  have "(1::u32) < 2" by simp
  moreover have "i = 1" if "(1::u32) \<le> i" "i < 2" for i using that by unat_arith
  ultimately show ?thesis
    by (auto simp: gossip_inv_def sample_store_def NewGossipHandler_def stored_ids_def next_of_def is_next_def)
qed

theorem getPacket_no_panic_witness:
  "\<exists>p. getPacketFromPeerStatus (messageStorage sample_store) \<lparr>Identifier = ''A'', NextID = 1\<rparr> = Inr p"
proof -
  have "getPeerStatusForPeer sorted_list_of_fset (myStatus sample_store) [] = Some \<lparr>Identifier = ''A'', NextID = 1\<rparr>"
    by (simp add: getPeerStatusForPeer_def sample_store_def NewGossipHandler_def originIDMap_def
        key_order.ord_singleton)
  from getPacket_no_panic [OF sample_store_inv sorted_is_order _ this] show ?thesis by simp blast
qed

end
