(* ===== verification/Peers.thy ===== *)
theory Peers
  imports Helpers
begin

text \<open>
  \<open>gossiper/peers.go\<close>: the known neighbours and the size of the network.  Name resolution is the
  system's: \<open>resolve\<close> is what \<open>net.ResolveUDPAddr\<close> answers (\<open>None\<close> is its error).
\<close>

record peers_data =
  Peers :: "udp_addr list"
  Size :: u64

definition createPeersData :: "(string \<Rightarrow> udp_addr option) \<Rightarrow> string \<Rightarrow> u64 \<Rightarrow> peers_data" where
  "createPeersData resolve peers n =
     (let peersList = (if peers \<noteq> '''' then str_split CHR '','' peers else []);
          peersAddresses = List.map_filter resolve peersList
      in \<lparr>Peers = peersAddresses, Size = n\<rparr>)"

definition AddPeer :: "udp_addr \<Rightarrow> peers_data \<Rightarrow> peers_data" where
  "AddPeer peer pd =
     (if list_ex (\<lambda>p. addr_string p = addr_string peer) (Peers pd) then pd
      else pd\<lparr>Peers := Peers pd @ [peer]\<rparr>)"

definition GetPeers :: "peers_data \<Rightarrow> udp_addr list" where
  "GetPeers pd = Peers pd"

text \<open>\<open>getRandomPeer\<close>: \<open>rnd\<close> is the random number, reduced to the range \<open>rand.Intn\<close> promises.\<close>

definition getRandomPeer :: "nat \<Rightarrow> udp_addr list \<Rightarrow> udp_addr res" where
  "getRandomPeer rnd availablePeers =
     (if availablePeers = [] then Inl IntnOfZero
      else Inr (availablePeers ! (rnd mod length availablePeers)))"

lemma AddPeer_iff [go_simps]:
  "AddPeer p pd = (if p \<in> set (Peers pd) then pd else pd\<lparr>Peers := Peers pd @ [p]\<rparr>)"
  by (auto simp: AddPeer_def list_ex_iff)

lemma AddPeer_set [simp]: "set (Peers (AddPeer p pd)) = insert p (set (Peers pd))"
  by (auto simp: AddPeer_iff)

lemma AddPeer_distinct: "distinct (Peers pd) \<Longrightarrow> distinct (Peers (AddPeer p pd))"
  by (simp add: AddPeer_iff)

lemma AddPeer_Size [simp]: "Size (AddPeer p pd) = Size pd"
  by (simp add: AddPeer_iff)

lemma AddPeer_idem [simp]: "AddPeer p (AddPeer p pd) = AddPeer p pd"
  by (simp add: AddPeer_iff)

lemma getRandomPeer_mem: "getRandomPeer r ps = Inr p \<Longrightarrow> p \<in> set ps"
  by (auto simp: getRandomPeer_def split: if_splits)

lemma getRandomPeer_ok: "ps \<noteq> [] \<Longrightarrow> \<exists>p. getRandomPeer r ps = Inr p \<and> p \<in> set ps"
  by (simp add: getRandomPeer_def)

text \<open>Every peer of the list is the choice of some random number.\<close>

lemma getRandomPeer_onto:
  assumes "p \<in> set ps"
  shows "\<exists>r. getRandomPeer r ps = Inr p"
proof -
  obtain i where "i < length ps" and "p = ps ! i"
    using assms by (auto simp: in_set_conv_nth)
  then have "getRandomPeer i ps = Inr p" by (auto simp: getRandomPeer_def)
  then show ?thesis ..
qed

text \<open>
  Whatever packets arrive, the peers known at start stay in front in their order, each sender
  is known afterwards, and no address is recorded twice.
\<close>

theorem AddPeer_fold:
  assumes "distinct (Peers pd)"
  shows "let pd' = fold AddPeer senders pd
         in distinct (Peers pd') \<and> set (Peers pd') = set (Peers pd) \<union> set senders
            \<and> take (length (Peers pd)) (Peers pd') = Peers pd \<and> Size pd' = Size pd"
  using assms
proof (induction senders arbitrary: pd)
  case (Cons s senders)
  let ?pd = "AddPeer s pd"
  have "distinct (Peers ?pd)" using Cons.prems by (rule AddPeer_distinct)
  note IH = Cons.IH [OF this, unfolded Let_def]
  have "take (length (Peers pd)) (Peers (fold AddPeer senders ?pd))
      = take (length (Peers pd)) (take (length (Peers ?pd)) (Peers (fold AddPeer senders ?pd)))"
    by (simp add: AddPeer_iff)
  also have "\<dots> = Peers pd" using IH by (simp add: AddPeer_iff)
  finally show ?case using IH by (auto simp: Let_def)
qed simp

definition sample_addr :: "nat \<Rightarrow> udp_addr" where
  "sample_addr n = \<lparr>IP0 = 127, IP1 = 0, IP2 = 0, IP3 = 1, Port = of_nat n\<rparr>"

theorem AddPeer_fold_witness:
  "distinct [sample_addr 1] \<and>
   Peers (fold AddPeer [sample_addr 2, sample_addr 1] \<lparr>Peers = [sample_addr 1], Size = 3\<rparr>)
     = [sample_addr 1, sample_addr 2]"
  using AddPeer_fold [of "\<lparr>Peers = [sample_addr 1], Size = 3\<rparr>" "[sample_addr 2, sample_addr 1]"]
  by (simp add: AddPeer_iff sample_addr_def)

end
