(* ===== verification/Routing.thy ===== *)
theory Routing
  imports Peers Status
begin

text \<open>
  \<open>gossiper/routinghandler.go\<close>: the table of next hops, updated only by packets with a higher
  sequence number than any seen before from the origin, and the forwarding of point to point
  packets with a hop limit.
\<close>

record routing_handler =
  routingTable :: "(string, udp_addr) fmap"
  originLastID :: vector_clock

definition NewRoutingHandler :: routing_handler where
  "NewRoutingHandler = \<lparr>routingTable = fmempty, originLastID = fmempty\<rparr>"

definition updateLastOriginID :: "string \<Rightarrow> u32 \<Rightarrow> routing_handler \<Rightarrow> bool \<times> routing_handler" where
  "updateLastOriginID origin mid rh =
     (case fmlookup (originLastID rh) origin of
        None \<Rightarrow> (True, rh\<lparr>originLastID := fmupd origin mid (originLastID rh)\<rparr>)
      | Some originMaxID \<Rightarrow>
          if originMaxID < mid then (True, rh\<lparr>originLastID := fmupd origin mid (originLastID rh)\<rparr>)
          else (False, rh))"

text \<open>The second component is what is printed.\<close>

definition updateRoutingTable ::
  "app_config \<Rightarrow> string \<Rightarrow> string \<Rightarrow> u32 \<Rightarrow> udp_addr \<Rightarrow> routing_handler \<Rightarrow> routing_handler \<times> string list" where
  "updateRoutingTable c origin textPacket idPacket address rh =
     (let (isNew, rh') = updateLastOriginID origin idPacket rh
      in if isNew then
           (rh'\<lparr>routingTable := fmupd origin address (routingTable rh')\<rparr>,
            if textPacket \<noteq> '''' \<and> hw2 c then [''DSDV '' @ origin @ '' '' @ addr_string address] else [])
         else (rh', []))"

definition GetOrigins :: "(string fset \<Rightarrow> string list) \<Rightarrow> routing_handler \<Rightarrow> string list" where
  "GetOrigins ord rh = ord (fmdom (originLastID rh))"

text \<open>
  \<open>forwardPrivateMessage\<close> gets a pointer to the hop limit inside the packet.  A pointer is the
  name of the field.
\<close>

datatype hop_field = HopPrivate | HopDataRequest | HopDataReply | HopSearchReply | HopAck

fun get_hop :: "hop_field \<Rightarrow> gossip_packet \<Rightarrow> u32 option" where
  "get_hop HopPrivate p = map_option priv_HopLimit (Private p)"
| "get_hop HopDataRequest p = map_option dreq_HopLimit (DataRequest p)"
| "get_hop HopDataReply p = map_option drep_HopLimit (DataReply p)"
| "get_hop HopSearchReply p = map_option srep_HopLimit (SearchReply p)"
| "get_hop HopAck p = map_option priv_HopLimit (Ack p)"

fun put_hop :: "hop_field \<Rightarrow> u32 \<Rightarrow> gossip_packet \<Rightarrow> gossip_packet" where
  "put_hop HopPrivate h p = p\<lparr>Private := map_option (priv_HopLimit_update (\<lambda>_. h)) (Private p)\<rparr>"
| "put_hop HopDataRequest h p = p\<lparr>DataRequest := map_option (dreq_HopLimit_update (\<lambda>_. h)) (DataRequest p)\<rparr>"
| "put_hop HopDataReply h p = p\<lparr>DataReply := map_option (drep_HopLimit_update (\<lambda>_. h)) (DataReply p)\<rparr>"
| "put_hop HopSearchReply h p = p\<lparr>SearchReply := map_option (srep_HopLimit_update (\<lambda>_. h)) (SearchReply p)\<rparr>"
| "put_hop HopAck h p = p\<lparr>Ack := map_option (priv_HopLimit_update (\<lambda>_. h)) (Ack p)\<rparr>"

text \<open>The packet afterwards and the packets sent, with their addresses.\<close>

definition forwardPrivateMessage ::
  "routing_handler \<Rightarrow> hop_field \<Rightarrow> string \<Rightarrow> gossip_packet \<Rightarrow> (gossip_packet \<times> (gossip_packet \<times> udp_addr) list) res" where
  "forwardPrivateMessage rh hop destination packet =
     res_bind (of_option NilAssertion (get_hop hop packet)) (\<lambda>h.
       if 0 < h then
         (let packet' = put_hop hop (h - 1) packet
          in case fmlookup (routingTable rh) destination of
               None \<Rightarrow> Inr (packet', [])
             | Some addressInTable \<Rightarrow> Inr (packet', [(packet', addressInTable)]))
       else Inr (packet, []))"

lemma get_put_hop [simp]: "get_hop f p \<noteq> None \<Longrightarrow> get_hop f (put_hop f h p) = Some h"
  by (cases f) auto

lemma hop_put: "get_hop f p = Some h \<Longrightarrow> get_hop f (put_hop f k p) = Some k"
  by simp

lemma put_put_hop [simp]: "put_hop f h (put_hop f k p) = put_hop f h p"
  by (cases f) (simp_all add: option.map_comp comp_def)

section \<open>The routing table\<close>

definition routing_inv :: "routing_handler \<Rightarrow> bool" where
  "routing_inv rh \<longleftrightarrow> fmdom (routingTable rh) = fmdom (originLastID rh)"

lemma NewRoutingHandler_inv [simp]: "routing_inv NewRoutingHandler"
  by (simp add: routing_inv_def NewRoutingHandler_def)

definition learn :: "string \<times> u32 \<times> udp_addr \<Rightarrow> routing_handler \<Rightarrow> routing_handler" where
  "learn = (\<lambda>(origin, mid, address) rh. fst (updateRoutingTable initial_config origin '''' mid address rh))"

lemma updateRoutingTable_fst:
  "fst (updateRoutingTable c origin text mid address rh) = learn (origin, mid, address) rh"
  by (simp add: learn_def updateRoutingTable_def Let_def split: prod.split)

lemma learn_lookup:
  "fmlookup (originLastID (learn (origin, mid, a) rh)) k =
     (if k = origin then Some (case fmlookup (originLastID rh) k of None \<Rightarrow> mid | Some n \<Rightarrow> max n mid)
      else fmlookup (originLastID rh) k)"
  "fmlookup (routingTable (learn (origin, mid, a) rh)) k =
     (if k = origin \<and> (case fmlookup (originLastID rh) k of None \<Rightarrow> True | Some n \<Rightarrow> n < mid) then Some a
      else fmlookup (routingTable rh) k)"
  by (auto simp: learn_def updateRoutingTable_def updateLastOriginID_def Let_def max_def split: option.split)

lemma learn_inv: "routing_inv rh \<Longrightarrow> routing_inv (learn u rh)"
  by (cases u) (auto simp: routing_inv_def learn_def updateRoutingTable_def updateLastOriginID_def
      Let_def split: option.split dest: fmdomI)

text \<open>
  The specification of the table after a history of received packets: for every origin, the
  greatest sequence number received and the sender of the first packet that carried it.
\<close>

fun best_route :: "string \<Rightarrow> (string \<times> u32 \<times> udp_addr) list \<Rightarrow> (u32 \<times> udp_addr) option" where
  "best_route origin [] = None"
| "best_route origin ((k, mid, a) # us) =
     (if k \<noteq> origin then best_route origin us
      else case best_route origin us of
             None \<Rightarrow> Some (mid, a)
           | Some (n, b) \<Rightarrow> if mid < n then Some (n, b) else Some (mid, a))"

definition route_entry :: "routing_handler \<Rightarrow> string \<Rightarrow> (u32 \<times> udp_addr) option" where
  "route_entry rh origin =
     Option.bind (fmlookup (originLastID rh) origin) (\<lambda>n. map_option (Pair n) (fmlookup (routingTable rh) origin))"

definition better :: "(u32 \<times> udp_addr) option \<Rightarrow> (u32 \<times> udp_addr) option \<Rightarrow> (u32 \<times> udp_addr) option" where
  "better x y = (case (x, y) of
     (None, _) \<Rightarrow> y | (_, None) \<Rightarrow> x | (Some (m, a), Some (n, b)) \<Rightarrow> if m < n then y else x)"

lemma better_assoc: "better (better x y) z = better x (better y z)"
  by (auto simp: better_def split: option.splits)

lemma better_None [simp]: "better None x = x" "better x None = x"
  by (simp_all add: better_def split: option.split)

lemma best_route_Cons:
  "best_route origin ((k, mid, a) # us) =
     (if k = origin then better (Some (mid, a)) (best_route origin us) else best_route origin us)"
  by (auto simp: better_def split: option.splits)

lemma routing_inv_Some:
  "routing_inv rh \<Longrightarrow> fmlookup (originLastID rh) k = Some n \<Longrightarrow> \<exists>a. fmlookup (routingTable rh) k = Some a"
  by (metis routing_inv_def fmlookup_dom_iff)

lemma route_entry_learn:
  assumes "routing_inv rh"
  shows "route_entry (learn (k, mid, a) rh) origin =
    (if k = origin then better (route_entry rh origin) (Some (mid, a)) else route_entry rh origin)"
  using routing_inv_Some [OF assms, of origin]
  by (cases "fmlookup (originLastID rh) origin")
    (auto simp: route_entry_def learn_lookup better_def max_def split: option.splits)

lemma route_entry_fold:
  "routing_inv rh \<Longrightarrow> route_entry (fold learn us rh) origin = better (route_entry rh origin) (best_route origin us)"
proof (induction us arbitrary: rh)
  case (Cons u us)
  obtain k mid a where u: "u = (k, mid, a)" by (cases u)
  have "route_entry (fold learn us (learn u rh)) origin
      = better (route_entry (learn u rh) origin) (best_route origin us)"
    using Cons by (simp add: learn_inv)
  with Cons.prems show ?case
    by (simp add: u route_entry_learn best_route_Cons better_assoc del: best_route.simps)
qed simp

lemma route_entry_table:
  "routing_inv rh \<Longrightarrow> fmlookup (routingTable rh) origin = map_option snd (route_entry rh origin)
     \<and> fmlookup (originLastID rh) origin = map_option fst (route_entry rh origin)"
  using routing_inv_Some [of rh origin]
  by (cases "fmlookup (originLastID rh) origin"; cases "fmlookup (routingTable rh) origin")
    (auto simp: route_entry_def routing_inv_def fmlookup_dom_iff dest!: fmdomI)

lemma fold_learn_inv: "routing_inv rh \<Longrightarrow> routing_inv (fold learn us rh)"
  by (induction us arbitrary: rh) (auto simp: learn_inv)

text \<open>
  C22: after any history of packets, the next hop for an origin is the sender of the first packet
  that carried the greatest sequence number received from it, and that number is the one recorded.
\<close>

theorem routing_table_refines:
  "let rh = fold (\<lambda>(origin, text, mid, address) rh. fst (updateRoutingTable c origin text mid address rh))
              us NewRoutingHandler;
       history = map (\<lambda>(origin, text, mid, address). (origin, mid, address)) us
   in fmlookup (routingTable rh) dest = map_option snd (best_route dest history)
      \<and> fmlookup (originLastID rh) dest = map_option fst (best_route dest history)"
proof -
  let ?h = "map (\<lambda>(origin, text, mid, address). (origin, mid, address)) us"
  have eq: "fold (\<lambda>(origin, text, mid, address) rh. fst (updateRoutingTable c origin text mid address rh)) us rh
      = fold learn ?h rh" for rh
    by (induction us arbitrary: rh) (auto simp: updateRoutingTable_fst)
  have "route_entry NewRoutingHandler dest = None"
    by (simp add: route_entry_def NewRoutingHandler_def)
  then have "route_entry (fold learn ?h NewRoutingHandler) dest = best_route dest ?h"
    by (simp add: route_entry_fold)
  moreover have "routing_inv (fold learn ?h NewRoutingHandler)"
    by (simp add: fold_learn_inv)
  ultimately show ?thesis
    using route_entry_table by (simp add: eq Let_def)
qed

section \<open>Forwarding along a path\<close>

lemma forward_sent:
  assumes "forwardPrivateMessage rh f dest p = Inr (p', sent)" and "(q, a) \<in> set sent"
  shows "\<exists>h. get_hop f p = Some h \<and> 0 < h \<and> get_hop f q = Some (h - 1) \<and> q = put_hop f (h - 1) p
     \<and> fmlookup (routingTable rh) dest = Some a \<and> sent = [(q, a)]"
  using assms get_put_hop [of f p]
  by (auto simp: forwardPrivateMessage_def go_simps Let_def split: if_splits option.splits)

text \<open>
  A packet on its way through the network: at each node it is consumed if the node is its
  destination and forwarded by the node's table otherwise.  The list is what is transmitted.
\<close>

function relay ::
  "(udp_addr \<Rightarrow> string) \<Rightarrow> (udp_addr \<Rightarrow> routing_handler) \<Rightarrow> hop_field \<Rightarrow> string \<Rightarrow> udp_addr
     \<Rightarrow> gossip_packet \<Rightarrow> (gossip_packet \<times> udp_addr) list" where
  "relay names tables f dest here p =
     (if names here = dest then []
      else case forwardPrivateMessage (tables here) f dest p of
             Inr (p', [(q, there)]) \<Rightarrow> (q, there) # relay names tables f dest there q
           | _ \<Rightarrow> [])"
  by pat_completeness auto
termination
  by (relation "measure (\<lambda>(names, tables, f, dest, here, p). case get_hop f p of None \<Rightarrow> 0 | Some h \<Rightarrow> unat h)")
    (auto dest!: forward_sent simp: unat_pred_less)

declare relay.simps [simp del]

text \<open>
  Whatever the routing tables of the nodes say, loops included, a point to point packet is
  transmitted at most as often as its hop limit allows, and each copy carries a smaller limit.
\<close>

theorem relay_bounded:
  assumes "get_hop f p = Some h"
  shows "length (relay names tables f dest here p) \<le> unat h
    \<and> map (\<lambda>(q, a). get_hop f q) (relay names tables f dest here p)
        = map (\<lambda>i. Some (h - of_nat (Suc i))) [0..<length (relay names tables f dest here p)]"
  using assms
proof (induction names tables f dest here p arbitrary: h rule: relay.induct)
  case (1 names tables f dest here p)
  show ?case
  proof (cases "\<exists>p' q there. names here \<noteq> dest \<and> forwardPrivateMessage (tables here) f dest p = Inr (p', [(q, there)])")
    case True
    then obtain p' q there where fw: "names here \<noteq> dest"
      "forwardPrivateMessage (tables here) f dest p = Inr (p', [(q, there)])" by blast
    then have h: "0 < h" "get_hop f q = Some (h - 1)"
      using forward_sent [OF fw(2)] 1(2) by auto
    let ?r = "relay names tables f dest there q"
    have r: "relay names tables f dest here p = (q, there) # ?r"
      using fw by (subst relay.simps) simp
    have IH: "length ?r \<le> unat (h - 1)"
      "map (\<lambda>(q, a). get_hop f q) ?r = map (\<lambda>i. Some (h - 1 - of_nat (Suc i))) [0..<length ?r]"
      using 1(1) [OF fw refl refl refl refl h(2)] by auto
    have "unat (h - 1) = unat h - 1" and "0 < unat h"
      using h(1) by (simp_all add: unat_pred unat_pos)
    moreover have "map (\<lambda>i. Some (h - of_nat (Suc i))) [0..<Suc (length ?r)]
        = Some (h - 1) # map (\<lambda>i. Some (h - 1 - of_nat (Suc i))) [0..<length ?r]"
      by (simp add: upt_conv_Cons map_Suc_upt [symmetric] comp_def algebra_simps del: upt_Suc)
    ultimately show ?thesis
      using IH h(2) unfolding r by simp
  next
    case False
    then have "relay names tables f dest here p = []"
      by (subst relay.simps) (auto split: sum.split list.split)
    then show ?thesis by simp
  qed
qed

theorem relay_bounded_witness:
  "let p = empty_packet\<lparr>Ack := Some \<lparr>priv_Origin = ''A'', priv_ID = 1, priv_Text = [],
             priv_Destination = ''D'', priv_HopLimit = 3\<rparr>\<rparr>;
       loop = NewRoutingHandler\<lparr>routingTable := fmupd ''D'' (sample_addr 1) fmempty\<rparr>
   in get_hop HopAck p = Some 3
      \<and> length (relay (\<lambda>_. ''B'') (\<lambda>_. loop) HopAck ''D'' (sample_addr 1) p) \<le> 3"
  using relay_bounded [of HopAck "empty_packet\<lparr>Ack := Some \<lparr>priv_Origin = ''A'', priv_ID = 1, priv_Text = [],
             priv_Destination = ''D'', priv_HopLimit = 3\<rparr>\<rparr>" 3 "\<lambda>_. ''B''"
      "\<lambda>_. NewRoutingHandler\<lparr>routingTable := fmupd ''D'' (sample_addr 1) fmempty\<rparr>" "''D''" "sample_addr 1"]
  by (simp add: Let_def)

text \<open>The next hops for a destination, from one node to the next.\<close>

fun hop_path :: "(udp_addr \<Rightarrow> routing_handler) \<Rightarrow> string \<Rightarrow> udp_addr \<Rightarrow> udp_addr list \<Rightarrow> bool" where
  "hop_path tables dest here [] \<longleftrightarrow> True"
| "hop_path tables dest here (a # as) \<longleftrightarrow> fmlookup (routingTable (tables here)) dest = Some a \<and> hop_path tables dest a as"

lemma relay_arrived: "names here = dest \<Longrightarrow> relay names tables f dest here p = []"
  by (subst relay.simps) simp

lemma relay_expired: "get_hop f p = Some 0 \<Longrightarrow> relay names tables f dest here p = []"
  by (subst relay.simps) (simp add: forwardPrivateMessage_def)

lemma relay_hop:
  assumes "get_hop f p = Some h" and "0 < h" and "names here \<noteq> dest" and "fmlookup (routingTable (tables here)) dest = Some a"
  shows "relay names tables f dest here p
     = (put_hop f (h - 1) p, a) # relay names tables f dest a (put_hop f (h - 1) p)"
  using assms by (subst relay.simps) (simp add: forwardPrivateMessage_def Let_def)

lemma relay_path:
  assumes "get_hop f p = Some h" and "hop_path tables dest here hops"
    and "names (last (here # hops)) = dest" and "\<forall>x \<in> set (butlast (here # hops)). names x \<noteq> dest"
  shows "relay names tables f dest here p
     = map (\<lambda>i. (put_hop f (h - of_nat (Suc i)) p, hops ! i)) [0..<min (unat h) (length hops)]"
  using assms
proof (induction hops arbitrary: here p h)
  case Nil
  then show ?case by (simp add: relay_arrived)
next
  case (Cons a hops)
  show ?case
  proof (cases "h = 0")
    case True
    then show ?thesis using Cons.prems(1) by (simp add: relay_expired)
  next
    case False
    then have h: "0 < h" "unat h = Suc (unat (h - 1))"
      using unat_pred [of h] unat_pos [of h] by (auto simp: word_neq_0_conv)
    let ?q = "put_hop f (h - 1) p"
    have "names here \<noteq> dest" and "fmlookup (routingTable (tables here)) dest = Some a"
      using Cons.prems(2,4) by simp_all
    then have r: "relay names tables f dest here p = (?q, a) # relay names tables f dest a ?q"
      using relay_hop [OF Cons.prems(1) h(1), of names here dest tables a] by blast
    have q: "get_hop f ?q = Some (h - 1)" using Cons.prems(1) by simp
    have "relay names tables f dest a ?q
        = map (\<lambda>i. (put_hop f (h - 1 - of_nat (Suc i)) ?q, hops ! i)) [0..<min (unat (h - 1)) (length hops)]"
      using Cons.prems by (intro Cons.IH [OF q]) (auto split: if_splits)
    then show ?thesis
      unfolding r h(2) by (simp add: put_put_hop upt_conv_Cons map_Suc_upt [symmetric] comp_def algebra_simps del: upt_Suc)
  qed
qed

text \<open>
  C23: a point to point packet follows the next hops to its destination: it is transmitted to every
  node of the path in turn, with the limit lowered by one each time, and arrives, otherwise as it
  was sent, if and only if the path is not longer than the hop limit.
\<close>

theorem relay_delivers:
  assumes "get_hop f p = Some h" and "hop_path tables dest here hops" and "hops \<noteq> []"
    and "names (last hops) = dest" and "\<forall>x \<in> set (here # butlast hops). names x \<noteq> dest"
    and "sent = relay names tables f dest here p"
  shows "map snd sent = take (unat h) hops
    \<and> map fst sent = map (\<lambda>i. put_hop f (h - of_nat (Suc i)) p) [0..<length sent]
    \<and> ((\<exists>(q, a) \<in> set sent. names a = dest) \<longleftrightarrow> length hops \<le> unat h)"
proof -
  have sent: "sent = map (\<lambda>i. (put_hop f (h - of_nat (Suc i)) p, hops ! i)) [0..<min (unat h) (length hops)]"
    using assms by (subst assms(6), intro relay_path) (auto split: if_splits)
  have hops: "map snd sent = take (unat h) hops"
    unfolding sent by (rule nth_equalityI) auto
  have "(\<exists>a \<in> set (take (unat h) hops). names a = dest) \<longleftrightarrow> length hops \<le> unat h"
  proof
    assume "\<exists>a \<in> set (take (unat h) hops). names a = dest"
    moreover have "set (take (unat h) hops) \<subseteq> set (butlast hops)" if "unat h < length hops"
      unfolding butlast_conv_take using that by (intro set_take_subset_set_take) simp
    ultimately show "length hops \<le> unat h" using assms(5) by (meson list.set_intros(2) not_le subsetD)
  next
    assume "length hops \<le> unat h"
    then show "\<exists>a \<in> set (take (unat h) hops). names a = dest" using assms(3,4) last_in_set by force
  qed
  then have "(\<exists>a \<in> snd ` set sent. names a = dest) \<longleftrightarrow> length hops \<le> unat h"
    by (simp only: hops flip: set_map)
  then have "(\<exists>(q, a) \<in> set sent. names a = dest) \<longleftrightarrow> length hops \<le> unat h" by force
  moreover have "map fst sent = map (\<lambda>i. put_hop f (h - of_nat (Suc i)) p) [0..<length sent]"
    unfolding sent by (simp add: comp_def)
  ultimately show ?thesis using hops by blast
qed

theorem relay_delivers_witness:
  "let p = empty_packet\<lparr>Ack := Some \<lparr>priv_Origin = ''A'', priv_ID = 1, priv_Text = [], priv_Destination = ''D'', priv_HopLimit = 3\<rparr>\<rparr>;
       tables = (\<lambda>a. NewRoutingHandler\<lparr>routingTable := fmupd ''D'' (if a = sample_addr 1 then sample_addr 2 else sample_addr 3) fmempty\<rparr>);
       names = (\<lambda>a. if a = sample_addr 3 then ''D'' else ''B'')
   in map snd (relay names tables HopAck ''D'' (sample_addr 1) p) = [sample_addr 2, sample_addr 3]"
proof -
  let ?p = "empty_packet\<lparr>Ack := Some \<lparr>priv_Origin = ''A'', priv_ID = 1, priv_Text = [], priv_Destination = ''D'', priv_HopLimit = 3\<rparr>\<rparr>"
  let ?tables = "\<lambda>a. NewRoutingHandler\<lparr>routingTable := fmupd ''D'' (if a = sample_addr 1 then sample_addr 2 else sample_addr 3) fmempty\<rparr>"
  let ?names = "\<lambda>a. if a = sample_addr 3 then ''D'' else ''B''"
  have d: "sample_addr 1 \<noteq> sample_addr 2" "sample_addr 1 \<noteq> sample_addr 3" "sample_addr 2 \<noteq> sample_addr 3"
    by (simp_all add: sample_addr_def)
  have "get_hop HopAck ?p = Some 3" by simp
  moreover have "hop_path ?tables ''D'' (sample_addr 1) [sample_addr 2, sample_addr 3]" using d by simp
  ultimately show ?thesis
    using relay_delivers [of HopAck ?p 3 ?tables "''D''" "sample_addr 1" "[sample_addr 2, sample_addr 3]" ?names, OF _ _ _ _ _ refl] d
    by (simp add: Let_def)
qed

end
