(* ===== verification/Effects.thy ===== *)
theory Effects
  imports Routing
begin

text \<open>
  What a handler does besides changing the state of the gossiper, in the order it does it: the
  packets it sends, the goroutines it starts, the values goroutines put on channels for it, the
  lines it prints (those not behind the \<open>debug\<close> flag) and the files it writes.
\<close>

datatype task =
    StartRumorMongering ext_packet string u32
  | ForwardPrivate gossip_packet hop_field string
  | HandleGossipMessage ext_packet string u32
  | BroadcastToPeers ext_packet "udp_addr list"
  | HandleSearchResult string search_result
  | FetchMetafile string string "u64 list"
  | DownloadFileChunks string string bytes
  | SearchFilesWithTimeout ext_packet bool
  | ForwardSearchRequest ext_packet
  | CreateAndPublishTxBlock file_metadata
  | HandlePeerStatus string
  | NotifyListeners ext_packet

datatype chan_send =
    ToPacketChannel string ext_packet
  | ToClientChannel client_message
  | ToStatusChannel string ext_packet
  | ToLatestRumors rumor_message
  | ToFilesIndexed file_gui
  | ToFilesDownloaded file_gui
  | ToFilesSearched file_gui
  | ToBlockchainLogs string
  | ToTlcAck tlc_ack
  | ToTlcConfirm
  | ToHashChannel string data_reply

datatype effect =
    SendPacket gossip_packet udp_addr
  | Go task
  | GoSend chan_send
  | Println string
  | SaveFile string bytes
  | CopyFile string string

text \<open>\<open>helpers.ErrorCheck\<close>: an error is printed, or ends the process where the caller asks for it.\<close>

definition log_error :: "string option \<Rightarrow> effect list" where
  "log_error err = (case err of None \<Rightarrow> [] | Some e \<Rightarrow> [Println e])"

definition ErrorCheck :: "string option \<Rightarrow> bool \<Rightarrow> effect list res" where
  "ErrorCheck err doPanic = (if err \<noteq> None \<and> doPanic then Inl ErrorRaised else Inr (log_error err))"

lemma ErrorCheck_True_eq_Inr [go_simps]: "ErrorCheck err True = Inr out \<longleftrightarrow> err = None \<and> out = []"
  by (cases err) (auto simp: ErrorCheck_def log_error_def)

text \<open>A value that comes with an error, where the caller asks for a panic.\<close>

definition or_panic :: "string + 'a \<Rightarrow> 'a res" where
  "or_panic r = (case r of Inl e \<Rightarrow> Inl ErrorRaised | Inr x \<Rightarrow> Inr x)"

lemma or_panic_simps [simp]: "or_panic (Inl e) = Inl ErrorRaised" "or_panic (Inr x) = Inr x"
  by (simp_all add: or_panic_def)

lemma or_panic_eq_Inr [go_simps]: "or_panic r = Inr x \<longleftrightarrow> r = Inr x"
  by (cases r) simp_all

lemma log_error_simps [simp]: "log_error None = []" "log_error (Some e) = [Println e]"
  by (simp_all add: log_error_def)

lemma ErrorCheck_simps [simp]:
  "ErrorCheck None doPanic = Inr []" "ErrorCheck err False = Inr (log_error err)"
  "ErrorCheck (Some e) True = Inl ErrorRaised"
  by (simp_all add: ErrorCheck_def)

text \<open>The packets among the effects, with their addresses.\<close>

fun packets_of :: "effect list \<Rightarrow> (gossip_packet \<times> udp_addr) list" where
  "packets_of [] = []"
| "packets_of (SendPacket p a # es) = (p, a) # packets_of es"
| "packets_of (_ # es) = packets_of es"

lemma packets_of_append [simp]: "packets_of (xs @ ys) = packets_of xs @ packets_of ys"
  by (induction xs rule: packets_of.induct) auto

lemma packets_of_sends [simp]: "packets_of (map (\<lambda>(p, a). SendPacket p a) ps) = ps"
  by (induction ps) auto

lemma packets_of_prints [simp]: "packets_of (map Println ls) = []"
  by (induction ls) auto

lemma packets_of_mem: "(p, a) \<in> set (packets_of es) \<longleftrightarrow> SendPacket p a \<in> set es"
  by (induction es rule: packets_of.induct) auto

definition sends :: "(gossip_packet \<times> udp_addr) list \<Rightarrow> effect list" where
  "sends ps = map (\<lambda>(p, a). SendPacket p a) ps"

lemma packets_of_sends' [simp]: "packets_of (sends ps) = ps"
  by (simp add: sends_def)

text \<open>The files written, with their names.\<close>

fun saves :: "effect list \<Rightarrow> (string \<times> bytes) list" where
  "saves [] = []"
| "saves (SaveFile f d # es) = (f, d) # saves es"
| "saves (_ # es) = saves es"

lemma saves_append [simp]: "saves (xs @ ys) = saves xs @ saves ys"
  by (induction xs rule: saves.induct) auto

lemma saves_sends [simp]: "saves (sends ps) = []"
  by (simp add: sends_def, induction ps) auto

end
