(* ===== verification/Utils.thy ===== *)
theory Utils
  imports Effects Sha256
begin

text \<open>
  The rest of \<open>gossiper/utils.go\<close>: keys, hash checks, keyword matching, the message of highest
  fitness and the hashes of transactions and blocks.  \<open>H\<close> is SHA-256; \<open>rx\<close> is
  \<open>regexp.MatchString\<close>, pattern first, an invalid pattern counting as no match.
\<close>

definition getKeyFromString :: "(bytes \<Rightarrow> bytes) \<Rightarrow> string \<Rightarrow> string" where
  "getKeyFromString H text = hex_encode (H (bytes_of text))"

text \<open>The hash is copied into an array of 32 bytes: cut off or padded with zeros.\<close>

definition to_array32 :: "bytes \<Rightarrow> bytes" where
  "to_array32 bs = take 32 bs @ replicate (32 - length bs) 0"

definition checkHash :: "(bytes \<Rightarrow> bytes) \<Rightarrow> bytes \<Rightarrow> bytes \<Rightarrow> bool" where
  "checkHash H hash data = (to_array32 hash = H data)"

definition containsKeyword :: "(string \<Rightarrow> string \<Rightarrow> bool) \<Rightarrow> string \<Rightarrow> string list \<Rightarrow> bool" where
  "containsKeyword rx fileName keywords =
     list_ex (\<lambda>keyword. rx keyword fileName \<or> str_contains fileName keyword) keywords"

definition getIDForConfirmations :: "(string, tlc_message) fmap \<Rightarrow> (string, u32) fmap" where
  "getIDForConfirmations confirmations = fmmap tlc_ID confirmations"

definition zero_hash :: bytes where
  "zero_hash = replicate 32 0"

definition empty_block :: block_publish where
  "empty_block = \<lparr>PrevHash = zero_hash, Transaction = \<lparr>tx_Name = [], tx_Size = 0, tx_MetafileHash = []\<rparr>\<rparr>"

text \<open>\<open>&TLCMessage{Fitness: 0}\<close>\<close>

definition zero_tlc :: tlc_message where
  "zero_tlc = \<lparr>tlc_Origin = [], tlc_ID = 0, tlc_Confirmed = 0, tlc_TxBlock = empty_block,
     tlc_VectorClock = None, tlc_Fitness = 0\<rparr>"

fun best_fitness :: "tlc_message \<Rightarrow> tlc_message list \<Rightarrow> tlc_message" where
  "best_fitness best [] = best"
| "best_fitness best (m # ms) =
     best_fitness (if f32_greater (tlc_Fitness m) (tlc_Fitness best) then m else best) ms"

definition map_values :: "('k fset \<Rightarrow> 'k list) \<Rightarrow> ('k, 'v) fmap \<Rightarrow> 'v list" where
  "map_values ord m = map (\<lambda>k. the (fmlookup m k)) (ord (fmdom m))"

definition getTLCWithHighestFitness ::
  "(string fset \<Rightarrow> string list) \<Rightarrow> (string, tlc_message) fmap \<Rightarrow> tlc_message" where
  "getTLCWithHighestFitness ord confirmations = best_fitness zero_tlc (map_values ord confirmations)"

definition TxPublish_Hash :: "(bytes \<Rightarrow> bytes) \<Rightarrow> tx_publish \<Rightarrow> bytes" where
  "TxPublish_Hash H t =
     H (u32_le (of_nat (length (tx_Name t))) @ bytes_of (tx_Name t) @ tx_MetafileHash t)"

definition BlockPublish_Hash :: "(bytes \<Rightarrow> bytes) \<Rightarrow> block_publish \<Rightarrow> bytes" where
  "BlockPublish_Hash H b = H (PrevHash b @ TxPublish_Hash H (Transaction b))"

lemma to_array32_id [simp]: "length bs = 32 \<Longrightarrow> to_array32 bs = bs"
  by (simp add: to_array32_def)

lemma checkHash_own [simp]: "length (H data) = 32 \<Longrightarrow> checkHash H (H data) data"
  by (simp add: checkHash_def)

lemma map_values_set:
  assumes "is_order ord"
  shows "set (map_values ord m) = {v. \<exists>k. fmlookup m k = Some v}"
  using is_order_set [OF assms, of "fmdom m"]
  by (force simp: map_values_def fmlookup_dom_iff image_iff)

lemma best_fitness_in: "best_fitness b ms = b \<or> best_fitness b ms \<in> set ms"
proof (induction ms arbitrary: b)
  case (Cons a ms)
  from Cons [of "if f32_greater (tlc_Fitness a) (tlc_Fitness b) then a else b"]
  show ?case by (auto split: if_splits)
qed simp

lemma best_fitness_key:
  "\<not> f32_nan (tlc_Fitness b) \<Longrightarrow>
     \<not> f32_nan (tlc_Fitness (best_fitness b ms))
     \<and> f32_key (tlc_Fitness b) \<le> f32_key (tlc_Fitness (best_fitness b ms))
     \<and> (\<forall>m \<in> set ms. f32_nan (tlc_Fitness m)
            \<or> f32_key (tlc_Fitness m) \<le> f32_key (tlc_Fitness (best_fitness b ms)))"
proof (induction ms arbitrary: b)
  case (Cons a ms)
  define c where "c = (if f32_greater (tlc_Fitness a) (tlc_Fitness b) then a else b)"
  have c: "\<not> f32_nan (tlc_Fitness c)" "f32_key (tlc_Fitness b) \<le> f32_key (tlc_Fitness c)"
    "f32_nan (tlc_Fitness a) \<or> f32_key (tlc_Fitness a) \<le> f32_key (tlc_Fitness c)"
    using Cons.prems by (auto simp: c_def f32_greater_def)
  have "best_fitness b (a # ms) = best_fitness c ms" by (simp add: c_def)
  with Cons.IH [OF c(1)] c show ?case by (metis order_trans set_ConsD)
qed simp

lemma best_fitness_none:
  "\<forall>m \<in> set ms. \<not> f32_greater (tlc_Fitness m) (tlc_Fitness b) \<Longrightarrow> best_fitness b ms = b"
  by (induction ms) auto

text \<open>
  The message chosen by \<open>getTLCWithHighestFitness\<close> is at least as fit as every confirmation
  of the round, in whatever order the map is visited; it is one of them, or the empty message when
  none has positive fitness.
\<close>

theorem highest_fitness_correct:
  assumes "is_order ord"
  shows "let best = getTLCWithHighestFitness ord conf
    in (\<forall>k m. fmlookup conf k = Some m \<longrightarrow> \<not> f32_greater (tlc_Fitness m) (tlc_Fitness best))
     \<and> (if \<exists>k m. fmlookup conf k = Some m \<and> f32_greater (tlc_Fitness m) 0
        then \<exists>k. fmlookup conf k = Some best else best = zero_tlc)"
proof -
  let ?ms = "map_values ord conf" and ?best = "getTLCWithHighestFitness ord conf"
  have nan: "\<not> f32_nan (tlc_Fitness zero_tlc)" by (simp add: zero_tlc_def)
  note key = best_fitness_key [OF nan, of ?ms, folded getTLCWithHighestFitness_def]
  have mem: "fmlookup conf k = Some m \<Longrightarrow> m \<in> set ?ms" for k m
    by (auto simp: map_values_set [OF assms])
  have ge: "\<not> f32_greater (tlc_Fitness m) (tlc_Fitness ?best)" if "fmlookup conf k = Some m" for k m
    using key mem [OF that] by (auto simp: f32_greater_def)
  have "\<exists>k. fmlookup conf k = Some ?best"
    if "fmlookup conf k = Some m" "f32_greater (tlc_Fitness m) 0" for k m
  proof -
    have "?best \<noteq> zero_tlc" using ge [OF that(1)] that(2) by (auto simp: zero_tlc_def)
    then show ?thesis
      using best_fitness_in [of zero_tlc ?ms]
      by (auto simp: getTLCWithHighestFitness_def map_values_set [OF assms])
  qed
  moreover have "?best = zero_tlc" if none: "\<forall>k m. fmlookup conf k = Some m \<longrightarrow> \<not> f32_greater (tlc_Fitness m) 0"
  proof -
    have "\<not> f32_greater (tlc_Fitness m) 0" if "m \<in> set ?ms" for m
      using none that by (auto simp: map_values_set [OF assms])
    then show ?thesis
      by (simp add: getTLCWithHighestFitness_def best_fitness_none zero_tlc_def)
  qed
  ultimately show ?thesis using ge by (auto simp: Let_def)
qed

theorem highest_fitness_correct_witness:
  "is_order (sorted_list_of_fset :: string fset \<Rightarrow> string list) \<and>
   (let m = zero_tlc\<lparr>tlc_Origin := ''A'', tlc_Fitness := 0x3F000000\<rparr>
    in getTLCWithHighestFitness sorted_list_of_fset (fmupd ''A'' m fmempty) = m)"
proof -
  let ?m = "zero_tlc\<lparr>tlc_Origin := ''A'', tlc_Fitness := 0x3F000000\<rparr>"
  have "f32_greater (0x3F000000 :: float32) 0" by (simp add: f32_greater_def f32_nan_def f32_key_def)
  then show ?thesis
    using highest_fitness_correct [OF sorted_is_order, of "fmupd ''A'' ?m fmempty"]
    by (auto simp: Let_def sorted_is_order split: if_splits)
qed

end
