(* ===== verification/Blockchain.thy ===== *)
theory Blockchain
  imports Utils
begin

text \<open>
  The state of \<open>gossiper/blockchainhandler.go\<close> with the operations on it, and from
  \<open>gossiper/qsc.go\<close> the validity of a block, the consensus test and the commit.  The chain is the
  list of blocks reached from the top hash through previous hashes; \<open>chain_inv\<close> says it is there.
\<close>

type_synonym tlc_map = "(string, tlc_message) fmap"
type_synonym history = "(bytes, block_publish) fmap"

record blockchain_handler =
  myTime :: u32
  tlcStatus :: "(string, int fset) fmap"
  confirmations :: "(u32, tlc_map) fmap"
  messageSeen :: "(u32, tlc_map) fmap"
  committedHistory :: history
  topBlockchainHash :: bytes
  previousBlockHash :: bytes

definition NewBlockchainHandler :: blockchain_handler where
  "NewBlockchainHandler = \<lparr>myTime = 0, tlcStatus = fmempty, confirmations = fmempty,
     messageSeen = fmempty, committedHistory = fmempty, topBlockchainHash = zero_hash,
     previousBlockHash = zero_hash\<rparr>"

section \<open>Rounds and confirmations\<close>

definition saveConfirmation :: "u32 \<Rightarrow> string \<Rightarrow> tlc_message \<Rightarrow> blockchain_handler \<Rightarrow> blockchain_handler" where
  "saveConfirmation rnd origin tlc bh =
     (let currentRound = myTime bh
      in if currentRound \<le> rnd then
           (let (m, tlcMap, _) = LoadOrStore rnd fmempty (confirmations bh)
            in bh\<lparr>confirmations := fmupd rnd (fmupd origin tlc tlcMap) m\<rparr>)
         else bh)"

definition saveMessageSeen :: "u32 \<Rightarrow> string \<Rightarrow> tlc_message \<Rightarrow> blockchain_handler \<Rightarrow> blockchain_handler" where
  "saveMessageSeen rnd origin tlc bh =
     (let (m, tlcMap, _) = LoadOrStore rnd fmempty (messageSeen bh)
      in bh\<lparr>messageSeen := fmupd rnd (fmupd origin tlc tlcMap) m\<rparr>)"

text \<open>
  \<open>getMessageOriginalRound\<close>: the number of confirmed messages of the origin before this one.  A
  key is a Go \<open>int\<close>, cut to 32 bits for the comparison with the identifier.
\<close>

definition getMessageOriginalRound ::
  "string \<Rightarrow> u32 \<Rightarrow> int \<Rightarrow> blockchain_handler \<Rightarrow> u32 \<times> blockchain_handler" where
  "getMessageOriginalRound origin mid confirmedID bh =
     (let (m, ids, _) = LoadOrStore origin {||} (tlcStatus bh);
          messageRound = (if confirmedID > -1 then of_nat (fcard (ffilter (\<lambda>key. confirmedID > key) ids))
                          else of_nat (fcard (ffilter (\<lambda>key. mid > word_of_int key) ids)))
      in (messageRound, bh\<lparr>tlcStatus := m\<rparr>))"

definition markConfirmed :: "string \<Rightarrow> int \<Rightarrow> blockchain_handler \<Rightarrow> blockchain_handler" where
  "markConfirmed origin confirmedID bh =
     (let (m, ids, _) = LoadOrStore origin {||} (tlcStatus bh)
      in bh\<lparr>tlcStatus := fmupd origin (finsert confirmedID ids) m\<rparr>)"

section \<open>The chain\<close>

partial_function (option) history_known :: "history \<Rightarrow> bytes \<Rightarrow> bool option" where
  "history_known hist blockHash =
     (if blockHash = zero_hash then Some True
      else case fmlookup hist blockHash of
             None \<Rightarrow> Some False
           | Some block \<Rightarrow> history_known hist (PrevHash block))"

definition isTxBlockValid :: "blockchain_handler \<Rightarrow> block_publish \<Rightarrow> bool option" where
  "isTxBlockValid bh b =
     (if fBex (fmdom (committedHistory bh))
           (\<lambda>k. tx_Name (Transaction (the (fmlookup (committedHistory bh) k))) = tx_Name (Transaction b))
      then Some False else history_known (committedHistory bh) (PrevHash b))"

definition checkIfConsensusReached ::
  "(bytes \<Rightarrow> bytes) \<Rightarrow> (string fset \<Rightarrow> string list) \<Rightarrow> tlc_map \<Rightarrow> tlc_map \<Rightarrow> u32 \<Rightarrow> blockchain_handler
     \<Rightarrow> tlc_message option res" where
  "checkIfConsensusReached H ord confirmationsRoundS confirmationsRoundS1 initialRound bh =
     (let best = best_fitness zero_tlc (map_values ord confirmationsRoundS)
      in res_bind (of_option NilAssertion (fmlookup (messageSeen bh) initialRound)) (\<lambda>seen.
        if list_ex (\<lambda>saw. f32_ge (tlc_Fitness saw) (tlc_Fitness best)
             \<and> BlockPublish_Hash H (tlc_TxBlock saw) \<noteq> BlockPublish_Hash H (tlc_TxBlock best)) (map_values ord seen)
        then Inr None
        else if list_ex (\<lambda>m1. BlockPublish_Hash H (tlc_TxBlock m1) = BlockPublish_Hash H (tlc_TxBlock best))
             (map_values ord confirmationsRoundS1)
        then Inr (Some best)
        else Inr None))"

text \<open>The update of the blockchain in \<open>qscRound\<close>, with and without consensus.\<close>

definition commit_block :: "(bytes \<Rightarrow> bytes) \<Rightarrow> tlc_message \<Rightarrow> blockchain_handler \<Rightarrow> block_publish \<times> blockchain_handler" where
  "commit_block H messageConsensus bh =
     (let chosenBlock = (tlc_TxBlock messageConsensus)\<lparr>PrevHash := topBlockchainHash bh\<rparr>;
          h = BlockPublish_Hash H chosenBlock
      in (chosenBlock,
          bh\<lparr>committedHistory := fmupd h chosenBlock (committedHistory bh),
             topBlockchainHash := h, previousBlockHash := h\<rparr>))"

definition adopt_block :: "(bytes \<Rightarrow> bytes) \<Rightarrow> tlc_message \<Rightarrow> blockchain_handler \<Rightarrow> block_publish \<times> blockchain_handler" where
  "adopt_block H highest bh =
     (let chosenBlock = tlc_TxBlock highest
      in (chosenBlock, bh\<lparr>previousBlockHash := BlockPublish_Hash H chosenBlock\<rparr>))"

text \<open>
  \<open>GetBlockchain\<close> of \<open>uifunctions.go\<close>.  The load in the loop is of the top hash, not of the hash the
  loop is at.
\<close>

definition gui_of_block :: "block_publish \<Rightarrow> file_gui" where
  "gui_of_block b = \<lparr>gui_Name = tx_Name (Transaction b),
     gui_MetaHash = hex_encode (tx_MetafileHash (Transaction b)), gui_Size = tx_Size (Transaction b)\<rparr>"

partial_function (option) GetBlockchain_loop ::
  "blockchain_handler \<Rightarrow> bytes \<Rightarrow> file_gui list \<Rightarrow> file_gui list res option" where
  "GetBlockchain_loop bh blockHash filesConsensus =
     (if blockHash = zero_hash then Some (Inr filesConsensus)
      else case fmlookup (committedHistory bh) (topBlockchainHash bh) of
             None \<Rightarrow> Some (Inl NilAssertion)
           | Some block \<Rightarrow>
               GetBlockchain_loop bh (PrevHash block) (filesConsensus @ [gui_of_block block]))"

definition GetBlockchain :: "blockchain_handler \<Rightarrow> file_gui list res option" where
  "GetBlockchain bh = GetBlockchain_loop bh (topBlockchainHash bh) []"

text \<open>The file names \<open>printConsensusMessage\<close> of \<open>printhandler.go\<close> collects, oldest first.\<close>

partial_function (option) consensus_names :: "history \<Rightarrow> bytes \<Rightarrow> string \<Rightarrow> string res option" where
  "consensus_names hist blockHash filenames =
     (if blockHash = zero_hash then Some (Inr filenames)
      else case fmlookup hist blockHash of
             None \<Rightarrow> Some (Inl NilAssertion)
           | Some block \<Rightarrow>
               consensus_names hist (PrevHash block) (tx_Name (Transaction block) @ '' '' @ filenames))"

section \<open>Chains of committed blocks\<close>

fun chain :: "history \<Rightarrow> bytes \<Rightarrow> block_publish list \<Rightarrow> bool" where
  "chain hist h [] \<longleftrightarrow> h = zero_hash"
| "chain hist h (b # bs) \<longleftrightarrow> h \<noteq> zero_hash \<and> fmlookup hist h = Some b \<and> chain hist (PrevHash b) bs"

lemma chain_unique: "chain hist h bs \<Longrightarrow> chain hist h cs \<Longrightarrow> bs = cs"
proof (induction bs arbitrary: h cs)
  case Nil
  then show ?case by (cases cs) auto
next
  case (Cons b bs)
  then show ?case by (cases cs) auto
qed

lemma chain_extend:
  "chain hist h bs \<Longrightarrow> fmlookup hist k = None \<Longrightarrow> chain (fmupd k b hist) h bs"
  by (induction bs arbitrary: h) auto

lemma chain_history_known: "chain hist h bs \<Longrightarrow> history_known hist h = Some True"
  by (induction bs arbitrary: h) (auto simp: history_known.simps)

text \<open>Every committed block is on the chain, and the history of every committed hash is complete.\<close>

definition chain_inv :: "blockchain_handler \<Rightarrow> bool" where
  "chain_inv bh \<longleftrightarrow> (\<exists>bs. chain (committedHistory bh) (topBlockchainHash bh) bs
     \<and> (\<forall>k b. fmlookup (committedHistory bh) k = Some b \<longrightarrow> b \<in> set bs))
     \<and> (\<forall>k b. fmlookup (committedHistory bh) k = Some b \<longrightarrow> (\<exists>cs. chain (committedHistory bh) k cs))"

lemma NewBlockchainHandler_inv: "chain_inv NewBlockchainHandler"
  by (auto simp: chain_inv_def NewBlockchainHandler_def intro: exI [of _ "[]"])

lemma commit_block_inv:
  assumes "chain_inv bh" and "chain (committedHistory bh) (topBlockchainHash bh) bs"
    and "commit_block H m bh = (b, bh')"
    and "fmlookup (committedHistory bh) (BlockPublish_Hash H b) = None" and "BlockPublish_Hash H b \<noteq> zero_hash"
  shows "chain_inv bh' \<and> chain (committedHistory bh') (topBlockchainHash bh') (b # bs)
    \<and> Transaction b = Transaction (tlc_TxBlock m) \<and> PrevHash b = topBlockchainHash bh
    \<and> previousBlockHash bh' = topBlockchainHash bh'"
proof -
  let ?h = "BlockPublish_Hash H b"
  have b: "PrevHash b = topBlockchainHash bh" "Transaction b = Transaction (tlc_TxBlock m)"
    and bh': "committedHistory bh' = fmupd ?h b (committedHistory bh)" "topBlockchainHash bh' = ?h"
      "previousBlockHash bh' = ?h"
    using assms(3) by (auto simp: commit_block_def Let_def)
  have ext: "chain (committedHistory bh) k cs \<Longrightarrow> chain (committedHistory bh') k cs" for k cs
    unfolding bh' by (rule chain_extend [OF _ assms(4)])
  have top: "chain (committedHistory bh') (topBlockchainHash bh') (b # bs)"
    using ext [OF assms(2)] assms(5) by (simp add: bh' b)
  have mem: "c \<in> set bs" if "fmlookup (committedHistory bh) k = Some c" for k c
    using assms(1) that chain_unique [OF assms(2)] by (auto simp: chain_inv_def)
  have "c \<in> set (b # bs)" if "fmlookup (committedHistory bh') k = Some c" for k c
    using that mem by (auto simp: bh' split: if_splits)
  moreover have "\<exists>cs. chain (committedHistory bh') k cs" if "fmlookup (committedHistory bh') k = Some c" for k c
  proof (cases "k = ?h")
    case True
    then have "chain (committedHistory bh') k (b # bs)" using top by (simp only: bh'(2))
    then show ?thesis by blast
  next
    case False
    then have "fmlookup (committedHistory bh) k = Some c" using that by (simp add: bh')
    then obtain cs where "chain (committedHistory bh) k cs" using assms(1) by (auto simp: chain_inv_def)
    then show ?thesis using ext by blast
  qed
  ultimately have "chain_inv bh'" using top unfolding chain_inv_def by blast
  with top b bh' show ?thesis by simp
qed

text \<open>
  C26: committing the agreed block puts it on top of the chain with the old chain below it, every
  earlier block keeps its place, and the invariant is kept, provided its hash is new and not zero.
\<close>

theorem commit_block_extends:
  assumes "chain_inv bh" and "chain (committedHistory bh) (topBlockchainHash bh) bs"
    and "commit_block H m bh = (b, bh')"
    and "fmlookup (committedHistory bh) (BlockPublish_Hash H b) = None" and "BlockPublish_Hash H b \<noteq> zero_hash"
  shows "chain_inv bh' \<and> chain (committedHistory bh') (topBlockchainHash bh') (b # bs)
    \<and> Transaction b = Transaction (tlc_TxBlock m) \<and> PrevHash b = topBlockchainHash bh
    \<and> previousBlockHash bh' = topBlockchainHash bh'"
  using assms by (rule commit_block_inv)

lemma history_known_committed:
  assumes "chain_inv bh"
  shows "history_known (committedHistory bh) h =
    Some (h = zero_hash \<or> fmlookup (committedHistory bh) h \<noteq> None)"
proof (cases "fmlookup (committedHistory bh) h")
  case None
  then show ?thesis by (simp add: history_known.simps)
next
  case (Some b)
  then obtain cs where "chain (committedHistory bh) h cs" using assms by (auto simp: chain_inv_def)
  with Some show ?thesis by (simp add: chain_history_known)
qed

lemma isTxBlockValid_spec:
  assumes "chain_inv bh"
  shows "isTxBlockValid bh b = Some
    ((\<forall>k c. fmlookup (committedHistory bh) k = Some c \<longrightarrow> tx_Name (Transaction c) \<noteq> tx_Name (Transaction b))
     \<and> (PrevHash b = zero_hash \<or> fmlookup (committedHistory bh) (PrevHash b) \<noteq> None))"
proof -
  have "fBex (fmdom (committedHistory bh))
      (\<lambda>k. tx_Name (Transaction (the (fmlookup (committedHistory bh) k))) = tx_Name (Transaction b))
    \<longleftrightarrow> (\<exists>k c. fmlookup (committedHistory bh) k = Some c \<and> tx_Name (Transaction c) = tx_Name (Transaction b))"
    by (force simp: fmlookup_dom_iff)
  then show ?thesis
    by (auto simp: isTxBlockValid_def history_known_committed [OF assms])
qed

text \<open>
  C25: on a well formed chain the validity check returns, and accepts exactly the blocks whose name
  is not committed yet and whose previous hash is zero or that of a committed block.
\<close>

theorem isTxBlockValid_correct:
  assumes "chain_inv bh"
  shows "isTxBlockValid bh b = Some
    ((\<forall>k c. fmlookup (committedHistory bh) k = Some c \<longrightarrow> tx_Name (Transaction c) \<noteq> tx_Name (Transaction b))
     \<and> (PrevHash b = zero_hash \<or> fmlookup (committedHistory bh) (PrevHash b) \<noteq> None))"
  using assms by (rule isTxBlockValid_spec)


text \<open>
  C38: the chain shown to the interface is right up to one block; with two blocks or more the loop of
  \<open>GetBlockchain\<close> never ends, since it always loads the top block.
\<close>

theorem GetBlockchain_behaviour:
  assumes "chain (committedHistory bh) (topBlockchainHash bh) bs"
  shows "GetBlockchain bh = (if length bs \<le> 1 then Some (Inr (map gui_of_block bs)) else None)"
proof -
  consider "bs = []" | b where "bs = [b]" | b c cs where "bs = b # c # cs"
    by (metis list.exhaust)
  then show ?thesis
  proof cases
    case 1
    with assms show ?thesis by (simp add: GetBlockchain_def GetBlockchain_loop.simps)
  next
    case 2
    with assms show ?thesis by (simp add: GetBlockchain_def GetBlockchain_loop.simps)
  next
    case (3 b c cs)
    with assms have top: "fmlookup (committedHistory bh) (topBlockchainHash bh) = Some b"
      and prev: "PrevHash b \<noteq> zero_hash" and nz: "topBlockchainHash bh \<noteq> zero_hash" by auto
    have "False" if ret: "GetBlockchain_loop bh0 h acc = Some r" "bh0 = bh" "h \<noteq> zero_hash" for bh0 h acc r
    proof -
      have "bh0 = bh \<longrightarrow> h = zero_hash"
      proof (rule GetBlockchain_loop.raw_induct
          [where P = "\<lambda>bh0 h acc r. bh0 = bh \<longrightarrow> h = zero_hash", OF _ ret(1)])
        fix f bh0 h acc r
        assume IH: "\<And>bh0 h acc r. f bh0 h acc = Some r \<Longrightarrow> bh0 = bh \<longrightarrow> h = zero_hash"
          and eq: "(if h = zero_hash then Some (Inr acc)
            else case fmlookup (committedHistory bh0) (topBlockchainHash bh0) of
               None \<Rightarrow> Some (Inl NilAssertion)
             | Some block \<Rightarrow> f bh0 (PrevHash block) (acc @ [gui_of_block block])) = Some r"
        show "bh0 = bh \<longrightarrow> h = zero_hash"
          using IH [of bh "PrevHash b"] eq top prev by (auto split: if_splits)
      qed
      with ret show False by simp
    qed
    then have "GetBlockchain bh = None"
      using nz unfolding GetBlockchain_def by (metis not_Some_eq)
    with 3 show ?thesis by simp
  qed
qed

text \<open>A cheap hash for the examples: the length of the data and its last byte, in 32 bytes.\<close>

definition sample_hash :: "bytes \<Rightarrow> bytes" where
  "sample_hash m = of_nat (length m) # (if m = [] then 0 else last m) # replicate 30 1"

lemma sample_hash_function: "hash_function sample_hash"
  by unfold_locales (simp add: sample_hash_def)

definition sample_block :: "string \<Rightarrow> bytes \<Rightarrow> block_publish" where
  "sample_block name prev = \<lparr>PrevHash = prev, Transaction = \<lparr>tx_Name = name, tx_Size = 1, tx_MetafileHash = []\<rparr>\<rparr>"

definition sample_tlc :: "string \<Rightarrow> float32 \<Rightarrow> block_publish \<Rightarrow> tlc_message" where
  "sample_tlc origin fit b = zero_tlc\<lparr>tlc_Origin := origin, tlc_ID := 1, tlc_Confirmed := -1,
     tlc_TxBlock := b, tlc_Fitness := fit\<rparr>"

lemma sample_hash_nonzero [simp]: "sample_hash m \<noteq> zero_hash"
  by (simp add: sample_hash_def zero_hash_def numeral_eq_Suc)

theorem commit_block_extends_witness:
  "let m = sample_tlc ''A'' 0x3F000000 (sample_block ''f'' zero_hash);
       (b, bh') = commit_block sample_hash m NewBlockchainHandler
   in chain_inv bh' \<and> chain (committedHistory bh') (topBlockchainHash bh') [b]"
proof -
  let ?m = "sample_tlc ''A'' 0x3F000000 (sample_block ''f'' zero_hash)"
  obtain b bh' where c: "commit_block sample_hash ?m NewBlockchainHandler = (b, bh')" by fastforce
  have e: "fmlookup (committedHistory NewBlockchainHandler) k = None" for k
    by (simp add: NewBlockchainHandler_def)
  have n: "chain (committedHistory NewBlockchainHandler) (topBlockchainHash NewBlockchainHandler) []"
    by (simp add: NewBlockchainHandler_def)
  have "BlockPublish_Hash sample_hash b \<noteq> zero_hash" by (simp add: BlockPublish_Hash_def)
  from commit_block_extends [OF NewBlockchainHandler_inv n c e this] c show ?thesis
    by (simp add: Let_def)
qed

theorem isTxBlockValid_correct_witness:
  "chain_inv NewBlockchainHandler \<and> isTxBlockValid NewBlockchainHandler (sample_block ''f'' zero_hash) = Some True
   \<and> isTxBlockValid NewBlockchainHandler (sample_block ''f'' [1]) = Some False"
proof -
  have "isTxBlockValid NewBlockchainHandler (sample_block ''f'' zero_hash) = Some True"
    using isTxBlockValid_correct [OF NewBlockchainHandler_inv]
    by (simp add: sample_block_def NewBlockchainHandler_def)
  moreover have "isTxBlockValid NewBlockchainHandler (sample_block ''f'' [1]) = Some False"
    using isTxBlockValid_correct [OF NewBlockchainHandler_inv]
    by (simp add: sample_block_def NewBlockchainHandler_def zero_hash_def numeral_eq_Suc)
  ultimately show ?thesis by (simp add: NewBlockchainHandler_inv)
qed


theorem GetBlockchain_behaviour_witness:
  "let b1 = sample_block ''f'' zero_hash; b2 = sample_block ''g'' [1];
       bh = NewBlockchainHandler\<lparr>committedHistory := fmupd [2] b2 (fmupd [1] b1 fmempty), topBlockchainHash := [2]\<rparr>
   in chain (committedHistory bh) (topBlockchainHash bh) [b2, b1] \<and> GetBlockchain bh = None"
proof -
  let ?b1 = "sample_block ''f'' zero_hash" and ?b2 = "sample_block ''g'' [1]"
  let ?bh = "NewBlockchainHandler\<lparr>committedHistory := fmupd [2] ?b2 (fmupd [1] ?b1 fmempty), topBlockchainHash := [2]\<rparr>"
  have "chain (committedHistory ?bh) (topBlockchainHash ?bh) [?b2, ?b1]"
    by (simp add: sample_block_def zero_hash_def numeral_eq_Suc)
  with GetBlockchain_behaviour [OF this] show ?thesis by (simp add: Let_def)
qed

section \<open>Consensus\<close>

lemma checkIfConsensusReached_spec:
  assumes "is_order ord"
  shows "(checkIfConsensusReached H ord conf0 conf1 r bh = Inl NilAssertion
            \<longleftrightarrow> fmlookup (messageSeen bh) r = None)
    \<and> (\<forall>best. checkIfConsensusReached H ord conf0 conf1 r bh = Inr (Some best) \<longrightarrow>
        best = getTLCWithHighestFitness ord conf0
        \<and> (\<exists>k m1. fmlookup conf1 k = Some m1
              \<and> BlockPublish_Hash H (tlc_TxBlock m1) = BlockPublish_Hash H (tlc_TxBlock best))
        \<and> (\<exists>seen. fmlookup (messageSeen bh) r = Some seen \<and>
              (\<forall>k saw. fmlookup seen k = Some saw \<longrightarrow> \<not> f32_ge (tlc_Fitness saw) (tlc_Fitness best)
                 \<or> BlockPublish_Hash H (tlc_TxBlock saw) = BlockPublish_Hash H (tlc_TxBlock best))))"
proof (intro conjI allI impI)
  show "checkIfConsensusReached H ord conf0 conf1 r bh = Inl NilAssertion
            \<longleftrightarrow> fmlookup (messageSeen bh) r = None"
    by (cases "fmlookup (messageSeen bh) r") (simp_all add: checkIfConsensusReached_def Let_def)
next
  fix best
  assume "checkIfConsensusReached H ord conf0 conf1 r bh = Inr (Some best)"
  then obtain seen where s: "fmlookup (messageSeen bh) r = Some seen"
    "best = best_fitness zero_tlc (map_values ord conf0)"
    "\<not> list_ex (\<lambda>saw. f32_ge (tlc_Fitness saw) (tlc_Fitness best)
        \<and> BlockPublish_Hash H (tlc_TxBlock saw) \<noteq> BlockPublish_Hash H (tlc_TxBlock best)) (map_values ord seen)"
    "list_ex (\<lambda>m1. BlockPublish_Hash H (tlc_TxBlock m1) = BlockPublish_Hash H (tlc_TxBlock best))
        (map_values ord conf1)"
    by (auto simp: checkIfConsensusReached_def go_simps Let_def split: if_splits)
  show "best = getTLCWithHighestFitness ord conf0"
    by (simp add: s(2) getTLCWithHighestFitness_def)
  show "\<exists>k m1. fmlookup conf1 k = Some m1
        \<and> BlockPublish_Hash H (tlc_TxBlock m1) = BlockPublish_Hash H (tlc_TxBlock best)"
    using s(4) by (auto simp: list_ex_iff map_values_set [OF assms])
  show "\<exists>seen. fmlookup (messageSeen bh) r = Some seen \<and>
      (\<forall>k saw. fmlookup seen k = Some saw \<longrightarrow> \<not> f32_ge (tlc_Fitness saw) (tlc_Fitness best)
         \<or> BlockPublish_Hash H (tlc_TxBlock saw) = BlockPublish_Hash H (tlc_TxBlock best))"
    using s(1,3) by (auto simp: list_ex_iff map_values_set [OF assms])
qed



end
