(* ===== verification/FileStore.thy ===== *)
theory FileStore
  imports Utils
begin

text \<open>
  \<open>gossiper/filehandler.go\<close>: the store of chunks and metafiles by hash, the metadata of files, the
  indexing of a shared file and the bookkeeping of which chunks are here and who owns them.  The
  hash function \<open>H\<close> and the content of the shared folder \<open>disk\<close> (for each name the error of opening
  it or its content) are arguments.  Metadata is
  shared by pointer in the code: here it stays in \<open>filesMetadata\<close> and is referred to by its key.
\<close>

record file_handler =
  hashDataMap :: "(string, bytes) fmap"
  filesMetadata :: "(string, file_metadata) fmap"
  hashChannels :: "(string, data_reply list) fmap"
  lastSearchRequests :: "(string, int) fmap"
  chunkOwners :: "(string, string list) fmap"

definition NewFileHandler :: file_handler where
  "NewFileHandler = \<lparr>hashDataMap = fmempty, filesMetadata = fmempty, hashChannels = fmempty,
     lastSearchRequests = fmempty, chunkOwners = fmempty\<rparr>"

section \<open>Indexing\<close>

text \<open>
  The number of chunks is the size divided by the chunk size, rounded up (the code does it in
  \<open>float64\<close>, which is exact for sizes below 2^53).
\<close>

definition numFileChunks :: "nat \<Rightarrow> nat" where
  "numFileChunks fileSize = (fileSize + (fileChunk - 1)) div fileChunk"

definition partBuffer :: "bytes \<Rightarrow> nat \<Rightarrow> bytes" where
  "partBuffer content i =
     (let partSize = min fileChunk (length content - i * fileChunk)
      in take partSize (drop (i * fileChunk) content))"

definition index_chunk ::
  "(bytes \<Rightarrow> bytes) \<Rightarrow> bytes \<Rightarrow> nat \<Rightarrow> (string, bytes) fmap \<times> u64 list \<times> bytes
     \<Rightarrow> (string, bytes) fmap \<times> u64 list \<times> bytes" where
  "index_chunk H content i = (\<lambda>(store, chunkMap, hashes).
     let part = partBuffer content i; hash = H part
     in (fst (LoadOrStore (hex_encode hash) part store), chunkMap @ [of_nat i + 1], hashes @ hash))"

definition index_chunks ::
  "(bytes \<Rightarrow> bytes) \<Rightarrow> bytes \<Rightarrow> (string, bytes) fmap \<Rightarrow> (string, bytes) fmap \<times> u64 list \<times> bytes" where
  "index_chunks H content store =
     fold (index_chunk H content) [0..<numFileChunks (length content)] (store, [], [])"

definition gui_of :: "file_metadata \<Rightarrow> file_gui" where
  "gui_of f = \<lparr>gui_Name = FileName f, gui_MetaHash = hex_encode (MetafileHash f), gui_Size = FileSize f\<rparr>"

definition indexFile ::
  "(bytes \<Rightarrow> bytes) \<Rightarrow> (string \<Rightarrow> string + bytes) \<Rightarrow> app_config \<Rightarrow> string \<Rightarrow> file_handler
     \<Rightarrow> file_handler \<times> effect list" where
  "indexFile H disk c fileName fh =
     (case disk fileName of
        Inl err \<Rightarrow> (fh, log_error (Some err))
      | Inr content \<Rightarrow>
          (let (store, chunkMap, hashes) = index_chunks H content (hashDataMap fh);
               metahash = H hashes;
               keyHash = hex_encode metahash;
               store' = fst (LoadOrStore keyHash hashes store);
               (metas, fileMetadata, loaded) =
                 LoadOrStore (getKeyFromString H (keyHash @ fileName))
                   \<lparr>FileName = fileName, MetafileHash = metahash,
                    ChunkCount = of_nat (numFileChunks (length content)), ChunkMap = chunkMap,
                    FileSize = int (length content)\<rparr> (filesMetadata fh);
               fh' = fh\<lparr>hashDataMap := store', filesMetadata := metas\<rparr>
           in (fh',
               if ((hw3ex2Mode c \<or> hw3ex3Mode c) \<and> \<not> loaded) \<or> hw3ex4Mode c
               then [Go (CreateAndPublishTxBlock fileMetadata)]
               else if \<not> loaded then [GoSend (ToFilesIndexed (gui_of fileMetadata))] else [])))"

section \<open>Which chunks are here, and who has them\<close>

definition metafile_hash :: "bytes \<Rightarrow> nat \<Rightarrow> bytes res" where
  "metafile_hash metafile i = go_slice (i * 32) ((i + 1) * 32) metafile"

fun updateChunkMap_loop ::
  "(u64 fset \<Rightarrow> u64 list) \<Rightarrow> (string, bytes) fmap \<Rightarrow> bytes \<Rightarrow> nat list \<Rightarrow> u64 list \<Rightarrow> u64 list res" where
  "updateChunkMap_loop ord store metafile [] chunkMap = Inr chunkMap"
| "updateChunkMap_loop ord store metafile (i # is) chunkMap =
     res_bind (metafile_hash metafile i) (\<lambda>hashChunk.
       updateChunkMap_loop ord store metafile is
         (case fmlookup store (hex_encode hashChunk) of
            None \<Rightarrow> chunkMap
          | Some _ \<Rightarrow> RemoveDuplicatesFromUint64Slice ord (InsertToSortUint64Slice chunkMap (of_nat i + 1))))"

definition updateChunkMap ::
  "(u64 fset \<Rightarrow> u64 list) \<Rightarrow> file_handler \<Rightarrow> file_metadata \<Rightarrow> bytes \<Rightarrow> file_metadata res" where
  "updateChunkMap ord fh fileMetadata metafile =
     res_bind (updateChunkMap_loop ord (hashDataMap fh) metafile
                 [0..<unat (ChunkCount fileMetadata)] (ChunkMap fileMetadata))
       (\<lambda>cm. Inr (fileMetadata\<lparr>ChunkMap := cm\<rparr>))"

fun all_located :: "(string, string list) fmap \<Rightarrow> bytes \<Rightarrow> nat list \<Rightarrow> bool res" where
  "all_located owners metafile [] = Inr True"
| "all_located owners metafile (i # is) =
     res_bind (metafile_hash metafile i) (\<lambda>hash.
       case fmlookup owners (hex_encode hash) of
         None \<Rightarrow> Inr False
       | Some chunkValue \<Rightarrow> if chunkValue = [] then Inr False else all_located owners metafile is)"

definition checkAllChunksLocation :: "file_handler \<Rightarrow> file_metadata \<Rightarrow> bool res" where
  "checkAllChunksLocation fh fileMetadata =
     (case fmlookup (hashDataMap fh) (hex_encode (MetafileHash fileMetadata)) of
        None \<Rightarrow> Inr False
      | Some metafile \<Rightarrow> all_located (chunkOwners fh) metafile [0..<unat (ChunkCount fileMetadata)])"

text \<open>
  The elements of a chunk map come from the network: the bounds of the slice are computed on
  \<open>uint64\<close> and wrap.
\<close>

definition add_owner ::
  "(string fset \<Rightarrow> string list) \<Rightarrow> string \<Rightarrow> string \<Rightarrow> (string, string list) fmap \<Rightarrow> (string, string list) fmap" where
  "add_owner ord key owner owners =
     fmupd key (RemoveDuplicatesFromStringSlice ord
       ((case fmlookup owners key of None \<Rightarrow> [] | Some l \<Rightarrow> l) @ [owner])) owners"

fun updateChunkOwner_loop ::
  "(string fset \<Rightarrow> string list) \<Rightarrow> string \<Rightarrow> bytes \<Rightarrow> u64 list \<Rightarrow> (string, string list) fmap
     \<Rightarrow> (string, string list) fmap res" where
  "updateChunkOwner_loop ord destination metafile [] owners = Inr owners"
| "updateChunkOwner_loop ord destination metafile (elem # cm) owners =
     res_bind (go_slice (unat ((elem - 1) * 32)) (unat (elem * 32)) metafile) (\<lambda>chunkHash.
       updateChunkOwner_loop ord destination metafile cm
         (add_owner ord (hex_encode chunkHash) destination owners))"

definition updateChunkOwnerMap ::
  "(string fset \<Rightarrow> string list) \<Rightarrow> string \<Rightarrow> u64 list \<Rightarrow> bytes \<Rightarrow> file_handler \<Rightarrow> file_handler res" where
  "updateChunkOwnerMap ord destination chunkMap metafile fh =
     res_bind (updateChunkOwner_loop ord destination metafile chunkMap (chunkOwners fh))
       (\<lambda>owners. Inr (fh\<lparr>chunkOwners := owners\<rparr>))"

section \<open>Cutting a file into chunks\<close>

lemma numFileChunks_bounds:
  "numFileChunks n * fileChunk < n + fileChunk" "n \<le> numFileChunks n * fileChunk"
  by (simp_all add: numFileChunks_def fileChunk_def)

lemma numFileChunks_less: "i < numFileChunks n \<longleftrightarrow> i * fileChunk < n"
proof -
  have "i < numFileChunks n \<longleftrightarrow> Suc i * 8192 \<le> n + 8191"
    by (simp only: numFileChunks_def fileChunk_def Suc_le_eq [symmetric] less_eq_div_iff_mult_less_eq
        zero_less_numeral diff_Suc_1) simp
  then show ?thesis by (auto simp: fileChunk_def)
qed

lemma partBuffer_take: "partBuffer content i = take fileChunk (drop (i * fileChunk) content)"
  by (simp add: partBuffer_def Let_def min_def)

lemma concat_partBuffer:
  "concat (map (partBuffer content) [0..<k]) = take (k * fileChunk) content"
proof (induction k)
  case (Suc k)
  have "take (fileChunk + k * fileChunk) content
      = take (k * fileChunk) content @ take fileChunk (drop (k * fileChunk) content)"
    by (subst add.commute) (rule take_add)
  with Suc show ?case by (simp add: partBuffer_take)
qed simp

lemma partBuffer_length:
  "length (partBuffer content i) = min fileChunk (length content - i * fileChunk)"
  by (simp add: partBuffer_take)

text \<open>
  The chunks of a file are its content in order: together they are the whole file, none is
  empty, and every chunk but the last one is full.
\<close>

theorem chunks_partition:
  "concat (map (partBuffer content) [0..<numFileChunks (length content)]) = content
   \<and> (\<forall>i < numFileChunks (length content). 0 < length (partBuffer content i)
        \<and> length (partBuffer content i) \<le> fileChunk
        \<and> (Suc i < numFileChunks (length content) \<longrightarrow> length (partBuffer content i) = fileChunk))"
  using numFileChunks_bounds(2) [of "length content"]
  by (auto simp: concat_partBuffer partBuffer_length numFileChunks_less fileChunk_def)

theorem chunks_partition_witness:
  "1 < numFileChunks (length (replicate 9000 (7 :: byte)))
   \<and> length (partBuffer (replicate 9000 7) 0) = fileChunk"
proof -
  have n: "1 < numFileChunks (length (replicate 9000 (7 :: byte)))"
    by (simp add: numFileChunks_less fileChunk_def)
  then show ?thesis
    using chunks_partition [of "replicate 9000 7", THEN conjunct2, rule_format, of 0] by simp
qed

section \<open>Content addressed storage\<close>

text \<open>
  What clients of the data store rely on: data is kept under its hash, the first data kept under
  a hash stays.  With sound entries and no collision among the data at hand, the store gives back
  the data a hash was computed from.
\<close>

locale content_store =
  fixes H :: "bytes \<Rightarrow> bytes"
    and fetch :: "'s \<Rightarrow> bytes \<Rightarrow> bytes option"
    and keep :: "bytes \<Rightarrow> bytes \<Rightarrow> 's \<Rightarrow> 's"
  assumes fetch_keep: "fetch (keep h d s) k = (if k = h \<and> fetch s h = None then Some d else fetch s k)"
begin

definition sound :: "'s \<Rightarrow> bool" where
  "sound s \<longleftrightarrow> (\<forall>h d. fetch s h = Some d \<longrightarrow> H d = h)"

definition contents :: "'s \<Rightarrow> bytes set" where
  "contents s = {d. \<exists>h. fetch s h = Some d}"

lemma sound_keep: "sound s \<Longrightarrow> sound (keep (H d) d s)"
  by (auto simp: sound_def fetch_keep split: if_splits)

lemma fetch_keep_mono: "fetch s k = Some e \<Longrightarrow> fetch (keep h d s) k = Some e"
  by (auto simp: fetch_keep)

lemma contents_keep: "contents (keep h d s) \<subseteq> insert d (contents s)"
  by (auto simp: contents_def fetch_keep split: if_splits)

lemma fetch_own:
  assumes "sound s" and "inj_on H (insert d (contents s))"
  shows "fetch (keep (H d) d s) (H d) = Some d"
proof (cases "fetch s (H d)")
  case None
  then show ?thesis by (simp add: fetch_keep)
next
  case (Some e)
  then have "H e = H d" and "e \<in> contents s" using assms(1) by (auto simp: sound_def contents_def)
  then have "e = d" using inj_onD [OF assms(2), of e d] by simp
  with Some show ?thesis by (simp add: fetch_keep)
qed

lemma fold_keep:
  assumes "sound s" and "inj_on H (set ds \<union> contents s)"
  shows "sound (fold (\<lambda>d. keep (H d) d) ds s)
    \<and> contents (fold (\<lambda>d. keep (H d) d) ds s) \<subseteq> set ds \<union> contents s
    \<and> (\<forall>d \<in> set ds. fetch (fold (\<lambda>d. keep (H d) d) ds s) (H d) = Some d)
    \<and> (\<forall>k e. fetch s k = Some e \<longrightarrow> fetch (fold (\<lambda>d. keep (H d) d) ds s) k = Some e)"
  using assms
proof (induction ds arbitrary: s)
  case (Cons d ds)
  let ?s = "keep (H d) d s"
  have inj: "inj_on H (set ds \<union> contents ?s)"
    using contents_keep [of "H d" d s] by (intro inj_on_subset [OF Cons.prems(2)]) auto
  have own: "fetch ?s (H d) = Some d"
    using Cons.prems by (intro fetch_own) (auto intro: inj_on_subset)
  note IH = Cons.IH [OF sound_keep [OF Cons.prems(1)] inj]
  show ?case
    using IH own contents_keep [of "H d" d s] fetch_keep_mono by (auto simp del: fetch_keep)
qed (auto simp: contents_def)

end

definition chunk_fetch :: "(string, bytes) fmap \<Rightarrow> bytes \<Rightarrow> bytes option" where
  "chunk_fetch store h = fmlookup store (hex_encode h)"

definition chunk_keep :: "bytes \<Rightarrow> bytes \<Rightarrow> (string, bytes) fmap \<Rightarrow> (string, bytes) fmap" where
  "chunk_keep h d store = fst (LoadOrStore (hex_encode h) d store)"

interpretation chunks: content_store H chunk_fetch chunk_keep for H
  by unfold_locales (auto simp: chunk_fetch_def chunk_keep_def LoadOrStore_def split: option.split)

lemma index_chunks_eq:
  "index_chunks H content store =
     (fold (\<lambda>d. chunk_keep (H d) d) (map (partBuffer content) [0..<numFileChunks (length content)]) store,
      map (\<lambda>i. of_nat i + 1) [0..<numFileChunks (length content)],
      concat (map (\<lambda>i. H (partBuffer content i)) [0..<numFileChunks (length content)]))"
proof -
  have "fold (index_chunk H content) is (store, cm, hs) =
     (fold (\<lambda>d. chunk_keep (H d) d) (map (partBuffer content) is) store,
      cm @ map (\<lambda>i. of_nat i + 1) is, hs @ concat (map (\<lambda>i. H (partBuffer content i)) is))" for "is" cm hs
    by (induction "is" arbitrary: store cm hs) (simp_all add: index_chunk_def chunk_keep_def Let_def)
  then show ?thesis by (simp add: index_chunks_def)
qed

definition store_sound :: "(bytes \<Rightarrow> bytes) \<Rightarrow> (string, bytes) fmap \<Rightarrow> bool" where
  "store_sound H store \<longleftrightarrow> (\<forall>h d. chunk_fetch store h = Some d \<longrightarrow> H d = h)"

definition store_data :: "(string, bytes) fmap \<Rightarrow> bytes set" where
  "store_data store = {d. \<exists>h. chunk_fetch store h = Some d}"

lemma chunks_sound: "chunks.sound H = store_sound H"
  by (simp add: fun_eq_iff chunks.sound_def store_sound_def)

lemma chunks_contents: "chunks.contents = store_data"
  by (simp add: fun_eq_iff chunks.contents_def store_data_def)

text \<open>What is cut from a file: its chunks, and the metafile that lists their hashes.\<close>

definition file_parts :: "bytes \<Rightarrow> bytes list" where
  "file_parts content = map (partBuffer content) [0..<numFileChunks (length content)]"

definition metafile_of :: "(bytes \<Rightarrow> bytes) \<Rightarrow> bytes \<Rightarrow> bytes" where
  "metafile_of H content = concat (map H (file_parts content))"

lemma index_chunks_parts:
  "index_chunks H content store =
     (fold (\<lambda>d. chunk_keep (H d) d) (file_parts content) store,
      map (\<lambda>i. of_nat i + 1) [0..<numFileChunks (length content)], metafile_of H content)"
  by (simp add: index_chunks_eq file_parts_def metafile_of_def comp_def)

lemma indexFile_store:
  assumes "disk fileName = Inr content"
  shows "hashDataMap (fst (indexFile H disk c fileName fh)) =
     fold (\<lambda>d. chunk_keep (H d) d) (file_parts content @ [metafile_of H content]) (hashDataMap fh)"
  using assms by (simp add: indexFile_def index_chunks_parts chunk_keep_def Let_def split: prod.split)

text \<open>
  Indexing a shared file stores its metafile under the file's hash and every chunk under the
  hash the metafile lists; earlier data stays.  It needs that the stored entries are sound and that
  no two of the data involved collide.
\<close>

theorem indexFile_stores:
  assumes "disk fileName = Inr content" and "store_sound H (hashDataMap fh)"
    and "inj_on H (set (file_parts content) \<union> {metafile_of H content} \<union> store_data (hashDataMap fh))"
  shows "let store = hashDataMap (fst (indexFile H disk c fileName fh))
    in store_sound H store
     \<and> chunk_fetch store (H (metafile_of H content)) = Some (metafile_of H content)
     \<and> (\<forall>i < numFileChunks (length content).
          chunk_fetch store (H (partBuffer content i)) = Some (partBuffer content i))
     \<and> (\<forall>h d. chunk_fetch (hashDataMap fh) h = Some d \<longrightarrow> chunk_fetch store h = Some d)"
proof -
  have "inj_on H (set (file_parts content @ [metafile_of H content]) \<union> store_data (hashDataMap fh))"
    using assms(3) by simp
  note k = chunks.fold_keep [of H "hashDataMap fh", unfolded chunks_sound chunks_contents, OF assms(2) this]
  show ?thesis
    using k by (simp add: indexFile_store [of disk fileName content, OF assms(1)] Let_def file_parts_def)
qed

lemma sample_file_parts: "file_parts [b] = [[b]]"
  by (simp add: file_parts_def numFileChunks_def partBuffer_def fileChunk_def)

theorem indexFile_stores_witness:
  "let H = (\<lambda>m. of_nat (length m) # replicate 31 1);
       store = hashDataMap (fst (indexFile H (\<lambda>_. Inr [7]) initial_config ''f'' NewFileHandler))
   in chunk_fetch store (H (H [7])) = Some (H [7])
      \<and> chunk_fetch store (H (partBuffer [7] 0)) = Some (partBuffer [7] 0)"
proof -
  let ?H = "\<lambda>m :: bytes. of_nat (length m) # replicate 31 1 :: bytes"
  have m: "metafile_of ?H [7] = ?H [7]" by (simp add: metafile_of_def sample_file_parts)
  have "inj_on ?H (set (file_parts [7]) \<union> {metafile_of ?H [7]} \<union> store_data (hashDataMap NewFileHandler))"
    unfolding m by (simp add: sample_file_parts store_data_def chunk_fetch_def NewFileHandler_def)
  moreover have "store_sound ?H (hashDataMap NewFileHandler)"
    by (simp add: store_sound_def chunk_fetch_def NewFileHandler_def)
  moreover have "0 < numFileChunks (length [7 :: byte])" by (simp add: numFileChunks_def fileChunk_def)
  ultimately show ?thesis
    using indexFile_stores [of "\<lambda>_. Inr [7]" "''f''" "[7]" ?H NewFileHandler initial_config]
    unfolding Let_def m by simp
qed

text \<open>What \<open>indexFile\<close> records and announces, on each of its branches.\<close>

lemma LoadOrStore_result:
  "fst (snd (LoadOrStore k v m)) = (case fmlookup m k of None \<Rightarrow> v | Some w \<Rightarrow> w)"
  "snd (snd (LoadOrStore k v m)) \<longleftrightarrow> fmlookup m k \<noteq> None"
  "fmlookup (fst (LoadOrStore k v m)) k' = (if k' = k \<and> fmlookup m k = None then Some v else fmlookup m k')"
  by (auto simp: LoadOrStore_def split: option.split)

definition indexed_metadata :: "(bytes \<Rightarrow> bytes) \<Rightarrow> string \<Rightarrow> bytes \<Rightarrow> file_metadata" where
  "indexed_metadata H fileName content =
     \<lparr>FileName = fileName, MetafileHash = H (metafile_of H content),
      ChunkCount = of_nat (numFileChunks (length content)),
      ChunkMap = map (\<lambda>i. of_nat i + 1) [0..<numFileChunks (length content)],
      FileSize = int (length content)\<rparr>"

definition file_key :: "(bytes \<Rightarrow> bytes) \<Rightarrow> bytes \<Rightarrow> string \<Rightarrow> string" where
  "file_key H metaHash fileName = getKeyFromString H (hex_encode metaHash @ fileName)"

text \<open>
  A file that cannot be opened changes nothing, and the error is printed.  A file indexed for the first time gets exactly
  its metadata recorded and is announced once: published for agreement in the block modes, shown to
  the interface otherwise; indexing it again announces nothing unless consensus mode is on.
\<close>

theorem indexFile_announces:
  "(\<forall>err. disk fileName = Inl err \<longrightarrow> indexFile H disk c fileName fh = (fh, [Println err])) \<and>
   (\<forall>content. disk fileName = Inr content \<longrightarrow>
     (let meta = indexed_metadata H fileName content;
          key = file_key H (H (metafile_of H content)) fileName;
          (fh', out) = indexFile H disk c fileName fh
      in (case fmlookup (filesMetadata fh) key of
            None \<Rightarrow> fmlookup (filesMetadata fh') key = Some meta
              \<and> out = (if hw3ex2Mode c \<or> hw3ex3Mode c \<or> hw3ex4Mode c
                        then [Go (CreateAndPublishTxBlock meta)] else [GoSend (ToFilesIndexed (gui_of meta))])
          | Some old \<Rightarrow> filesMetadata fh' = filesMetadata fh
              \<and> out = (if hw3ex4Mode c then [Go (CreateAndPublishTxBlock old)] else []))))"
  by (auto simp: indexFile_def index_chunks_parts Let_def LoadOrStore_def file_key_def indexed_metadata_def
      split: option.splits)

theorem indexFile_announces_witness:
  "let meta = indexed_metadata (\<lambda>_. [1]) ''f'' [7];
       (fh', out) = indexFile (\<lambda>_. [1]) (\<lambda>_. Inr [7]) initial_config ''f'' NewFileHandler
   in fmlookup (filesMetadata fh') (file_key (\<lambda>_. [1]) [1] ''f'') = Some meta
      \<and> out = [GoSend (ToFilesIndexed (gui_of meta))]"
  using indexFile_announces [of "\<lambda>_. Inr [7]" "''f''" "\<lambda>_. [1]" initial_config NewFileHandler, THEN conjunct2, rule_format, OF refl]
  by (simp add: NewFileHandler_def initial_config_def Let_def split: prod.splits)

section \<open>Chunk maps and owners\<close>

lemma metafile_hash_ok:
  "32 * Suc i \<le> length metafile \<Longrightarrow> metafile_hash metafile i = Inr (take 32 (drop (i * 32) metafile))"
  by (simp add: metafile_hash_def go_simps)

text \<open>The hash of a chunk in a metafile of a file that was indexed.\<close>

lemma concat_block:
  assumes "\<And>x. x \<in> set xs \<Longrightarrow> length (f x) = n" and "i < length xs"
  shows "take n (drop (i * n) (concat (map f xs))) = f (xs ! i)"
  using assms
proof (induction xs arbitrary: i)
  case (Cons x xs)
  then show ?case by (cases i) (auto simp: drop_append)
qed simp

lemma length_metafile_of:
  assumes "hash_function H"
  shows "length (metafile_of H content) = 32 * numFileChunks (length content)"
  using hash_function.length_H [OF assms]
  by (simp add: metafile_of_def file_parts_def length_concat_const [where n = 32] comp_def)

lemma metafile_of_hash:
  assumes "hash_function H" and "i < numFileChunks (length content)"
  shows "metafile_hash (metafile_of H content) i = Inr (H (partBuffer content i))"
proof -
  have "take 32 (drop (i * 32) (metafile_of H content)) = H (file_parts content ! i)"
    unfolding metafile_of_def
    using assms hash_function.length_H [OF assms(1)] by (intro concat_block) (simp_all add: file_parts_def)
  then show ?thesis
    using assms length_metafile_of [OF assms(1), of content]
    by (simp add: metafile_hash_ok file_parts_def)
qed

lemma updateChunkMap_loop_spec:
  assumes "is_order ord" and "\<forall>i \<in> set is. 32 * Suc i \<le> length metafile"
  shows "\<exists>cm'. updateChunkMap_loop ord store metafile is cm = Inr cm'
    \<and> set cm' = set cm \<union> {of_nat i + 1 | i. i \<in> set is \<and> chunk_fetch store (take 32 (drop (i * 32) metafile)) \<noteq> None}
    \<and> (distinct cm \<longrightarrow> distinct cm')"
  using assms(2)
proof (induction "is" arbitrary: cm)
  case (Cons i "is")
  let ?h = "take 32 (drop (i * 32) metafile)"
  define cm1 where "cm1 = (case fmlookup store (hex_encode ?h) of None \<Rightarrow> cm
     | Some _ \<Rightarrow> RemoveDuplicatesFromUint64Slice ord (InsertToSortUint64Slice cm (of_nat i + 1)))"
  have s: "set cm1 = set cm \<union> (if chunk_fetch store ?h = None then {} else {of_nat i + 1})"
    "distinct cm \<longrightarrow> distinct cm1"
    using RemoveDuplicatesFromUint64Slice_set [OF assms(1)] RemoveDuplicatesFromUint64Slice_distinct [OF assms(1)]
    by (auto simp: cm1_def chunk_fetch_def split: option.split)
  obtain cm' where "updateChunkMap_loop ord store metafile is cm1 = Inr cm'"
    "set cm' = set cm1 \<union> {of_nat i + 1 | i. i \<in> set is \<and> chunk_fetch store (take 32 (drop (i * 32) metafile)) \<noteq> None}"
    "distinct cm1 \<longrightarrow> distinct cm'"
    using Cons by (meson list.set_intros(2))
  moreover have "metafile_hash metafile i = Inr ?h" using Cons.prems by (simp add: metafile_hash_ok)
  ultimately show ?case
    using s by (intro exI [of _ cm']) (auto simp: cm1_def [symmetric])
qed simp



definition owners_of :: "file_handler \<Rightarrow> bytes \<Rightarrow> string list" where
  "owners_of fh h = (case fmlookup (chunkOwners fh) (hex_encode h) of None \<Rightarrow> [] | Some l \<Rightarrow> l)"

text \<open>The hash the metafile gives for chunk number \<open>e\<close>, counted from 1.\<close>

definition chunk_hash :: "bytes \<Rightarrow> u64 \<Rightarrow> bytes" where
  "chunk_hash metafile e = take 32 (drop (32 * (unat e - 1)) metafile)"

lemma unat_chunk_bounds:
  assumes "(1::u64) \<le> e" "32 * unat e \<le> n" "n < 2 ^ 64"
  shows "unat (e * 32) = 32 * unat e" "unat ((e - 1) * 32) = 32 * (unat e - 1)"
proof -
  have "0 < e" using assms(1) by unat_arith
  then have e: "unat (e - 1) = unat e - 1" by (rule unat_pred)
  have "32 * unat e < 2 ^ 64" using assms by simp
  then show "unat (e * 32) = 32 * unat e"
    by (simp add: unat_word_ariths(2) mult.commute)
  have "unat ((e - 1) * 32) = (unat e - 1) * 32 mod 2 ^ 64"
    unfolding unat_word_ariths(2) e by simp
  with \<open>32 * unat e < 2 ^ 64\<close> show "unat ((e - 1) * 32) = 32 * (unat e - 1)"
    by (simp only: mult.commute [of _ 32]) simp
qed

lemma slice_chunk:
  assumes "(1::u64) \<le> e" "32 * unat e \<le> length metafile" "length metafile < 2 ^ 64"
  shows "go_slice (unat ((e - 1) * 32)) (unat (e * 32)) metafile = Inr (chunk_hash metafile e)"
proof -
  have "0 < unat e" using assms(1) by unat_arith
  then have "32 * unat e - 32 * (unat e - 1) = 32" by arith
  then show ?thesis
    using assms(2) unfolding unat_chunk_bounds [OF assms] by (auto simp: go_simps chunk_hash_def)
qed

lemma owner_loop_spec:
  assumes "is_order ord" "length metafile < 2 ^ 64"
    and "\<forall>e \<in> set cm. 1 \<le> e \<and> 32 * unat e \<le> length metafile"
  shows "\<exists>owners'. updateChunkOwner_loop ord dest metafile cm owners = Inr owners'
    \<and> (\<forall>k. set (case fmlookup owners' k of None \<Rightarrow> [] | Some l \<Rightarrow> l)
          = set (case fmlookup owners k of None \<Rightarrow> [] | Some l \<Rightarrow> l)
            \<union> (if k \<in> (\<lambda>e. hex_encode (chunk_hash metafile e)) ` set cm then {dest} else {}))"
  using assms(3)
proof (induction cm arbitrary: owners)
  case (Cons e cm)
  let ?o = "add_owner ord (hex_encode (chunk_hash metafile e)) dest owners"
  obtain owners' where o: "updateChunkOwner_loop ord dest metafile cm ?o = Inr owners'"
    "\<forall>k. set (case fmlookup owners' k of None \<Rightarrow> [] | Some l \<Rightarrow> l)
        = set (case fmlookup ?o k of None \<Rightarrow> [] | Some l \<Rightarrow> l)
          \<union> (if k \<in> (\<lambda>e. hex_encode (chunk_hash metafile e)) ` set cm then {dest} else {})"
    using Cons by (meson list.set_intros(2))
  have "go_slice (unat ((e - 1) * 32)) (unat (e * 32)) metafile = Inr (chunk_hash metafile e)"
    using Cons.prems assms(2) by (intro slice_chunk) auto
  then show ?case
    using o by (intro exI [of _ owners'])
      (auto simp: add_owner_def RemoveDuplicatesFromStringSlice_set [OF assms(1)])
qed simp

text \<open>
  For a chunk map whose entries number chunks of the metafile, \<open>updateChunkOwnerMap\<close> succeeds
  and makes the peer an owner of exactly those chunks; an entry 0 ends the process with a slice
  bounds panic, whatever the metafile.
\<close>

theorem updateChunkOwnerMap_correct:
  assumes "is_order ord"
  shows "(length metafile < 2 ^ 64 \<and> (\<forall>e \<in> set cm. 1 \<le> e \<and> 32 * unat e \<le> length metafile) \<longrightarrow>
      (\<exists>fh'. updateChunkOwnerMap ord peer cm metafile fh = Inr fh'
        \<and> (\<forall>h. set (owners_of fh' h) = set (owners_of fh h)
              \<union> (if h \<in> chunk_hash metafile ` set cm then {peer} else {}))))
    \<and> updateChunkOwnerMap ord peer (0 # cm) metafile fh = Inl OutOfRange"
proof (intro conjI impI)
  assume a: "length metafile < 2 ^ 64 \<and> (\<forall>e \<in> set cm. 1 \<le> e \<and> 32 * unat e \<le> length metafile)"
  obtain owners where o: "updateChunkOwner_loop ord peer metafile cm (chunkOwners fh) = Inr owners"
    "\<forall>k. set (case fmlookup owners k of None \<Rightarrow> [] | Some l \<Rightarrow> l)
        = set (case fmlookup (chunkOwners fh) k of None \<Rightarrow> [] | Some l \<Rightarrow> l)
          \<union> (if k \<in> (\<lambda>e. hex_encode (chunk_hash metafile e)) ` set cm then {peer} else {})"
    using owner_loop_spec [OF assms conjunct1 [OF a] conjunct2 [OF a], of peer "chunkOwners fh"] by blast
  then show "\<exists>fh'. updateChunkOwnerMap ord peer cm metafile fh = Inr fh'
        \<and> (\<forall>h. set (owners_of fh' h) = set (owners_of fh h)
              \<union> (if h \<in> chunk_hash metafile ` set cm then {peer} else {}))"
    by (intro exI [of _ "fh\<lparr>chunkOwners := owners\<rparr>"])
      (auto simp: updateChunkOwnerMap_def owners_of_def image_iff)
qed (simp add: updateChunkOwnerMap_def go_slice_def)

theorem updateChunkOwnerMap_correct_witness:
  "is_order (sorted_list_of_fset :: string fset \<Rightarrow> string list) \<and>
   updateChunkOwnerMap sorted_list_of_fset ''P'' [0] (replicate 32 7) NewFileHandler = Inl OutOfRange"
  using updateChunkOwnerMap_correct [OF sorted_is_order, of "replicate 32 7" "[]" "''P''" NewFileHandler]
  by (simp add: sorted_is_order)

lemma all_located_spec:
  assumes "\<forall>i \<in> set is. 32 * Suc i \<le> length metafile"
  shows "all_located (chunkOwners fh) metafile is =
     Inr (\<forall>i \<in> set is. owners_of fh (take 32 (drop (i * 32) metafile)) \<noteq> [])"
  using assms by (induction "is") (auto simp: metafile_hash_ok owners_of_def split: option.split)

text \<open>
  \<open>checkAllChunksLocation\<close> says yes exactly when the metafile is stored and every chunk it
  lists has a known owner.
\<close>

theorem checkAllChunksLocation_correct:
  assumes "\<And>metafile. chunk_fetch (hashDataMap fh) (MetafileHash fm) = Some metafile \<Longrightarrow>
      32 * unat (ChunkCount fm) \<le> length metafile"
  shows "checkAllChunksLocation fh fm = Inr
     (\<exists>metafile. chunk_fetch (hashDataMap fh) (MetafileHash fm) = Some metafile
        \<and> (\<forall>i < unat (ChunkCount fm). owners_of fh (take 32 (drop (i * 32) metafile)) \<noteq> []))"
proof (cases "chunk_fetch (hashDataMap fh) (MetafileHash fm)")
  case None
  then show ?thesis by (simp add: checkAllChunksLocation_def chunk_fetch_def)
next
  case (Some metafile)
  then have "\<forall>i \<in> set [0..<unat (ChunkCount fm)]. 32 * Suc i \<le> length metafile"
    using assms [OF Some] by auto
  from all_located_spec [OF this, of fh] Some show ?thesis
    by (auto simp: checkAllChunksLocation_def chunk_fetch_def)
qed

theorem checkAllChunksLocation_correct_witness:
  "checkAllChunksLocation NewFileHandler
     \<lparr>FileName = ''f'', MetafileHash = [], ChunkCount = 1, ChunkMap = [], FileSize = 0\<rparr> = Inr False"
  by (subst checkAllChunksLocation_correct) (simp_all add: chunk_fetch_def NewFileHandler_def)

end
