(* ===== verification/Gossiper.thy ===== *)
theory Gossiper
  imports GossipStore Blockchain FileStore
begin

text \<open>
  \<open>gossiper/gossiper.go\<close>: the state of a node, and \<open>gossiper/printhandler.go\<close>: the lines it
  prints (the prints behind the \<open>debug\<close> flag are left out).  The package's flags are the field
  \<open>config\<close>.  A channel's content is not state: what is put on a channel is an effect of the
  handler that puts it there, and the handler that reads it is run on it.  Of the channels kept per
  peer for status packets the state has the peers that have one.
\<close>

record gossiper =
  node_name :: string
  config :: app_config
  gossiperAddress :: udp_addr
  peersData :: peers_data
  gossipHandler :: gossip_handler
  statusChannels :: "string fset"
  routingHandler :: routing_handler
  fileHandler :: file_handler
  blockchainHandler :: blockchain_handler

definition NewGossiper ::
  "(string \<Rightarrow> udp_addr option) \<Rightarrow> app_config \<Rightarrow> string \<Rightarrow> udp_addr \<Rightarrow> string \<Rightarrow> u64 \<Rightarrow> gossiper" where
  "NewGossiper resolve c nm address peers peersNum =
     \<lparr>node_name = nm, config = c, gossiperAddress = address,
      peersData = createPeersData resolve peers peersNum,
      gossipHandler = NewGossipHandler, statusChannels = {||},
      routingHandler = NewRoutingHandler, fileHandler = NewFileHandler,
      blockchainHandler = NewBlockchainHandler\<rparr>"

definition GetRound :: "gossiper \<Rightarrow> u32" where
  "GetRound g = myTime (blockchainHandler g)"

definition GetName :: "gossiper \<Rightarrow> string" where
  "GetName g = node_name g"

abbreviation known_peers :: "gossiper \<Rightarrow> udp_addr list" where
  "known_peers g \<equiv> GetPeers (peersData g)"

text \<open>A handler may panic; else it gives the new state and its effects in order.\<close>

type_synonym outcome = "(gossiper \<times> effect list) res"

section \<open>Printing\<close>

abbreviation show_u32 :: "u32 \<Rightarrow> string" where "show_u32 w \<equiv> dec (unat w)"
abbreviation show_u64 :: "u64 \<Rightarrow> string" where "show_u64 w \<equiv> dec (unat w)"

text \<open>\<open>message[:len(message)-n]\<close>, for messages longer than \<open>n\<close>.\<close>

definition cut_last :: "nat \<Rightarrow> string \<Rightarrow> string" where
  "cut_last n s = take (length s - n) s"

definition printPeers :: "app_config \<Rightarrow> udp_addr list \<Rightarrow> effect list" where
  "printPeers c peers =
     (if hw1 c then [Println (''PEERS '' @ str_join '','' (GetArrayStringFromAddresses peers))] else [])"

definition printStatusMessage ::
  "app_config \<Rightarrow> udp_addr \<Rightarrow> peer_status list \<Rightarrow> udp_addr list \<Rightarrow> effect list" where
  "printStatusMessage c sender want peers =
     (let message = ''STATUS from '' @ addr_string sender @ '' '' @
            concat (map (\<lambda>v. ''peer '' @ Identifier v @ '' nextID '' @ show_u32 (NextID v) @ '' '') want)
      in if hw1 c then Println (cut_last 1 message) # printPeers c peers else [])"

definition printSearchMatchMessage :: "app_config \<Rightarrow> string \<Rightarrow> search_result \<Rightarrow> effect list" where
  "printSearchMatchMessage c origin res =
     (let message = ''FOUND match '' @ sres_FileName res @ '' at '' @ origin @ '' metafile='' @
            hex_encode (sres_MetafileHash res) @ '' chunks='' @
            concat (map (\<lambda>elem. show_u64 elem @ '','') (sres_ChunkMap res))
      in if hw3 c then [Println (cut_last 1 message)] else [])"

definition tlc_text :: "tlc_message \<Rightarrow> string" where
  "tlc_text t = ''GOSSIP origin '' @ tlc_Origin t @ '' ID '' @ show_u32 (tlc_ID t) @
     '' filename '' @ tx_Name (Transaction (tlc_TxBlock t)) @
     '' size '' @ dec_int (tx_Size (Transaction (tlc_TxBlock t))) @
     '' metahash '' @ hex_encode (tx_MetafileHash (Transaction (tlc_TxBlock t)))"

definition printPeerMessage :: "app_config \<Rightarrow> ext_packet \<Rightarrow> udp_addr list \<Rightarrow> effect list" where
  "printPeerMessage c e peers =
     (let p = Packet e; typePacket = getTypeFromGossip p
      in (if typePacket = ''simple'' then
            (let m = the (Simple p)
             in if hw1 c then [Println (''SIMPLE MESSAGE origin '' @ simple_OriginalName m @ '' from '' @
                  simple_RelayPeerAddr m @ '' contents '' @ simple_Contents m)] else [])
          else if typePacket = ''private'' then
            (let m = the (Private p)
             in if hw2 c then [Println (''PRIVATE origin '' @ priv_Origin m @ '' hop-limit '' @
                  show_u32 (priv_HopLimit m) @ '' contents '' @ priv_Text m)] else [])
          else if typePacket = ''rumor'' then
            (let m = the (Rumor p)
             in [Println (''RUMOR origin '' @ rumor_Origin m @ '' from '' @ addr_string (SenderAddr e) @
                  '' ID '' @ show_u32 (rumor_ID m) @ '' contents '' @ rumor_Text m)])
          else if typePacket = ''tlcMes'' then
            (let m = the (TLCMessage p)
             in if -1 < tlc_Confirmed m
                then [Println (''CONFIRMED '' @ tlc_text m), GoSend (ToBlockchainLogs (''CONFIRMED '' @ tlc_text m))]
                else [Println (''UNCONFIRMED '' @ tlc_text m)])
          else []) @ printPeers c peers)"

definition printClientMessage :: "app_config \<Rightarrow> client_message \<Rightarrow> udp_addr list \<Rightarrow> effect list" where
  "printClientMessage c m peers =
     Println (''CLIENT MESSAGE '' @ Text m @
       (case Destination m of Some d \<Rightarrow> '' dest '' @ d | None \<Rightarrow> [])) # printPeers c peers"

definition printDownloadMessage :: "string \<Rightarrow> string \<Rightarrow> u64 \<Rightarrow> effect list" where
  "printDownloadMessage fileName dest seqNum =
     (if seqNum = 0 then [Println (''DOWNLOADING metafile of '' @ fileName @ '' from '' @ dest)]
      else [Println (''DOWNLOADING '' @ fileName @ '' chunk '' @ show_u64 seqNum @ '' from '' @ dest)])"

text \<open>The confirmations are numbered from 1 in the order the map is visited.\<close>

fun round_items :: "nat \<Rightarrow> (string \<times> tlc_message) list \<Rightarrow> string" where
  "round_items i [] = []"
| "round_items i ((key, m) # rest) =
     ''origin'' @ dec i @ '' '' @ key @ '' ID'' @ dec i @ '' '' @ show_u32 (tlc_ID m) @ '', '' @
     round_items (Suc i) rest"

definition printRoundMessage ::
  "(string fset \<Rightarrow> string list) \<Rightarrow> app_config \<Rightarrow> u32 \<Rightarrow> tlc_map \<Rightarrow> effect list" where
  "printRoundMessage ord c rnd confs =
     (let message = ''ADVANCING TO round '' @ show_u32 rnd @ '' BASED ON CONFIRMED MESSAGES '' @
            round_items 1 (map (\<lambda>k. (k, the (fmlookup confs k))) (ord (fmdom confs)))
      in if hw3ex3Mode c
         then [Println (cut_last 2 message), GoSend (ToBlockchainLogs (cut_last 2 message))] else [])"

definition printConfirmMessage ::
  "(string fset \<Rightarrow> string list) \<Rightarrow> app_config \<Rightarrow> u32 \<Rightarrow> string fset \<Rightarrow> effect list" where
  "printConfirmMessage ord c mid witnesses =
     (let message = ''RE-BROADCAST ID '' @ show_u32 mid @ '' WITNESSES '' @
            concat (map (\<lambda>key. key @ '', '') (ord witnesses))
      in if hw3ex2Mode c then [Println (cut_last 2 message)] else [])"

text \<open>\<open>printConsensusMessage\<close> walks the chain: the outer option is a walk that never ends.\<close>

definition printConsensusMessage :: "blockchain_handler \<Rightarrow> tlc_message \<Rightarrow> effect list res option" where
  "printConsensusMessage bh tlcChosen =
     map_option (\<lambda>r. res_bind r (\<lambda>filenames.
       let message = ''CONSENSUS ON QSC round '' @ show_u32 (myTime bh) @ '' message origin '' @
             tlc_Origin tlcChosen @ '' ID '' @ show_u32 (tlc_ID tlcChosen) @ '' filenames '' @ filenames @
             ''size '' @ dec_int (tx_Size (Transaction (tlc_TxBlock tlcChosen))) @
             '' metahash '' @ hex_encode (tx_MetafileHash (Transaction (tlc_TxBlock tlcChosen)))
       in Inr [Println message, GoSend (ToBlockchainLogs message)]))
     (consensus_names (committedHistory bh) (topBlockchainHash bh) [])"

text \<open>Printing sends no packet.\<close>

lemma print_sends_nothing [simp]:
  "packets_of (printPeers c ps) = []"
  "packets_of (printStatusMessage c a want ps) = []"
  "packets_of (printSearchMatchMessage c origin res) = []"
  "packets_of (printPeerMessage c e ps) = []"
  "packets_of (printClientMessage c m ps) = []"
  "packets_of (printDownloadMessage f dest n) = []"
  "packets_of (printRoundMessage ord c r conf) = []"
  "packets_of (printConfirmMessage ord c i w) = []"
  by (simp_all add: printPeers_def printStatusMessage_def printSearchMatchMessage_def printPeerMessage_def
      printClientMessage_def printDownloadMessage_def printRoundMessage_def printConfirmMessage_def Let_def)

text \<open>The tasks a handler starts; printing starts none.\<close>

fun tasks_of :: "effect list \<Rightarrow> task list" where
  "tasks_of [] = []"
| "tasks_of (Go t # es) = t # tasks_of es"
| "tasks_of (_ # es) = tasks_of es"

lemma tasks_of_append [simp]: "tasks_of (xs @ ys) = tasks_of xs @ tasks_of ys"
  by (induction xs rule: tasks_of.induct) auto

lemma tasks_of_simps [simp]:
  "tasks_of (map Println ls) = []" "tasks_of (sends ps) = []"
  by (induction ls, simp_all add: sends_def, induction ps) auto

lemma print_starts_nothing [simp]:
  "tasks_of (printPeers c ps) = []"
  "tasks_of (printStatusMessage c a want ps) = []"
  "tasks_of (printSearchMatchMessage c origin res) = []"
  "tasks_of (printPeerMessage c e ps) = []"
  "tasks_of (printClientMessage c m ps) = []"
  "tasks_of (printDownloadMessage f dest n) = []"
  "tasks_of (printRoundMessage ord c r conf) = []"
  "tasks_of (printConfirmMessage ord c i w) = []"
  by (simp_all add: printPeers_def printStatusMessage_def printSearchMatchMessage_def printPeerMessage_def
      printClientMessage_def printDownloadMessage_def printRoundMessage_def printConfirmMessage_def Let_def)

end
