(* ===== verification/Gossip.thy ===== *)
theory Gossip
  imports Gossiper
begin

text \<open>
  The gossip protocol: the handlers of \<open>gossiper/gossiphandler.go\<close> and
  \<open>gossiper/rumormongering.go\<close>, the sending and dispatching of \<open>gossiper/connectionhandler.go\<close> and
  the periodic rumors of \<open>gossiper/routinghandler.go\<close>.  A goroutine that waits (for a status
  packet, for a timer) is a record of its local state with a function from the event that wakes it.
\<close>

section \<open>Sending and dispatching\<close>

definition broadcastToPeers :: "ext_packet \<Rightarrow> udp_addr list \<Rightarrow> effect list" where
  "broadcastToPeers e peers =
     sends (map (\<lambda>peer. (Packet e, peer))
       (filter (\<lambda>peer. addr_string peer \<noteq> addr_string (SenderAddr e)) peers))"

text \<open>
  The body of \<open>receivePacketsFromPeers\<close> for one datagram.  \<open>decode\<close> is \<open>protobuf.Decode\<close> into
  an empty packet: the packet and the error message printed, if any.  The type is compared with a
  misspelt name, so a packet of type \<open>unknown\<close> goes on to the channel of that name.
\<close>

definition receivePacketsFromPeers ::
  "(bytes \<Rightarrow> gossip_packet \<times> string option) \<Rightarrow> bytes \<Rightarrow> udp_addr \<Rightarrow> gossiper \<Rightarrow> gossiper \<times> effect list" where
  "receivePacketsFromPeers decode packetBytes addr g =
     (let g' = g\<lparr>peersData := AddPeer addr (peersData g)\<rparr>;
          (packetFromPeer, err) = decode packetBytes;
          errs = (case err of None \<Rightarrow> [] | Some m \<Rightarrow> [Println m]);
          modeType = getTypeFromGossip packetFromPeer
      in (g', errs @
          (if modeType \<noteq> ''unknwon'' then
             (if (modeType = ''simple'' \<and> simpleMode (config g)) \<or> (modeType \<noteq> ''simple'' \<and> \<not> simpleMode (config g))
              then [GoSend (ToPacketChannel modeType \<lparr>Packet = packetFromPeer, SenderAddr = addr\<rparr>)]
              else [Println ''ERROR: message can't be accepted in this operation mode''])
           else [])))"

definition receivePacketsFromClient ::
  "(bytes \<Rightarrow> client_message) \<Rightarrow> bytes \<Rightarrow> effect list" where
  "receivePacketsFromClient decode packetBytes = [GoSend (ToClientChannel (decode packetBytes))]"

section \<open>Gossip messages\<close>

definition handleGossipMessage ::
  "(string fset \<Rightarrow> string list) \<Rightarrow> ext_packet \<Rightarrow> string \<Rightarrow> u32 \<Rightarrow> gossiper \<Rightarrow> outcome" where
  "handleGossipMessage ord e origin mid g =
     (let prints = printPeerMessage (config g) e (known_peers g);
          packetType = getTypeFromGossip (Packet e)
      in res_bind
          (if origin \<noteq> node_name g then
             (let textMessage = (if packetType = ''rumor'' then rumor_Text (the (Rumor (Packet e))) else []);
                  (rh, dsdv) = updateRoutingTable (config g) origin textMessage mid (SenderAddr e) (routingHandler g)
              in res_bind (storeMessage (Packet e) origin mid (gossipHandler g)) (\<lambda>(known, gh).
                   Inr (known, g\<lparr>routingHandler := rh, gossipHandler := gh\<rparr>, map Println dsdv)))
           else Inr (True, g, []))
          (\<lambda>(isMessageKnown, g', dsdv).
             let status = empty_packet\<lparr>Status := Some (createMyStatusPacket ord (myStatus (gossipHandler g')))\<rparr>;
                 news = (if \<not> isMessageKnown then
                           (if packetType = ''rumor'' \<and> rumor_Text (the (Rumor (Packet e))) \<noteq> []
                            then [GoSend (ToLatestRumors (the (Rumor (Packet e))))] else [])
                           @ [Go (StartRumorMongering e origin mid)]
                         else [])
             in Inr (g', prints @ dsdv @ SendPacket status (SenderAddr e) # news)))"

definition createRumorMessage :: "string \<Rightarrow> gossiper \<Rightarrow> (ext_packet \<times> gossiper \<times> effect list) res" where
  "createRumorMessage content g =
     (let mid = seqID (gossipHandler g);
          gh = (gossipHandler g)\<lparr>seqID := mid + 1\<rparr>;
          rumorPacket = \<lparr>rumor_Origin = node_name g, rumor_ID = mid, rumor_Text = content\<rparr>;
          e = \<lparr>Packet = empty_packet\<lparr>Rumor := Some rumorPacket\<rparr>, SenderAddr = gossiperAddress g\<rparr>
      in res_bind (storeMessage (Packet e) (node_name g) mid gh) (\<lambda>(_, gh').
           Inr (e, g\<lparr>gossipHandler := gh'\<rparr>,
                if content \<noteq> [] then [GoSend (ToLatestRumors rumorPacket)] else [])))"

text \<open>
  \<open>createTLCMessage\<close> of \<open>blockchainhandler.go\<close>: numbered like a rumor.  The vector clock is taken
  before the message is stored.
\<close>

definition createTLCMessage ::
  "(string fset \<Rightarrow> string list) \<Rightarrow> block_publish \<Rightarrow> int \<Rightarrow> float32 \<Rightarrow> gossiper \<Rightarrow> (ext_packet \<times> gossiper) res" where
  "createTLCMessage ord block confirmedFlag fitness g =
     (let mid = seqID (gossipHandler g);
          gh = (gossipHandler g)\<lparr>seqID := mid + 1\<rparr>;
          tlcPacket = \<lparr>tlc_Origin = node_name g, tlc_ID = mid, tlc_Confirmed = confirmedFlag,
            tlc_TxBlock = block, tlc_VectorClock = Some (createMyStatusPacket ord (myStatus gh)),
            tlc_Fitness = fitness\<rparr>;
          e = \<lparr>Packet = empty_packet\<lparr>TLCMessage := Some tlcPacket\<rparr>, SenderAddr = gossiperAddress g\<rparr>
      in res_bind (storeMessage (Packet e) (node_name g) mid gh) (\<lambda>(_, gh').
           Inr (e, g\<lparr>gossipHandler := gh'\<rparr>)))"

section \<open>Status packets\<close>

text \<open>
  \<open>handlePeerStatus\<close> for one packet of the channel.  The two ranges over the clock may visit it in
  different orders.
\<close>

definition handlePeerStatus ::
  "(string fset \<Rightarrow> string list) \<Rightarrow> (string fset \<Rightarrow> string list) \<Rightarrow> ext_packet \<Rightarrow> gossiper \<Rightarrow> outcome" where
  "handlePeerStatus ord ord' e g =
     (let gh = gossipHandler g; notify = Go (NotifyListeners e)
      in res_bind (of_option NilAssertion (Status (Packet e))) (\<lambda>st.
           case getPeerStatusForPeer ord (myStatus gh) (Want st) of
             Some toSend \<Rightarrow>
               res_bind (getPacketFromPeerStatus (messageStorage gh) toSend) (\<lambda>packetToSend.
                 Inr (g, [notify, SendPacket packetToSend (SenderAddr e)]))
           | None \<Rightarrow>
               if checkIfINeedPeerStatus (myStatus gh) (Want st)
               then Inr (g, [notify, SendPacket
                      (empty_packet\<lparr>Status := Some (createMyStatusPacket ord' (myStatus gh))\<rparr>) (SenderAddr e)])
               else Inr (g, notify #
                      (if hw1 (config g) then [Println (''IN SYNC WITH '' @ addr_string (SenderAddr e))] else []))))"

text \<open>The goroutine started by the handler: the listeners are notified.\<close>

definition run_notifyListeners :: "ext_packet \<Rightarrow> gossiper \<Rightarrow> gossiper" where
  "run_notifyListeners e g =
     (case Status (Packet e) of
        None \<Rightarrow> g
      | Some st \<Rightarrow> g\<lparr>gossipHandler := (gossipHandler g)\<lparr>mongeringChannels :=
          notifyListenersForStatus (addr_string (SenderAddr e)) (Want st) (mongeringChannels (gossipHandler g))\<rparr>\<rparr>)"

text \<open>One tick of the timer of \<open>startAntiEntropy\<close>, which runs if the timeout is positive.\<close>

definition startAntiEntropy :: "(string fset \<Rightarrow> string list) \<Rightarrow> nat \<Rightarrow> gossiper \<Rightarrow> outcome" where
  "startAntiEntropy ord rnd g =
     (let peersCopy = known_peers g
      in if 0 < antiEntropyTimeout (config g) \<and> length peersCopy \<noteq> 0 then
           res_bind (getRandomPeer rnd peersCopy) (\<lambda>randomPeer.
             Inr (g, [SendPacket (empty_packet\<lparr>Status := Some (createMyStatusPacket ord (myStatus (gossipHandler g)))\<rparr>)
                        randomPeer]))
         else Inr (g, []))"

section \<open>Rumor mongering\<close>

text \<open>
  A mongering goroutine waits in \<open>sendRumorWithTimeout\<close> for a status packet or the timer.  Its
  state is the message, the peer it was sent to and the \<open>flipped\<close> flag.
\<close>

record monger =
  mg_packet :: ext_packet
  mg_origin :: string
  mg_id :: u32
  mg_peer :: udp_addr
  mg_flipped :: bool

definition sendRumorWithTimeout ::
  "ext_packet \<Rightarrow> string \<Rightarrow> u32 \<Rightarrow> udp_addr \<Rightarrow> gossiper \<Rightarrow> gossiper \<times> effect list" where
  "sendRumorWithTimeout e origin mid peer g =
     (let gh = gossipHandler g;
          gh' = gh\<lparr>mongeringChannels := fst (getListenerForStatus origin mid (addr_string peer) (mongeringChannels gh))\<rparr>
      in (g\<lparr>gossipHandler := gh'\<rparr>,
          (if hw1 (config g) then [Println (''MONGERING with '' @ addr_string peer)] else []) @
          [SendPacket (Packet e) peer]))"

definition startRumorMongering ::
  "nat \<Rightarrow> ext_packet \<Rightarrow> string \<Rightarrow> u32 \<Rightarrow> gossiper \<Rightarrow> (gossiper \<times> monger option \<times> effect list) res" where
  "startRumorMongering rnd e origin mid g =
     (let availablePeers = DifferenceString (known_peers g) [SenderAddr e]
      in if length availablePeers \<noteq> 0 then
           res_bind (getRandomPeer rnd availablePeers) (\<lambda>randomPeer.
             let (g', out) = sendRumorWithTimeout e origin mid randomPeer g
             in Inr (g', Some \<lparr>mg_packet = e, mg_origin = origin, mg_id = mid, mg_peer = randomPeer,
                               mg_flipped = False\<rparr>, out))
         else Inr (g, None, []))"

text \<open>
  The goroutine wakes: the listener is deleted, a received status means a coin flip, and coin 0
  means another peer.
\<close>

definition wakeRumorMongering ::
  "bool \<Rightarrow> int \<Rightarrow> nat \<Rightarrow> monger \<Rightarrow> gossiper \<Rightarrow> (gossiper \<times> monger option \<times> effect list) res" where
  "wakeRumorMongering statusReceived randInt rnd m g =
     (let gh = gossipHandler g;
          g1 = g\<lparr>gossipHandler := gh\<lparr>mongeringChannels :=
                 deleteListenerForStatus (mg_origin m) (mg_id m) (addr_string (mg_peer m)) (mongeringChannels gh)\<rparr>\<rparr>;
          coin = (if statusReceived then randInt mod 2 else 0);
          flipped = (statusReceived \<or> mg_flipped m)
      in if coin = 0 then
           (let availablePeers = DifferenceString (known_peers g1) [mg_peer m]
            in if length availablePeers = 0 then Inr (g1, None, [])
               else res_bind (getRandomPeer rnd availablePeers) (\<lambda>randomPeer.
                 let printed = (if flipped \<and> hw1 (config g)
                                then [Println (''FLIPPED COIN sending rumor to '' @ addr_string randomPeer)] else []);
                     (g2, out) = sendRumorWithTimeout (mg_packet m) (mg_origin m) (mg_id m) randomPeer g1
                 in Inr (g2, Some (m\<lparr>mg_peer := randomPeer, mg_flipped := False\<rparr>), printed @ out)))
         else Inr (g1, None, []))"

text \<open>The channel of the listener has a notification.\<close>

definition status_pending :: "monger \<Rightarrow> gossiper \<Rightarrow> bool" where
  "status_pending m g =
     (case Option.bind (fmlookup (mongeringChannels (gossipHandler g)) (addr_string (mg_peer m)))
             (\<lambda>ch. fmlookup ch (mg_origin m, mg_id m)) of
        None \<Rightarrow> False | Some n \<Rightarrow> 0 < n)"

section \<open>Route rumors\<close>

text \<open>\<open>startRouteRumormongering\<close>: the broadcast at start and the step at every tick.\<close>

definition routeRumorStart :: "gossiper \<Rightarrow> outcome" where
  "routeRumorStart g =
     (if 0 < routeRumorTimeout (config g) then
        res_bind (createRumorMessage [] g) (\<lambda>(e, g', out).
          Inr (g', out @ [Go (BroadcastToPeers e (known_peers g'))]))
      else Inr (g, []))"

definition routeRumorTick :: "gossiper \<Rightarrow> outcome" where
  "routeRumorTick g =
     res_bind (createRumorMessage [] g) (\<lambda>(e, g', out).
       Inr (g', out @ [Go (StartRumorMongering e (node_name g')
                             (case Rumor (Packet e) of Some r \<Rightarrow> rumor_ID r | None \<Rightarrow> 0))]))"

section \<open>What the handlers do\<close>

definition status_of :: "(string fset \<Rightarrow> string list) \<Rightarrow> gossip_handler \<Rightarrow> gossip_packet" where
  "status_of ord gh = empty_packet\<lparr>Status := Some (createMyStatusPacket ord (myStatus gh))\<rparr>"

text \<open>
  A node knows its own messages: it has stored those with the numbers it has given out, and only
  those.
\<close>

definition node_inv :: "gossiper \<Rightarrow> bool" where
  "node_inv g \<longleftrightarrow> log_inv (gossipHandler g) \<and> 1 \<le> seqID (gossipHandler g) \<and>
     (\<forall>i. i |\<in>| stored_ids (gossipHandler g) (node_name g) \<longleftrightarrow> 1 \<le> i \<and> i < seqID (gossipHandler g))"

lemma node_inv_log: "node_inv g \<Longrightarrow> log_inv (gossipHandler g)"
  by (simp add: node_inv_def)

lemma stored_ids_new [simp]: "stored_ids NewGossipHandler k = {||}"
  by (simp add: stored_ids_def NewGossipHandler_def)

lemma log_inv_new [simp]: "log_inv NewGossipHandler"
  by (simp add: log_inv_def NewGossipHandler_inv)

lemma NewGossiper_inv: "node_inv (NewGossiper resolve c nm address peers n)"
  by (auto simp: node_inv_def NewGossiper_def) (simp_all add: NewGossipHandler_def)

lemma handleGossipMessage_own:
  "handleGossipMessage ord e (node_name g) mid g =
     Inr (g, printPeerMessage (config g) e (known_peers g) @ [SendPacket (status_of ord (gossipHandler g)) (SenderAddr e)])"
  by (simp add: handleGossipMessage_def status_of_def Let_def)

lemma handleGossipMessage_spec:
  assumes "log_inv (gossipHandler g)" and "mid \<noteq> -1"
  shows "\<exists>g' out. handleGossipMessage ord e origin mid g = Inr (g', out)
    \<and> gossipHandler g' = (if origin = node_name g then gossipHandler g else store_put origin mid (Packet e) (gossipHandler g))
    \<and> routingHandler g' = (if origin = node_name g then routingHandler g
                            else learn (origin, mid, SenderAddr e) (routingHandler g))
    \<and> node_name g' = node_name g \<and> config g' = config g \<and> peersData g' = peersData g
    \<and> packets_of out = [(status_of ord (gossipHandler g'), SenderAddr e)]
    \<and> tasks_of out = (if origin \<noteq> node_name g \<and> mid |\<notin>| stored_ids (gossipHandler g) origin
                       then [StartRumorMongering e origin mid] else [])"
proof (cases "origin = node_name g")
  case True
  then show ?thesis by (simp add: handleGossipMessage_own)
next
  case False
  let ?txt = "if getTypeFromGossip (Packet e) = ''rumor'' then rumor_Text (the (Rumor (Packet e))) else []"
  obtain rh ls where u: "updateRoutingTable (config g) origin ?txt mid (SenderAddr e) (routingHandler g) = (rh, ls)"
    by fastforce
  have rh: "rh = learn (origin, mid, SenderAddr e) (routingHandler g)"
    using updateRoutingTable_fst [of "config g" origin ?txt mid "SenderAddr e" "routingHandler g"] u by simp
  show ?thesis
    using False u rh
    by (auto simp: handleGossipMessage_def storeMessage_log(1) [OF assms] status_of_def Let_def)
qed

lemma node_inv_store:
  assumes "node_inv g" and "mid \<noteq> -1" and "origin \<noteq> node_name g"
    and "gossipHandler g' = store_put origin mid p (gossipHandler g)" and "node_name g' = node_name g"
  shows "node_inv g'"
  using assms storeMessage_log [OF node_inv_log [OF assms(1)] assms(2), where origin = origin and p = p]
  by (simp add: node_inv_def)

text \<open>
  C17: a gossip message is handled without a panic.  It is stored if it comes from another node and
  is new, and exactly then it is mongered on; the sender always gets back one packet, the status
  with the clock after storing; and what is stored and known stays well formed.
\<close>

theorem handleGossipMessage_correct:
  assumes "node_inv g" and "mid \<noteq> -1"
  shows "\<exists>g' out. handleGossipMessage ord e origin mid g = Inr (g', out) \<and> node_inv g'
    \<and> (origin \<noteq> node_name g \<longrightarrow> stored_msg (gossipHandler g') origin mid =
         Some (case stored_msg (gossipHandler g) origin mid of None \<Rightarrow> Packet e | Some q \<Rightarrow> q))
    \<and> (origin = node_name g \<longrightarrow> g' = g)
    \<and> clock_le (myStatus (gossipHandler g)) (myStatus (gossipHandler g'))
    \<and> packets_of out = [(status_of ord (gossipHandler g'), SenderAddr e)]
    \<and> tasks_of out = (if origin \<noteq> node_name g \<and> stored_msg (gossipHandler g) origin mid = None
                       then [StartRumorMongering e origin mid] else [])"
proof -
  note log = node_inv_log [OF assms(1)]
  obtain g' out where h: "handleGossipMessage ord e origin mid g = Inr (g', out)"
    "gossipHandler g' = (if origin = node_name g then gossipHandler g else store_put origin mid (Packet e) (gossipHandler g))"
    "node_name g' = node_name g" "packets_of out = [(status_of ord (gossipHandler g'), SenderAddr e)]"
    "tasks_of out = (if origin \<noteq> node_name g \<and> mid |\<notin>| stored_ids (gossipHandler g) origin
                       then [StartRumorMongering e origin mid] else [])"
    using handleGossipMessage_spec [OF log assms(2)] by blast
  have own: "origin = node_name g \<Longrightarrow> g' = g"
    using h(1) handleGossipMessage_own [of ord e g mid] by simp
  then have "node_inv g'"
    using node_inv_store [OF assms _ _ h(3), of origin] h(2) assms(1) by (cases "origin = node_name g") auto
  with h own show ?thesis
    using storeMessage_log(4,5) [OF log assms(2), where origin = origin and p = "Packet e"]
    by (intro exI [of _ g'] exI [of _ out]) (auto simp: stored_ids_iff split: option.split)
qed

theorem handleGossipMessage_correct_witness:
  "\<exists>g' out. handleGossipMessage sorted_list_of_fset
      \<lparr>Packet = empty_packet\<lparr>Rumor := Some \<lparr>rumor_Origin = ''B'', rumor_ID = 1, rumor_Text = ''hi''\<rparr>\<rparr>, SenderAddr = sample_addr 2\<rparr>
      ''B'' 1 (NewGossiper (\<lambda>_. None) initial_config ''A'' (sample_addr 1) [] 2) = Inr (g', out) \<and> node_inv g'
    \<and> length (packets_of out) = 1"
  using handleGossipMessage_correct [OF NewGossiper_inv, of 1 sorted_list_of_fset
      "\<lparr>Packet = empty_packet\<lparr>Rumor := Some \<lparr>rumor_Origin = ''B'', rumor_ID = 1, rumor_Text = ''hi''\<rparr>\<rparr>, SenderAddr = sample_addr 2\<rparr>"
      "''B''" "\<lambda>_. None" initial_config "''A''" "sample_addr 1" "[]" 2]
  by fastforce

text \<open>A history of gossip messages arriving at a node: the effects of all of them in order.\<close>

fun handle_all ::
  "(string fset \<Rightarrow> string list) \<Rightarrow> (ext_packet \<times> string \<times> u32) list \<Rightarrow> gossiper \<Rightarrow> outcome" where
  "handle_all ord [] g = Inr (g, [])"
| "handle_all ord ((e, origin, mid) # es) g =
     res_bind (handleGossipMessage ord e origin mid g) (\<lambda>(g', out).
       res_bind (handle_all ord es g') (\<lambda>(g'', outs). Inr (g'', out @ outs)))"

definition mongered :: "string \<Rightarrow> u32 \<Rightarrow> effect list \<Rightarrow> nat" where
  "mongered origin mid out =
     length (filter (\<lambda>t. case t of StartRumorMongering _ k i \<Rightarrow> k = origin \<and> i = mid | _ \<Rightarrow> False) (tasks_of out))"

lemma mongered_append [simp]: "mongered k i (xs @ ys) = mongered k i xs + mongered k i ys"
  by (simp add: mongered_def)

text \<open>
  C20: whatever arrives, however often and from whom, a message is mongered on by a node at most
  once: exactly once if it arrives, is not the node's own and was not there before.
\<close>

theorem mongered_at_most_once:
  assumes "node_inv g" and "\<forall>(e, k, i) \<in> set es. i \<noteq> -1"
  shows "\<exists>g' out. handle_all ord es g = Inr (g', out) \<and> node_inv g'
    \<and> mongered origin mid out =
        (if origin \<noteq> node_name g \<and> stored_msg (gossipHandler g) origin mid = None
            \<and> (\<exists>e. (e, origin, mid) \<in> set es) then 1 else 0)"
  using assms
proof (induction es arbitrary: g)
  case (Cons x es)
  obtain e k i where x: "x = (e, k, i)" by (cases x)
  with Cons.prems have "i \<noteq> -1" by simp
  obtain g1 out1 where h0: "handleGossipMessage ord e k i g = Inr (g1, out1)"
    "gossipHandler g1 = (if k = node_name g then gossipHandler g else store_put k i (Packet e) (gossipHandler g))"
    "node_name g1 = node_name g"
    "tasks_of out1 = (if k \<noteq> node_name g \<and> i |\<notin>| stored_ids (gossipHandler g) k then [StartRumorMongering e k i] else [])"
    using handleGossipMessage_spec [OF node_inv_log [OF Cons.prems(1)] \<open>i \<noteq> -1\<close>, of ord e k] by blast
  have "node_inv g1"
    using h0(2,3) Cons.prems(1) node_inv_store [OF Cons.prems(1) \<open>i \<noteq> -1\<close>]
    by (cases "k = node_name g") (auto simp: node_inv_def)
  note h = h0(1) this h0(2,3) h0(4) [folded stored_msg_iff]
  have s: "stored_msg (gossipHandler g1) origin mid = None \<longleftrightarrow>
      stored_msg (gossipHandler g) origin mid = None \<and> (origin = node_name g \<or> (origin, mid) \<noteq> (k, i))"
    using storeMessage_log(4) [OF node_inv_log [OF Cons.prems(1)] \<open>i \<noteq> -1\<close>] h(3) by auto
  have m: "mongered origin mid out1 =
      (if k \<noteq> node_name g \<and> stored_msg (gossipHandler g) k i = None \<and> k = origin \<and> i = mid then 1 else 0)"
    using h(5) by (simp add: mongered_def)
  obtain g2 out2 where r: "handle_all ord es g1 = Inr (g2, out2)" "node_inv g2"
    "mongered origin mid out2 = (if origin \<noteq> node_name g1 \<and> stored_msg (gossipHandler g1) origin mid = None
            \<and> (\<exists>e. (e, origin, mid) \<in> set es) then 1 else 0)"
    using Cons.IH [OF h(2)] Cons.prems(2) unfolding set_simps ball_simps by blast
  have "mongered origin mid (out1 @ out2) = (if origin \<noteq> node_name g \<and> stored_msg (gossipHandler g) origin mid = None
            \<and> (\<exists>e. (e, origin, mid) \<in> set (x # es)) then 1 else 0)"
    using m r(3) s h(4) by (auto simp: x)
  with h(1) r(1,2) show ?case by (simp add: x)
qed (simp add: mongered_def)

theorem mongered_at_most_once_witness:
  "let e = \<lparr>Packet = empty_packet\<lparr>Rumor := Some \<lparr>rumor_Origin = ''B'', rumor_ID = 1, rumor_Text = ''hi''\<rparr>\<rparr>,
             SenderAddr = sample_addr 2\<rparr>
   in \<exists>g' out. handle_all sorted_list_of_fset [(e, ''B'', 1), (e, ''B'', 1)]
        (NewGossiper (\<lambda>_. None) initial_config ''A'' (sample_addr 1) [] 2) = Inr (g', out)
      \<and> mongered ''B'' 1 out = 1"
proof -
  let ?e = "\<lparr>Packet = empty_packet\<lparr>Rumor := Some \<lparr>rumor_Origin = ''B'', rumor_ID = 1, rumor_Text = ''hi''\<rparr>\<rparr>,
             SenderAddr = sample_addr 2\<rparr>"
  let ?g = "NewGossiper (\<lambda>_. None) initial_config ''A'' (sample_addr 1) [] 2"
  have g: "stored_msg (gossipHandler ?g) ''B'' 1 = None" "node_name ?g = ''A''"
    by (simp_all add: stored_msg_def NewGossiper_def NewGossipHandler_def)
  have "\<forall>(e, k, i) \<in> set [(?e, ''B'', 1), (?e, ''B'', 1)]. i \<noteq> (-1 :: u32)" by simp
  from mongered_at_most_once [OF NewGossiper_inv this, of sorted_list_of_fset "\<lambda>_. None" initial_config "''A''"
      "sample_addr 1" "[]" 2 "''B''" 1]
  obtain g' out where "handle_all sorted_list_of_fset [(?e, ''B'', 1), (?e, ''B'', 1)] ?g = Inr (g', out)"
    and "mongered ''B'' 1 out = 1" unfolding g by (elim exE conjE) simp
  then show ?thesis unfolding Let_def by blast
qed

section \<open>New messages\<close>

lemma store_own:
  assumes inv: "node_inv g" and max: "seqID (gossipHandler g) \<noteq> -1"
  defines "n \<equiv> seqID (gossipHandler g)"
  shows "\<exists>gh'. storeMessage p (node_name g) n ((gossipHandler g)\<lparr>seqID := n + 1\<rparr>) = Inr (False, gh')
    \<and> node_inv (g\<lparr>gossipHandler := gh'\<rparr>) \<and> seqID gh' = n + 1
    \<and> (\<forall>k i. stored_msg gh' k i = (if k = node_name g \<and> i = n then Some p else stored_msg (gossipHandler g) k i))
    \<and> next_of (myStatus gh') (node_name g) = n + 1 \<and> clock_le (myStatus (gossipHandler g)) (myStatus gh')"
proof -
  let ?gh = "(gossipHandler g)\<lparr>seqID := n + 1\<rparr>"
  have st: "stored_ids ?gh = stored_ids (gossipHandler g)" "stored_msg ?gh = stored_msg (gossipHandler g)"
    by (simp_all add: fun_eq_iff stored_ids_def stored_msg_def)
  have log: "log_inv ?gh"
    using inv st by (simp add: node_inv_def log_inv_def gossip_inv_def)
  have n: "1 \<le> n" "\<And>i. i |\<in>| stored_ids (gossipHandler g) (node_name g) \<longleftrightarrow> 1 \<le> i \<and> i < n"
    using inv by (auto simp: node_inv_def n_def)
  have step: "i < n + 1 \<longleftrightarrow> i < n \<or> i = n" "n < n + 1" for i
    using max by (simp_all add: word_less_Suc n_def)
  define gh' where "gh' = store_put (node_name g) n p ?gh"
  note s = storeMessage_log [OF log, where p = p and origin = "node_name g" and mid = n, folded gh'_def, unfolded st]
  have mx: "n \<noteq> -1" using max by (simp add: n_def)
  have own: "i |\<in>| stored_ids gh' (node_name g) \<longleftrightarrow> 1 \<le> i \<and> i < n + 1" for i
    using s(3) [OF mx, of "node_name g"] n step by auto
  have "is_next (stored_ids gh' (node_name g)) (n + 1)"
    using own n(1) step(2) by (auto simp: is_next_def)
  moreover have "is_next (stored_ids gh' (node_name g)) (next_of (myStatus gh') (node_name g))"
    using s(2) [OF mx] by (simp add: log_inv_def gossip_inv_def)
  ultimately have "next_of (myStatus gh') (node_name g) = n + 1"
    by (rule is_next_unique [symmetric])
  moreover have "stored_ids (gossipHandler g) (node_name g) = stored_ids (gossipHandler g) (node_name g)" ..
  moreover have "n |\<notin>| stored_ids (gossipHandler g) (node_name g)" using n(2) by simp
  moreover have "node_inv (g\<lparr>gossipHandler := gh'\<rparr>)"
    using s(2,6) [OF mx] own n(1) step(2) by (auto simp: node_inv_def)
  ultimately show ?thesis
    using s [OF mx] by (intro exI [of _ gh']) (auto simp: stored_msg_iff)
qed

lemma createRumorMessage_spec:
  assumes "node_inv g" and "seqID (gossipHandler g) \<noteq> -1"
  shows "\<exists>e g' out. createRumorMessage content g = Inr (e, g', out) \<and> node_inv g' \<and> packets_of out = []
    \<and> tasks_of out = [] \<and> node_name g' = node_name g \<and> known_peers g' = known_peers g
    \<and> Packet e = empty_packet\<lparr>Rumor := Some \<lparr>rumor_Origin = node_name g, rumor_ID = seqID (gossipHandler g), rumor_Text = content\<rparr>\<rparr>
    \<and> SenderAddr e = gossiperAddress g"
  using store_own [OF assms, of "empty_packet\<lparr>Rumor := Some \<lparr>rumor_Origin = node_name g, rumor_ID = seqID (gossipHandler g), rumor_Text = content\<rparr>\<rparr>"]
  by (auto simp: createRumorMessage_def Let_def)

text \<open>
  A new rumor gets the node's next sequence number, is stored under it, and the node's clock
  for itself moves past it; numbers are given out without gaps.
\<close>

theorem createRumorMessage_correct:
  assumes "node_inv g" and "seqID (gossipHandler g) \<noteq> -1"
  shows "\<exists>e g' out. createRumorMessage content g = Inr (e, g', out) \<and> node_inv g'
    \<and> Rumor (Packet e) = Some \<lparr>rumor_Origin = node_name g, rumor_ID = seqID (gossipHandler g), rumor_Text = content\<rparr>
    \<and> stored_msg (gossipHandler g) (node_name g) (seqID (gossipHandler g)) = None
    \<and> stored_msg (gossipHandler g') (node_name g) (seqID (gossipHandler g)) = Some (Packet e)
    \<and> next_of (myStatus (gossipHandler g)) (node_name g) = seqID (gossipHandler g)
    \<and> next_of (myStatus (gossipHandler g')) (node_name g) = seqID (gossipHandler g) + 1"
proof -
  let ?n = "seqID (gossipHandler g)"
  have "is_next (stored_ids (gossipHandler g) (node_name g)) ?n"
    using assms(1) by (auto simp: node_inv_def is_next_def)
  moreover have "is_next (stored_ids (gossipHandler g) (node_name g)) (next_of (myStatus (gossipHandler g)) (node_name g))"
    using assms(1) by (simp add: node_inv_def log_inv_def gossip_inv_def)
  ultimately have "next_of (myStatus (gossipHandler g)) (node_name g) = ?n"
    by (rule is_next_unique [symmetric])
  moreover have "stored_msg (gossipHandler g) (node_name g) ?n = None"
    using assms(1) by (simp add: stored_msg_iff node_inv_def)
  ultimately show ?thesis
    using store_own [OF assms, of "empty_packet\<lparr>Rumor := Some \<lparr>rumor_Origin = node_name g, rumor_ID = ?n, rumor_Text = content\<rparr>\<rparr>"]
    by (auto simp: createRumorMessage_def Let_def)
qed

theorem createRumorMessage_correct_witness:
  "let g = NewGossiper (\<lambda>_. None) initial_config ''A'' (sample_addr 1) [] 2
   in node_inv g \<and> seqID (gossipHandler g) \<noteq> -1
      \<and> (\<exists>e g' out. createRumorMessage ''hi'' g = Inr (e, g', out)
           \<and> stored_msg (gossipHandler g') ''A'' 1 = Some (Packet e))"
proof -
  let ?g = "NewGossiper (\<lambda>_. None) initial_config ''A'' (sample_addr 1) [] 2"
  have g: "seqID (gossipHandler ?g) = 1" "node_name ?g = ''A''"
    by (simp_all add: NewGossiper_def NewGossipHandler_def)
  then have "seqID (gossipHandler ?g) \<noteq> -1" by simp
  from createRumorMessage_correct [OF NewGossiper_inv this, of "''hi''"] this show ?thesis
    unfolding g Let_def by (blast intro: NewGossiper_inv)
qed

lemma createTLCMessage_spec:
  assumes "node_inv g" and "seqID (gossipHandler g) \<noteq> -1"
  shows "\<exists>e g'. createTLCMessage ord block conf fit g = Inr (e, g') \<and> node_inv g'
    \<and> TLCMessage (Packet e) = Some \<lparr>tlc_Origin = node_name g, tlc_ID = seqID (gossipHandler g), tlc_Confirmed = conf,
         tlc_TxBlock = block, tlc_VectorClock = Some (createMyStatusPacket ord (myStatus (gossipHandler g))),
         tlc_Fitness = fit\<rparr>
    \<and> stored_msg (gossipHandler g') (node_name g) (seqID (gossipHandler g)) = Some (Packet e)
    \<and> g' = g\<lparr>gossipHandler := gossipHandler g'\<rparr> \<and> seqID (gossipHandler g') = seqID (gossipHandler g) + 1
    \<and> SenderAddr e = gossiperAddress g"
  using store_own [OF assms, of "empty_packet\<lparr>TLCMessage := Some \<lparr>tlc_Origin = node_name g,
      tlc_ID = seqID (gossipHandler g), tlc_Confirmed = conf, tlc_TxBlock = block,
      tlc_VectorClock = Some (createMyStatusPacket ord (myStatus (gossipHandler g))), tlc_Fitness = fit\<rparr>\<rparr>"]
  by (auto simp: createTLCMessage_def Let_def)

section \<open>Rumor mongering\<close>

definition listening :: "monger \<Rightarrow> gossiper \<Rightarrow> bool" where
  "listening m g \<longleftrightarrow> (\<exists>ch. fmlookup (mongeringChannels (gossipHandler g)) (addr_string (mg_peer m)) = Some ch
     \<and> (mg_origin m, mg_id m) |\<in>| fmdom ch)"

lemma sendRumor_spec:
  "\<exists>g' out. sendRumorWithTimeout e origin mid peer g = (g', out) \<and> packets_of out = [(Packet e, peer)]
     \<and> (\<exists>ch. fmlookup (mongeringChannels (gossipHandler g')) (addr_string peer) = Some ch \<and> (origin, mid) |\<in>| fmdom ch)
     \<and> known_peers g' = known_peers g \<and> config g' = config g"
  using getListener_registers [where peer = "addr_string peer" and origin = origin and mid = mid]
  by (simp add: sendRumorWithTimeout_def Let_def)

text \<open>
  Mongering a message sends it to exactly one known peer, never the one it came from, and
  waits for that peer's status; it does nothing exactly when no other peer is known.
\<close>

theorem startRumorMongering_correct:
  "\<exists>g' m out. startRumorMongering rnd e origin mid g = Inr (g', m, out) \<and>
     (case m of
        None \<Rightarrow> set (known_peers g) \<subseteq> {SenderAddr e} \<and> g' = g \<and> out = []
      | Some m \<Rightarrow> mg_peer m \<in> set (known_peers g) \<and> mg_peer m \<noteq> SenderAddr e
          \<and> packets_of out = [(Packet e, mg_peer m)] \<and> listening m g')"
proof (cases "DifferenceString (known_peers g) [SenderAddr e]")
  case Nil
  then have "set (known_peers g) \<subseteq> {SenderAddr e}"
    using DifferenceString_set [of "known_peers g" "[SenderAddr e]"] by simp
  with Nil show ?thesis by (simp add: startRumorMongering_def)
next
  case (Cons a l)
  then have ne: "DifferenceString (known_peers g) [SenderAddr e] \<noteq> []" by simp
  obtain p where p: "getRandomPeer rnd (DifferenceString (known_peers g) [SenderAddr e]) = Inr p"
    "p \<in> set (known_peers g)" "p \<noteq> SenderAddr e"
    using getRandomPeer_ok [OF ne, of rnd] by auto
  obtain g' out where s: "sendRumorWithTimeout e origin mid p g = (g', out)" "packets_of out = [(Packet e, p)]"
    "\<exists>ch. fmlookup (mongeringChannels (gossipHandler g')) (addr_string p) = Some ch \<and> (origin, mid) |\<in>| fmdom ch"
    using sendRumor_spec [of e origin mid p g] by blast
  with p ne show ?thesis
    by (simp add: startRumorMongering_def listening_def)
qed

text \<open>
  A mongering goroutine that wakes stops exactly if a status was received and the coin is odd,
  or if the last peer is the only one known; else it sends the same message once more, to a known
  peer other than the last one.
\<close>

theorem wakeRumorMongering_correct:
  "\<exists>g' m' out. wakeRumorMongering statusReceived randInt rnd m g = Inr (g', m', out) \<and>
     (case m' of
        None \<Rightarrow> (statusReceived \<and> odd randInt \<or> set (known_peers g) \<subseteq> {mg_peer m}) \<and> out = []
      | Some m' \<Rightarrow> \<not> (statusReceived \<and> odd randInt) \<and> mg_peer m' \<in> set (known_peers g)
          \<and> mg_peer m' \<noteq> mg_peer m \<and> packets_of out = [(Packet (mg_packet m), mg_peer m')]
          \<and> (mg_packet m', mg_origin m', mg_id m') = (mg_packet m, mg_origin m, mg_id m) \<and> listening m' g')"
proof -
  define g1 where "g1 = g\<lparr>gossipHandler := (gossipHandler g)\<lparr>mongeringChannels :=
     deleteListenerForStatus (mg_origin m) (mg_id m) (addr_string (mg_peer m)) (mongeringChannels (gossipHandler g))\<rparr>\<rparr>"
  have g1: "known_peers g1 = known_peers g" by (simp add: g1_def)
  have coin: "(if statusReceived then randInt mod 2 else 0) = 0 \<longleftrightarrow> \<not> (statusReceived \<and> odd randInt)"
    by (auto simp: even_iff_mod_2_eq_zero)
  show ?thesis
  proof (cases "statusReceived \<and> odd randInt")
    case True
    then show ?thesis using coin by (simp add: wakeRumorMongering_def Let_def)
  next
    case False
    show ?thesis
    proof (cases "DifferenceString (known_peers g) [mg_peer m]")
      case Nil
      then have "set (known_peers g) \<subseteq> {mg_peer m}"
        using DifferenceString_set [of "known_peers g" "[mg_peer m]"] by simp
      with Nil False coin show ?thesis
        by (simp add: wakeRumorMongering_def g1_def [symmetric] g1 Let_def del: DifferenceString_set)
    next
      case (Cons a l)
      then have ne: "DifferenceString (known_peers g) [mg_peer m] \<noteq> []" by simp
      obtain p where p: "getRandomPeer rnd (DifferenceString (known_peers g) [mg_peer m]) = Inr p"
        "p \<in> set (known_peers g)" "p \<noteq> mg_peer m"
        using getRandomPeer_ok [OF ne, of rnd] by auto
      obtain g2 out where s: "sendRumorWithTimeout (mg_packet m) (mg_origin m) (mg_id m) p g1 = (g2, out)"
        "packets_of out = [(Packet (mg_packet m), p)]"
        "\<exists>ch. fmlookup (mongeringChannels (gossipHandler g2)) (addr_string p) = Some ch
            \<and> (mg_origin m, mg_id m) |\<in>| fmdom ch"
        using sendRumor_spec [of "mg_packet m" "mg_origin m" "mg_id m" p g1] by blast
      with p ne False coin show ?thesis
        by (simp add: wakeRumorMongering_def g1_def [symmetric] g1 Let_def listening_def)
    qed
  qed
qed

text \<open>
  C21: a status packet wakes a waiting mongering goroutine exactly if it comes from the peer the
  message was sent to and shows that this peer has the message.
\<close>

theorem status_acknowledges_rumor:
  assumes "listening m g" and "\<not> status_pending m g" and "Status (Packet e) = Some st"
  shows "status_pending m (run_notifyListeners e g) \<longleftrightarrow>
     SenderAddr e = mg_peer m \<and> (\<exists>ps \<in> set (Want st). Identifier ps = mg_origin m \<and> mg_id m < NextID ps)"
proof -
  obtain ch where ch: "fmlookup (mongeringChannels (gossipHandler g)) (addr_string (mg_peer m)) = Some ch"
    "fmlookup ch (mg_origin m, mg_id m) = Some 0"
    using assms(1,2) by (auto simp: listening_def status_pending_def fmlookup_dom_iff)
  have acks: "0 < acks_of (Want st) (mg_origin m, mg_id m)
      \<longleftrightarrow> (\<exists>ps \<in> set (Want st). Identifier ps = mg_origin m \<and> mg_id m < NextID ps)"
    by (simp add: acks_of_def filter_empty_conv)
  show ?thesis
    using ch acks assms(3)
    by (cases "fmlookup (mongeringChannels (gossipHandler g)) (addr_string (SenderAddr e))")
      (auto simp: run_notifyListeners_def notifyListenersForStatus_def status_pending_def fmlookup_fmmap_keys)
qed

theorem status_acknowledges_rumor_witness:
  "let g0 = NewGossiper (\<lambda>_. None) initial_config ''A'' (sample_addr 1) [] 2;
       e = \<lparr>Packet = empty_packet, SenderAddr = sample_addr 1\<rparr>;
       m = \<lparr>mg_packet = e, mg_origin = ''A'', mg_id = 1, mg_peer = sample_addr 2, mg_flipped = False\<rparr>;
       g = fst (sendRumorWithTimeout e ''A'' 1 (sample_addr 2) g0);
       ack = \<lparr>Packet = empty_packet\<lparr>Status := Some \<lparr>Want = [\<lparr>Identifier = ''A'', NextID = 2\<rparr>]\<rparr>\<rparr>,
              SenderAddr = sample_addr 2\<rparr>
   in listening m g \<and> \<not> status_pending m g \<and> status_pending m (run_notifyListeners ack g)"
proof -
  let ?g0 = "NewGossiper (\<lambda>_. None) initial_config ''A'' (sample_addr 1) [] 2"
  let ?e = "\<lparr>Packet = empty_packet, SenderAddr = sample_addr 1\<rparr>"
  let ?m = "\<lparr>mg_packet = ?e, mg_origin = ''A'', mg_id = 1, mg_peer = sample_addr 2, mg_flipped = False\<rparr>"
  let ?g = "fst (sendRumorWithTimeout ?e ''A'' 1 (sample_addr 2) ?g0)"
  let ?st = "\<lparr>Want = [\<lparr>Identifier = ''A'', NextID = 2\<rparr>]\<rparr>"
  let ?ack = "\<lparr>Packet = empty_packet\<lparr>Status := Some ?st\<rparr>, SenderAddr = sample_addr 2\<rparr>"
  have ch: "mongeringChannels (gossipHandler ?g)
      = fmupd (addr_string (sample_addr 2)) (fmupd (''A'', 1) 0 fmempty)
          (fmupd (addr_string (sample_addr 2)) fmempty fmempty)"
    by (simp add: sendRumorWithTimeout_def NewGossiper_def NewGossipHandler_def getListenerForStatus_def
        LoadOrStore_def Let_def)
  have l: "listening ?m ?g" "\<not> status_pending ?m ?g"
    unfolding listening_def status_pending_def ch by simp_all
  have "status_pending ?m (run_notifyListeners ?ack ?g)"
    by (subst status_acknowledges_rumor [OF l, where st = ?st]) (simp_all del: fst_conv)
  with l show ?thesis unfolding Let_def by blast
qed

section \<open>Dispatch of incoming packets\<close>

fun chan_sends :: "effect list \<Rightarrow> chan_send list" where
  "chan_sends [] = []"
| "chan_sends (GoSend x # es) = x # chan_sends es"
| "chan_sends (_ # es) = chan_sends es"

text \<open>
  The sender of every datagram becomes a known peer.  The packet goes to the channel of its
  type if the mode of operation fits, and that channel exists exactly if the packet has a field
  set: for a packet that is empty or could not be decoded, a goroutine is left blocked for ever.
\<close>

theorem receive_dispatch:
  "let (g', out) = receivePacketsFromPeers decode packetBytes addr g;
       p = fst (decode packetBytes); fits = ((Simple p \<noteq> None) = simpleMode (config g))
   in g' = g\<lparr>peersData := AddPeer addr (peersData g)\<rparr> \<and> addr \<in> set (known_peers g')
    \<and> chan_sends out = (if fits then [ToPacketChannel (getTypeFromGossip p) \<lparr>Packet = p, SenderAddr = addr\<rparr>] else [])
    \<and> (getTypeFromGossip p \<in> set (initPacketChannels (config g)) \<longleftrightarrow> fits \<and> p \<noteq> empty_packet)"
proof -
  obtain p err where d: "decode packetBytes = (p, err)" by fastforce
  have ty: "getTypeFromGossip p \<noteq> ''unknwon''"
    by (simp add: getTypeFromGossip_def)
  have "getTypeFromGossip p \<in> set (initPacketChannels (config g))
      \<longleftrightarrow> (Simple p \<noteq> None) = simpleMode (config g) \<and> p \<noteq> empty_packet"
  proof (cases "p = empty_packet")
    case True
    then show ?thesis
      by (simp add: initPacketChannels_def modeTypes_def getTypeFromGossip_def empty_packet_def)
  next
    case False
    from type_in_modes [OF this] False show ?thesis
      using type_simple_iff [of p] by (auto simp: initPacketChannels_def)
  qed
  then show ?thesis
    using d ty type_simple_iff [of p]
    by (auto simp: receivePacketsFromPeers_def GetPeers_def Let_def split: option.split)
qed

lemma broadcast_packets:
  "packets_of (broadcastToPeers e peers) = map (\<lambda>a. (Packet e, a)) (filter (\<lambda>a. a \<noteq> SenderAddr e) peers)"
  by (simp add: broadcastToPeers_def)

end
