(* ===== verification/AntiEntropy.thy ===== *)
theory AntiEntropy
  imports Gossip
begin

text \<open>
  Two nodes exchanging status packets and missing messages until they are in sync: the handlers of
  both nodes run on the packets the other one sends.  The exchange ends, and both clocks are then
  the clock of the union of what the two nodes had stored.
\<close>

text \<open>The origin and number under which a packet is gossiped, as the message loops read them.\<close>

definition gossip_id :: "gossip_packet \<Rightarrow> (string \<times> u32) option" where
  "gossip_id p =
     (if getTypeFromGossip p = ''rumor'' then map_option (\<lambda>r. (rumor_Origin r, rumor_ID r)) (Rumor p)
      else if getTypeFromGossip p = ''tlcMes'' then map_option (\<lambda>t. (tlc_Origin t, tlc_ID t)) (TLCMessage p)
      else None)"

definition gossip_step :: "(string fset \<Rightarrow> string list) \<Rightarrow> ext_packet \<Rightarrow> gossiper \<Rightarrow> outcome" where
  "gossip_step ord e g =
     (case gossip_id (Packet e) of
        None \<Rightarrow> Inr (g, [])
      | Some (origin, mid) \<Rightarrow> handleGossipMessage ord e origin mid g)"

text \<open>
  The packet \<open>st\<close> of node \<open>b\<close> arrives at \<open>a\<close>.  If \<open>a\<close> answers with a message, \<open>b\<close> handles it and
  its status goes to \<open>a\<close>; if \<open>a\<close> answers with its status, the roles are swapped.  Ranging over a map
  may take another order every time.
\<close>

fun exchange ::
  "(nat \<Rightarrow> string fset \<Rightarrow> string list) \<Rightarrow> nat \<Rightarrow> gossiper \<Rightarrow> gossiper \<Rightarrow> gossip_packet \<Rightarrow> (gossiper \<times> gossiper) option" where
  "exchange ord 0 a b st = None"
| "exchange ord (Suc n) a b st =
     (case handlePeerStatus (ord n) (ord (Suc n)) \<lparr>Packet = st, SenderAddr = gossiperAddress b\<rparr> a of
        Inl _ \<Rightarrow> None
      | Inr (a', out) \<Rightarrow>
          (case packets_of out of
             [] \<Rightarrow> Some (a', b)
           | (p, _) # _ \<Rightarrow>
               if gossip_id p = None then map_option prod.swap (exchange ord n b a' p)
               else (case gossip_step (ord n) \<lparr>Packet = p, SenderAddr = gossiperAddress a\<rparr> b of
                       Inl _ \<Rightarrow> None
                     | Inr (b', out') \<Rightarrow>
                         (case packets_of out' of
                            [] \<Rightarrow> None
                          | (st', _) # _ \<Rightarrow> exchange ord n a' b' st'))))"

section \<open>One answer\<close>

text \<open>Messages are stored under their own origin and number.\<close>

definition well_stored :: "gossip_handler \<Rightarrow> bool" where
  "well_stored gh \<longleftrightarrow> (\<forall>k i p. stored_msg gh k i = Some p \<longrightarrow> gossip_id p = Some (k, i))"

text \<open>The two nodes, seen from one of them: nobody has a message of a node that it lacks itself.\<close>

definition pair_inv :: "gossiper \<Rightarrow> gossiper \<Rightarrow> bool" where
  "pair_inv a b \<longleftrightarrow> node_inv a \<and> node_inv b \<and> well_stored (gossipHandler a) \<and> well_stored (gossipHandler b)
     \<and> (\<forall>i. i |\<in>| stored_ids (gossipHandler a) (node_name b) \<longrightarrow> i |\<in>| stored_ids (gossipHandler b) (node_name b))
     \<and> (\<forall>i. i |\<in>| stored_ids (gossipHandler b) (node_name a) \<longrightarrow> i |\<in>| stored_ids (gossipHandler a) (node_name a))"

lemma pair_inv_sym: "pair_inv a b \<Longrightarrow> pair_inv b a"
  by (simp add: pair_inv_def)

lemma status_of_id [simp]: "gossip_id (status_of ord gh) = None"
  by (simp add: gossip_id_def status_of_def)

lemma status_of_Status [simp]: "Status (status_of ord gh) = Some (createMyStatusPacket ord (myStatus gh))"
  by (simp add: status_of_def)

lemma lookup_next_of: "fmlookup E k = Some n \<Longrightarrow> next_of E k = n"
  by (simp add: next_of_def)

text \<open>What a node answers to the status of another one.\<close>

lemma handlePeerStatus_cases:
  fixes addr :: udp_addr
  assumes a: "log_inv (gossipHandler a)" and b: "log_inv (gossipHandler b)"
    and ords: "is_order ord" "is_order ord'" "is_order ord''"
  defines "r \<equiv> handlePeerStatus ord ord' \<lparr>Packet = status_of ord'' (gossipHandler b), SenderAddr = addr\<rparr> a"
  obtains (give) k i p out where "r = Inr (a, out)" "packets_of out = [(p, addr)]"
      "i = next_of (myStatus (gossipHandler b)) k" "i < next_of (myStatus (gossipHandler a)) k"
      "stored_msg (gossipHandler a) k i = Some p"
    | (ask) out where "r = Inr (a, out)" "packets_of out = [(status_of ord' (gossipHandler a), addr)]"
      "clock_le (myStatus (gossipHandler a)) (myStatus (gossipHandler b))"
      "\<not> clock_le (myStatus (gossipHandler b)) (myStatus (gossipHandler a))"
    | (sync) out where "r = Inr (a, out)" "packets_of out = []"
      "myStatus (gossipHandler a) = myStatus (gossipHandler b)"
proof -
  let ?E = "myStatus (gossipHandler a)" and ?F = "myStatus (gossipHandler b)"
  let ?want = "Want (createMyStatusPacket ord'' ?F)"
  note rt = status_packet_roundtrip [OF ords(3), of ?F]
  show thesis
  proof (cases "getPeerStatusForPeer ord ?E ?want")
    case (Some ps)
    obtain n where n: "fmlookup ?E (Identifier ps) = Some n"
      "case fmlookup ?F (Identifier ps) of None \<Rightarrow> NextID ps = 1 | Some k \<Rightarrow> NextID ps = k \<and> k < n"
      using getPeerStatusForPeer_Some [OF ords(1) Some] unfolding rt by blast
    have "1 < n" using a n(1) by (simp add: log_inv_def gossip_inv_def)
    then have i: "NextID ps = next_of ?F (Identifier ps)" "NextID ps < next_of ?E (Identifier ps)"
      using n by (auto simp: next_of_def split: option.splits)
    have "\<forall>e \<in> set ?want. NextID e \<noteq> 0"
      using Want_createMyStatusPacket [OF ords(3), of _ ?F] b
      by (fastforce simp: log_inv_def gossip_inv_def)
    from getPacket_no_panic [OF _ ords(1) this Some] a
    obtain p where "getPacketFromPeerStatus (messageStorage (gossipHandler a)) ps = Inr p"
      "stored_msg (gossipHandler a) (Identifier ps) (NextID ps) = Some p"
      by (auto simp: log_inv_def)
    with i Some show thesis
      by (intro give) (auto simp: r_def handlePeerStatus_def Let_def)
  next
    case None
    then have le: "clock_le ?E ?F"
      using getPeerStatusForPeer_None [OF ords(1), of ?E ?want] rt by simp
    show thesis
    proof (cases "clock_le ?F ?E")
      case True
      then have "\<not> checkIfINeedPeerStatus ?E ?want"
        using checkIfINeed_iff [OF ords(3)] by blast
      with None le True show thesis
        by (intro sync) (auto simp: r_def handlePeerStatus_def Let_def clock_le_antisym)
    next
      case False
      then have "checkIfINeedPeerStatus ?E ?want"
        using checkIfINeed_iff [OF ords(3)] by blast
      with None le False show thesis
        by (intro ask) (auto simp: r_def handlePeerStatus_def Let_def status_of_def)
    qed
  qed
qed

text \<open>The message given is stored by the other node, and the nodes are closer afterwards.\<close>

lemma gossip_step_give:
  assumes pair: "pair_inv a b" and i: "i = next_of (myStatus (gossipHandler b)) k"
    "i < next_of (myStatus (gossipHandler a)) k" and p: "stored_msg (gossipHandler a) k i = Some p"
  shows "gossip_id p = Some (k, i)"
    and "\<exists>b' out. gossip_step ord \<lparr>Packet = p, SenderAddr = addr\<rparr> b = Inr (b', out)
      \<and> packets_of out = [(status_of ord (gossipHandler b'), addr)] \<and> pair_inv a b'
      \<and> card (glog.differ (gossipHandler a) (gossipHandler b')) < card (glog.differ (gossipHandler a) (gossipHandler b))
      \<and> (\<forall>o' j. j |\<in>| stored_ids (gossipHandler a) o' \<or> j |\<in>| stored_ids (gossipHandler b') o'
           \<longleftrightarrow> j |\<in>| stored_ids (gossipHandler a) o' \<or> j |\<in>| stored_ids (gossipHandler b) o')"
proof -
  show pid: "gossip_id p = Some (k, i)" using pair p by (auto simp: pair_inv_def well_stored_def)
  have inv: "node_inv a" "node_inv b" "log_inv (gossipHandler a)" "log_inv (gossipHandler b)"
    using pair by (auto simp: pair_inv_def dest: node_inv_log)
  have max: "i \<noteq> -1" using i(2) by (rule less_not_max)
  have new: "i |\<notin>| stored_ids (gossipHandler b) k" using i(1) log_inv_next(2) [OF inv(4)] by simp
  have old: "i |\<in>| stored_ids (gossipHandler a) k" using p by (simp add: stored_ids_iff)
  have k: "k \<noteq> node_name b" using pair old new by (auto simp: pair_inv_def)
  obtain b' out where h: "handleGossipMessage ord \<lparr>Packet = p, SenderAddr = addr\<rparr> k i b = Inr (b', out)"
    "gossipHandler b' = store_put k i p (gossipHandler b)" "node_name b' = node_name b"
    "packets_of out = [(status_of ord (gossipHandler b'), addr)]"
    using handleGossipMessage_spec [OF inv(4) max, of ord "\<lparr>Packet = p, SenderAddr = addr\<rparr>" k] k by auto
  note s = storeMessage_log [OF inv(4) max, where origin = k and p = p]
  have ids: "j |\<in>| stored_ids (gossipHandler b') o' \<longleftrightarrow>
      j |\<in>| stored_ids (gossipHandler b) o' \<or> o' = k \<and> j = i" for o' j
    using s(3) by (auto simp: h(2))
  have "well_stored (gossipHandler b')"
    using pair pid s(4) by (auto simp: well_stored_def pair_inv_def h(2) split: if_splits)
  moreover have "node_inv b'"
    by (rule node_inv_store [OF inv(2) max k h(2,3)])
  ultimately have "pair_inv a b'"
    using pair old ids h(3) unfolding pair_inv_def by auto
  moreover have "card (glog.differ (gossipHandler a) (gossipHandler b')) < card (glog.differ (gossipHandler a) (gossipHandler b))"
    unfolding h(2) by (rule glog.differ_put [OF inv(3,4) old new max])
  ultimately show "\<exists>b' out. gossip_step ord \<lparr>Packet = p, SenderAddr = addr\<rparr> b = Inr (b', out)
      \<and> packets_of out = [(status_of ord (gossipHandler b'), addr)] \<and> pair_inv a b'
      \<and> card (glog.differ (gossipHandler a) (gossipHandler b')) < card (glog.differ (gossipHandler a) (gossipHandler b))
      \<and> (\<forall>o' j. j |\<in>| stored_ids (gossipHandler a) o' \<or> j |\<in>| stored_ids (gossipHandler b') o'
           \<longleftrightarrow> j |\<in>| stored_ids (gossipHandler a) o' \<or> j |\<in>| stored_ids (gossipHandler b) o')"
    using h old ids pid by (intro exI [of _ b'] exI [of _ out]) (auto simp: gossip_step_def)
qed

section \<open>The exchange converges\<close>

definition stored_union :: "gossiper \<Rightarrow> gossiper \<Rightarrow> string \<Rightarrow> u32 fset" where
  "stored_union a b k = stored_ids (gossipHandler a) k |\<union>| stored_ids (gossipHandler b) k"

definition exchange_goal :: "gossiper \<Rightarrow> gossiper \<Rightarrow> (gossiper \<times> gossiper) option \<Rightarrow> bool" where
  "exchange_goal a b r \<longleftrightarrow> (\<exists>a' b'. r = Some (a', b') \<and> pair_inv a' b'
     \<and> myStatus (gossipHandler a') = myStatus (gossipHandler b') \<and> stored_union a' b' = stored_union a b)"

text \<open>The messages only one of two nodes has.\<close>

definition store_difference :: "gossip_handler \<Rightarrow> gossip_handler \<Rightarrow> (string \<times> u32) set" where
  "store_difference s t = {(k, i). (i |\<in>| stored_ids s k) \<noteq> (i |\<in>| stored_ids t k)}"

lemma stored_union_sym: "stored_union a b = stored_union b a"
  by (auto simp: stored_union_def)

lemma exchange_goal_swap: "exchange_goal b a r \<Longrightarrow> exchange_goal a b (map_option prod.swap r)"
  by (auto simp: exchange_goal_def stored_union_sym [of b a] stored_union_sym dest: pair_inv_sym)

lemma exchange_converges:
  assumes "\<And>n. is_order (ord n)"
  shows "pair_inv a b \<Longrightarrow> is_order o1 \<Longrightarrow>
     2 * card (glog.differ (gossipHandler a) (gossipHandler b))
       + (if clock_le (myStatus (gossipHandler a)) (myStatus (gossipHandler b)) then 1 else 0) < n \<Longrightarrow>
     exchange_goal a b (exchange ord n a b (status_of o1 (gossipHandler b)))"
proof (induction n arbitrary: a b o1 rule: less_induct)
  case (less n)
  then obtain m where m: "n = Suc m" by (cases n) auto
  have inv: "log_inv (gossipHandler a)" "log_inv (gossipHandler b)"
    using less.prems(1) by (auto simp: pair_inv_def dest: node_inv_log)
  show ?case
  proof (rule handlePeerStatus_cases [OF inv assms assms less.prems(2), of m "Suc m" "gossiperAddress b"])
    fix k i p out
    assume h: "handlePeerStatus (ord m) (ord (Suc m)) \<lparr>Packet = status_of o1 (gossipHandler b), SenderAddr = gossiperAddress b\<rparr> a
        = Inr (a, out)" "packets_of out = [(p, gossiperAddress b)]" "i = next_of (myStatus (gossipHandler b)) k"
      "i < next_of (myStatus (gossipHandler a)) k" "stored_msg (gossipHandler a) k i = Some p"
    from gossip_step_give [OF less.prems(1) h(3,4,5)]
    obtain b' out' where g: "gossip_id p = Some (k, i)"
      "gossip_step (ord m) \<lparr>Packet = p, SenderAddr = gossiperAddress a\<rparr> b = Inr (b', out')"
      "packets_of out' = [(status_of (ord m) (gossipHandler b'), gossiperAddress a)]" "pair_inv a b'"
      "card (glog.differ (gossipHandler a) (gossipHandler b')) < card (glog.differ (gossipHandler a) (gossipHandler b))"
      "\<forall>o' j. j |\<in>| stored_ids (gossipHandler a) o' \<or> j |\<in>| stored_ids (gossipHandler b') o'
           \<longleftrightarrow> j |\<in>| stored_ids (gossipHandler a) o' \<or> j |\<in>| stored_ids (gossipHandler b) o'"
      by metis
    have "exchange_goal a b' (exchange ord m a b' (status_of (ord m) (gossipHandler b')))"
      using less.IH [OF _ g(4) assms, of m] less.prems(3) g(5) m by (simp split: if_splits)
    moreover have "stored_union a b' = stored_union a b"
      using g(6) by (auto simp: stored_union_def fun_eq_iff)
    ultimately have "exchange_goal a b (exchange ord m a b' (status_of (ord m) (gossipHandler b')))"
      by (simp add: exchange_goal_def)
    then show "exchange_goal a b (exchange ord n a b (status_of o1 (gossipHandler b)))"
      using h(1,2) g(1,2,3) by (simp add: m)
  next
    fix out
    assume h: "handlePeerStatus (ord m) (ord (Suc m)) \<lparr>Packet = status_of o1 (gossipHandler b), SenderAddr = gossiperAddress b\<rparr> a
        = Inr (a, out)" "packets_of out = []" "myStatus (gossipHandler a) = myStatus (gossipHandler b)"
    then show "exchange_goal a b (exchange ord n a b (status_of o1 (gossipHandler b)))"
      using less.prems(1) by (simp add: m exchange_goal_def)
  next
    fix out
    assume h: "handlePeerStatus (ord m) (ord (Suc m)) \<lparr>Packet = status_of o1 (gossipHandler b), SenderAddr = gossiperAddress b\<rparr> a
        = Inr (a, out)" "packets_of out = [(status_of (ord (Suc m)) (gossipHandler a), gossiperAddress b)]"
      "clock_le (myStatus (gossipHandler a)) (myStatus (gossipHandler b))"
      "\<not> clock_le (myStatus (gossipHandler b)) (myStatus (gossipHandler a))"
    have "exchange_goal b a (exchange ord m b a (status_of (ord (Suc m)) (gossipHandler a)))"
      using less.IH [OF _ pair_inv_sym [OF less.prems(1)] assms, of m] less.prems(3) h(3,4) m
      by (simp add: glog.differ_sym [of "gossipHandler b"])
    from exchange_goal_swap [OF this]
    show "exchange_goal a b (exchange ord n a b (status_of o1 (gossipHandler b)))"
      using h(1,2) by (simp add: m)
  qed
qed

text \<open>
  C1: the anti-entropy exchange of two nodes ends, after at most two answers for every message one
  of them lacks, with both reporting to be in sync.  Nothing was lost or made up, and the clock
  both nodes then have is for every origin the least number that neither of them had: all that
  could be delivered was.
\<close>

theorem anti_entropy_converges:
  assumes "pair_inv a b" and "\<And>n. is_order (ord n)" and "is_order ord'"
    and "2 * card (store_difference (gossipHandler a) (gossipHandler b)) + 1 < n"
  shows "\<exists>a' b'. exchange ord n a b (status_of ord' (gossipHandler b)) = Some (a', b')
    \<and> myStatus (gossipHandler a') = myStatus (gossipHandler b') \<and> pair_inv a' b'
    \<and> stored_union a' b' = stored_union a b
    \<and> (\<forall>origin. is_next (stored_union a b origin) (next_of (myStatus (gossipHandler a')) origin))"
proof -
  have bound: "2 * card (glog.differ (gossipHandler a) (gossipHandler b))
       + (if clock_le (myStatus (gossipHandler a)) (myStatus (gossipHandler b)) then 1 else 0) < n"
    using assms(4) by (simp add: glog.differ_def store_difference_def)
  obtain a' b' where e: "exchange ord n a b (status_of ord' (gossipHandler b)) = Some (a', b')"
    "pair_inv a' b'" "myStatus (gossipHandler a') = myStatus (gossipHandler b')" "stored_union a' b' = stored_union a b"
    using exchange_converges [of ord, OF assms(2,1,3), where n = n] bound
    by (auto simp: exchange_goal_def)
  have inv: "log_inv (gossipHandler a')" "log_inv (gossipHandler b')"
    using e(2) by (auto simp: pair_inv_def dest: node_inv_log)
  have "is_next (stored_union a' b' k) (next_of (myStatus (gossipHandler a')) k)" for k
    using glog.same_nxt [OF inv, of k] e(3) log_inv_next(1) [OF inv(1)]
    by (auto simp: is_next_def stored_union_def)
  with e show ?thesis by metis
qed

text \<open>A node with one rumor, and one without.\<close>

definition sample_node :: "string \<Rightarrow> nat \<Rightarrow> gossiper" where
  "sample_node nm port = (NewGossiper (\<lambda>_. None) initial_config nm (sample_addr port) [] 2)
     \<lparr>peersData := \<lparr>Peers = [sample_addr 1, sample_addr 2], Size = 2\<rparr>\<rparr>"

definition sample_sender :: gossiper where
  "sample_sender = (case createRumorMessage ''hi'' (sample_node ''A'' 1) of Inr (_, g, _) \<Rightarrow> g)"

lemma sample_node_simps [simp]:
  "stored_ids (gossipHandler (sample_node nm port)) k = {||}"
  "stored_msg (gossipHandler (sample_node nm port)) k i = None"
  "seqID (gossipHandler (sample_node nm port)) = 1" "node_name (sample_node nm port) = nm"
  by (simp_all add: sample_node_def NewGossiper_def NewGossipHandler_def stored_msg_def stored_ids_def)

lemma sample_node_inv: "node_inv (sample_node nm port)"
  using NewGossiper_inv [of "\<lambda>_. None" initial_config nm "sample_addr port" "[]" 2]
  by (simp add: sample_node_def node_inv_def)

lemma sample_sender_simps:
  "node_name sample_sender = ''A''" "node_inv sample_sender" "stored_msg (gossipHandler sample_sender) k i =
     (if k = ''A'' \<and> i = 1 then Some (empty_packet\<lparr>Rumor := Some \<lparr>rumor_Origin = ''A'', rumor_ID = 1, rumor_Text = ''hi''\<rparr>\<rparr>)
      else None)"
  using store_own [OF sample_node_inv [of "''A''" 1], of "empty_packet\<lparr>Rumor := Some \<lparr>rumor_Origin = ''A'', rumor_ID = 1, rumor_Text = ''hi''\<rparr>\<rparr>"]
  by (auto simp: sample_sender_def createRumorMessage_def Let_def)

lemma sample_pair: "pair_inv sample_sender (sample_node ''B'' 2)"
  by (auto simp: pair_inv_def sample_node_inv sample_sender_simps well_stored_def stored_ids_iff gossip_id_def
      type_rumor_iff split: if_splits)

theorem anti_entropy_converges_witness:
  "pair_inv sample_sender (sample_node ''B'' 2) \<and>
   (\<exists>n a' b'. exchange (\<lambda>_. sorted_list_of_fset) n sample_sender (sample_node ''B'' 2)
        (status_of sorted_list_of_fset (gossipHandler (sample_node ''B'' 2))) = Some (a', b')
      \<and> myStatus (gossipHandler a') = myStatus (gossipHandler b'))"
  using anti_entropy_converges [OF sample_pair sorted_is_order sorted_is_order lessI] sample_pair by blast

end
