(* ===== verification/Search.thy ===== *)
theory Search
  imports AntiEntropy
begin

text \<open>
  \<open>gossiper/filesearching.go\<close>: search requests with a budget that is split among the peers, the
  duplicate filter, the matching of local files, and what is done with results.  The handlers run
  on the peers known when they start.  \<open>H\<close> is SHA-256 and \<open>rx\<close> is \<open>regexp.MatchString\<close>.
\<close>

section \<open>Requests\<close>

text \<open>
  \<open>isRecentSearchRequest\<close>: the keywords of the packet are sorted in place.  A time that was never
  set counts as zero; \<open>now\<close> and \<open>now'\<close> are the clock readings of the comparison and of the
  update.
\<close>

definition request_key :: "(bytes \<Rightarrow> bytes) \<Rightarrow> search_request \<Rightarrow> string" where
  "request_key H r = getKeyFromString H (sreq_Origin r @ str_join [] (sreq_Keywords r))"

definition isRecentSearchRequest ::
  "(bytes \<Rightarrow> bytes) \<Rightarrow> int \<Rightarrow> int \<Rightarrow> search_request \<Rightarrow> file_handler \<Rightarrow> bool \<times> search_request \<times> file_handler" where
  "isRecentSearchRequest H now now' searchRequest fh =
     (let r = searchRequest\<lparr>sreq_Keywords := sort (sreq_Keywords searchRequest)\<rparr>;
          identifier = request_key H r;
          stored = fmlookup (lastSearchRequests fh) identifier
      in if (case stored of None \<Rightarrow> True | Some t \<Rightarrow> t + searchRequestDuplicateTimeout < now)
         then (False, r, fh\<lparr>lastSearchRequests := fmupd identifier now' (lastSearchRequests fh)\<rparr>)
         else (True, r, fh))"

definition set_budget :: "u64 \<Rightarrow> gossip_packet \<Rightarrow> gossip_packet" where
  "set_budget b p = p\<lparr>SearchRequest := map_option (sreq_Budget_update (\<lambda>_. b)) (SearchRequest p)\<rparr>"

text \<open>
  The loop of \<open>forwardSearchRequestWithBudget\<close>: \<open>rnd i\<close> is the random number of round \<open>i\<close>.  The
  packet is changed in place and sent.
\<close>

function forward_loop ::
  "(nat \<Rightarrow> nat) \<Rightarrow> nat \<Rightarrow> udp_addr list \<Rightarrow> udp_addr list \<Rightarrow> u64 \<Rightarrow> u64 \<Rightarrow> gossip_packet \<Rightarrow> (gossip_packet \<times> udp_addr) list" where
  "forward_loop rnd i peers peersChosen budgetForEach budgetToShare p =
     (let availablePeers = DifferenceString peers peersChosen
      in if length availablePeers = 0 then []
         else if budgetToShare = 0 \<and> budgetForEach = 0 then []
         else (case getRandomPeer (rnd i) availablePeers of
                 Inl _ \<Rightarrow> []
               | Inr randomPeer \<Rightarrow>
                   (let (b, share) = (if 0 < budgetToShare then (budgetForEach + 1, budgetToShare - 1)
                                      else (budgetForEach, budgetToShare));
                        p' = set_budget b p
                    in (p', randomPeer) #
                       forward_loop rnd (Suc i) peers (peersChosen @ [randomPeer]) budgetForEach share p')))"
  by pat_completeness auto
termination
  by (relation "measure (\<lambda>(rnd, i, peers, peersChosen, rest). length (DifferenceString peers peersChosen))")
    (auto simp: DifferenceString_snoc dest!: getRandomPeer_mem intro!: filter_neq_length_less)

declare forward_loop.simps [simp del]

definition forwardSearchRequestWithBudget :: "(nat \<Rightarrow> nat) \<Rightarrow> ext_packet \<Rightarrow> gossiper \<Rightarrow> effect list" where
  "forwardSearchRequestWithBudget rnd e g =
     (let availablePeers = DifferenceString (known_peers g) [SenderAddr e]
      in case SearchRequest (Packet e) of
           None \<Rightarrow> []
         | Some r \<Rightarrow>
             if 0 < sreq_Budget r \<and> length availablePeers \<noteq> 0 then
               sends (forward_loop rnd 0 (known_peers g) [SenderAddr e]
                 (sreq_Budget r div of_nat (length availablePeers)) (sreq_Budget r mod of_nat (length availablePeers))
                 (Packet e))
             else [])"

section \<open>Matching\<close>

definition file_matches :: "(string \<Rightarrow> string \<Rightarrow> bool) \<Rightarrow> string list \<Rightarrow> file_handler \<Rightarrow> file_metadata \<Rightarrow> bool res" where
  "file_matches rx keywords fh m =
     (if containsKeyword rx (FileName m) keywords \<and> FileSize m = 0 then checkAllChunksLocation fh m else Inr False)"

fun count_matches ::
  "(string \<Rightarrow> string \<Rightarrow> bool) \<Rightarrow> string list \<Rightarrow> file_handler \<Rightarrow> file_metadata list \<Rightarrow> nat \<Rightarrow> nat res" where
  "count_matches rx keywords fh [] n = Inr n"
| "count_matches rx keywords fh (m # ms) n =
     res_bind (file_matches rx keywords fh m) (\<lambda>b.
       let n' = (if b then Suc n else n)
       in if n' = matchThreshold then Inr n' else count_matches rx keywords fh ms n')"

definition isFileMatchThresholdReached ::
  "(string \<Rightarrow> string \<Rightarrow> bool) \<Rightarrow> (string fset \<Rightarrow> string list) \<Rightarrow> string list \<Rightarrow> file_handler \<Rightarrow> bool res" where
  "isFileMatchThresholdReached rx ord keywords fh =
     res_bind (count_matches rx keywords fh (map_values ord (filesMetadata fh)) 0)
       (\<lambda>n. Inr (n = matchThreshold))"

definition searchMatchingLocalFiles ::
  "(string \<Rightarrow> string \<Rightarrow> bool) \<Rightarrow> (string fset \<Rightarrow> string list) \<Rightarrow> string list \<Rightarrow> file_handler \<Rightarrow> search_result list" where
  "searchMatchingLocalFiles rx ord keywords fh =
     map (\<lambda>m. \<lparr>sres_FileName = FileName m, sres_MetafileHash = MetafileHash m,
               sres_ChunkMap = ChunkMap m, sres_ChunkCount = ChunkCount m\<rparr>)
       (filter (\<lambda>m. containsKeyword rx (FileName m) keywords \<and> length (ChunkMap m) \<noteq> 0)
         (map_values ord (filesMetadata fh)))"

section \<open>Searching with a growing budget\<close>

text \<open>
  \<open>searchFilesWithTimeout\<close>: what it does at first, and at each tick of its timer.  \<open>None\<close> is the
  end of the goroutine.
\<close>

record searcher =
  sr_packet :: ext_packet
  sr_keywords :: "string list"
  sr_budget :: u64
  sr_increment :: bool

definition with_budget :: "u64 \<Rightarrow> ext_packet \<Rightarrow> ext_packet" where
  "with_budget b e = e\<lparr>Packet := set_budget b (Packet e)\<rparr>"

definition searchFilesWithTimeout ::
  "(nat \<Rightarrow> nat) \<Rightarrow> ext_packet \<Rightarrow> bool \<Rightarrow> gossiper \<Rightarrow> searcher option \<times> effect list" where
  "searchFilesWithTimeout rnd e increment g =
     (case SearchRequest (Packet e) of
        None \<Rightarrow> (None, [])
      | Some r \<Rightarrow>
          (let budget = sreq_Budget r; e' = with_budget (budget - 1) e
           in if budget \<le> 0 then (None, [])
              else (Some \<lparr>sr_packet = e', sr_keywords = sreq_Keywords r, sr_budget = budget, sr_increment = increment\<rparr>,
                    forwardSearchRequestWithBudget rnd e' g)))"

definition searchTick ::
  "(string \<Rightarrow> string \<Rightarrow> bool) \<Rightarrow> (string fset \<Rightarrow> string list) \<Rightarrow> (nat \<Rightarrow> nat) \<Rightarrow> searcher \<Rightarrow> gossiper
     \<Rightarrow> (searcher option \<times> effect list) res" where
  "searchTick rx ord rnd s g =
     (if maxBudget < sr_budget s then Inr (None, [])
      else res_bind (isFileMatchThresholdReached rx ord (sr_keywords s) (fileHandler g)) (\<lambda>reached.
        if reached then Inr (None, if hw3 (config g) then [Println ''SEARCH FINISHED''] else [])
        else (let budget = (if sr_increment s then sr_budget s * 2 else sr_budget s);
                  e = with_budget (budget - 1) (sr_packet s)
              in Inr (Some (s\<lparr>sr_packet := e, sr_budget := budget\<rparr>), forwardSearchRequestWithBudget rnd e g))))"

section \<open>Results\<close>

definition handleSearchResult :: "string \<Rightarrow> search_result \<Rightarrow> gossiper \<Rightarrow> gossiper \<times> effect list" where
  "handleSearchResult origin res g =
     (let fh = fileHandler g; key = hex_encode (sres_MetafileHash res) @ sres_FileName res;
          (metas, fileMetadata, loaded) = LoadOrStore key
            \<lparr>FileName = sres_FileName res, MetafileHash = sres_MetafileHash res,
             ChunkCount = sres_ChunkCount res, ChunkMap = [], FileSize = 0\<rparr> (filesMetadata fh)
      in (g\<lparr>fileHandler := fh\<lparr>filesMetadata := metas\<rparr>\<rparr>,
          if \<not> loaded then
            printSearchMatchMessage (config g) origin res @
            [GoSend (ToFilesSearched (gui_of fileMetadata)), Go (FetchMetafile key origin (sres_ChunkMap res))]
          else []))"

text \<open>
  The goroutine of a new result, when the metafile is in the store (it was there, or its download
  has succeeded): owners and chunk map are brought up to date.
\<close>

definition metafileArrived ::
  "(string fset \<Rightarrow> string list) \<Rightarrow> (u64 fset \<Rightarrow> u64 list) \<Rightarrow> string \<Rightarrow> string \<Rightarrow> u64 list \<Rightarrow> gossiper \<Rightarrow> gossiper res" where
  "metafileArrived ord ord64 key origin chunkMap g =
     (let fh = fileHandler g
      in res_bind (of_option NilAssertion (fmlookup (filesMetadata fh) key)) (\<lambda>fMeta.
         res_bind (of_option NilAssertion (fmlookup (hashDataMap fh) (hex_encode (MetafileHash fMeta)))) (\<lambda>metafile.
         res_bind (updateChunkOwnerMap ord origin chunkMap metafile fh) (\<lambda>fh1.
         res_bind (updateChunkMap ord64 fh1 fMeta metafile) (\<lambda>fMeta'.
           Inr (g\<lparr>fileHandler := fh1\<lparr>filesMetadata := fmupd key fMeta' (filesMetadata fh1)\<rparr>\<rparr>))))))"

section \<open>The budget is split exactly\<close>

definition budget_of :: "gossip_packet \<Rightarrow> u64" where
  "budget_of p = (case SearchRequest p of None \<Rightarrow> 0 | Some r \<Rightarrow> sreq_Budget r)"

lemma set_budget_simps [simp]:
  "SearchRequest p \<noteq> None \<Longrightarrow> budget_of (set_budget b p) = b"
  "set_budget b (set_budget c p) = set_budget b p"
  "SearchRequest (set_budget b p) = None \<longleftrightarrow> SearchRequest p = None"
  by (auto simp: set_budget_def budget_of_def option.map_comp comp_def split: option.split)

lemma forward_loop_spec:
  assumes "distinct peers" and "SearchRequest p \<noteq> None"
    and "unat budgetToShare \<le> length (DifferenceString peers chosen)"
    and "budgetToShare \<noteq> 0 \<longrightarrow> budgetForEach \<noteq> -1"
  shows "let n = length (DifferenceString peers chosen); s = unat budgetToShare; b = unat budgetForEach;
             sent = forward_loop rnd i peers chosen budgetForEach budgetToShare p
    in map (\<lambda>(q, a). unat (budget_of q)) sent = filter (\<lambda>x. x \<noteq> 0) (replicate s (Suc b) @ replicate (n - s) b)
      \<and> distinct (map snd sent) \<and> snd ` set sent \<subseteq> set peers - set chosen
      \<and> (\<forall>(q, a) \<in> set sent. q = set_budget (budget_of q) p)"
  using assms
proof (induction rnd i peers chosen budgetForEach budgetToShare p rule: forward_loop.induct)
  case (1 rnd i peers chosen each share p)
  let ?av = "DifferenceString peers chosen"
  let ?r = "forward_loop rnd i peers chosen each share p"
  show ?case
  proof (cases "length ?av = 0 \<or> share = 0 \<and> each = 0")
    case True
    then have "?r = []" by (subst forward_loop.simps) (auto simp: Let_def)
    with True 1(4) show ?thesis by (auto simp: Let_def)
  next
    case False
    then have ne: "?av \<noteq> []" "length ?av \<noteq> 0" "\<not> (share = 0 \<and> each = 0)" by auto
    obtain a where a: "getRandomPeer (rnd i) ?av = Inr a" "a \<in> set ?av"
      using getRandomPeer_ok [OF ne(1)] by blast
    define b where "b = (if 0 < share then each + 1 else each)"
    define share' where "share' = (if 0 < share then share - 1 else share)"
    have bs: "(if 0 < share then (each + 1, share - 1) else (each, share)) = (b, share')"
      by (simp add: b_def share'_def)
    let ?p = "set_budget b p" and ?c = "chosen @ [a]"
    let ?r' = "forward_loop rnd (Suc i) peers ?c each share' ?p"
    have r: "?r = (?p, a) # ?r'"
      using ne a bs by (subst forward_loop.simps) (simp add: Let_def)
    have dist: "distinct ?av" using 1(2) by (rule DifferenceString_distinct)
    then have av: "length (DifferenceString peers ?c) = length ?av - 1"
      using a(2) by (simp only: DifferenceString_snoc length_filter_neq)
    have share: "unat share' = unat share - 1"
      by (auto simp: share'_def unat_pred word_neq_0_conv [symmetric])
    have b: "unat b = (if share = 0 then unat each else Suc (unat each))"
      using 1(5) unat_Suc_word [OF word_Suc_neq_0, of each] by (auto simp: b_def word_neq_0_conv [symmetric])
    have "b \<noteq> 0" using ne(3) b by (auto simp: unat_eq_0 [symmetric] split: if_splits)
    have pre: "SearchRequest ?p \<noteq> None" "unat share' \<le> length (DifferenceString peers ?c)"
      "share' \<noteq> 0 \<longrightarrow> each \<noteq> -1"
      using 1(3-5) share av by (auto simp: share'_def)
    note IH = 1(1) [OF refl ne(2,3) a(1) bs [symmetric] refl refl 1(2) pre, unfolded Let_def]
    have pos: "0 < length ?av" using ne(2) by simp
    have list: "unat b # filter (\<lambda>x. x \<noteq> 0) (replicate (unat share') (Suc (unat each))
          @ replicate (length ?av - 1 - unat share') (unat each))
        = filter (\<lambda>x. x \<noteq> 0) (replicate (unat share) (Suc (unat each)) @ replicate (length ?av - unat share) (unat each))"
    proof (cases "share = 0")
      case True
      then have "each \<noteq> 0" using ne(3) by simp
      with True pos b show ?thesis
        by (cases "length ?av") (auto simp: share unat_eq_zero)
    next
      case False
      then obtain k where "unat share = Suc k" by (metis unat_eq_0 not0_implies_Suc)
      with False pos b show ?thesis by (simp add: share)
    qed
    have "set peers - set ?c \<subseteq> set peers - set chosen" "a \<notin> set peers - set ?c" by auto
    with IH list a(2) 1(3) show ?thesis
      unfolding r av Let_def by (auto simp del: filter_append filter_replicate)
  qed
qed

lemma sum_list_nonzero: "sum_list (filter (\<lambda>x. x \<noteq> (0::nat)) xs) = sum_list xs"
  by (induction xs) auto

lemma split_budget:
  fixes B :: u64
  assumes "n < 2 ^ 64" and "0 < n"
  defines "each \<equiv> B div of_nat n" and "share \<equiv> B mod of_nat n"
  shows "unat each = unat B div n" "unat share = unat B mod n" "share \<noteq> 0 \<longrightarrow> each \<noteq> -1"
proof -
  have n: "unat (of_nat n :: u64) = n" using assms(1) by (simp add: unat_of_nat)
  show e: "unat each = unat B div n" and s: "unat share = unat B mod n"
    by (simp_all add: each_def share_def unat_div unat_mod n)
  show "share \<noteq> 0 \<longrightarrow> each \<noteq> -1"
  proof (intro impI notI)
    assume "share \<noteq> 0" and "each = -1"
    then have "unat B mod n \<noteq> 0" and "unat B div n = 2 ^ 64 - 1"
      using e s by (auto simp: unat_eq_0 [symmetric] unsigned_minus_1_eq_mask mask_eq_exp_minus_1)
    then have "n \<noteq> 1" by auto
    then have "2 * (unat B div n) \<le> n * (unat B div n)" using assms(2) by (intro mult_le_mono1) simp
    also have "\<dots> \<le> unat B" by (simp add: mult.commute div_times_less_eq_dividend)
    also have "unat B < 2 ^ 64" using unsigned_less [of B] by simp
    finally show False using \<open>unat B div n = 2 ^ 64 - 1\<close> by simp
  qed
qed

text \<open>Sharing out a budget \<open>B\<close> among \<open>n\<close> peers, in whole numbers.\<close>

lemma shares_total:
  fixes B n :: nat
  assumes "0 < n" and "bs = replicate (B mod n) (Suc (B div n)) @ replicate (n - B mod n) (B div n)"
  shows "sum_list bs = B" and "length (filter (\<lambda>x. x \<noteq> 0) bs) = min n B" and "x \<in> set bs \<Longrightarrow> x - B div n \<le> 1"
proof -
  have le: "B mod n \<le> n" using assms(1) by (simp add: less_imp_le)
  have "sum_list bs = B mod n * Suc (B div n) + (n - B mod n) * (B div n)"
    by (simp add: assms(2) sum_list_replicate)
  also have "\<dots> = n * (B div n) + B mod n"
    using le by (simp add: diff_mult_distrib algebra_simps)
  finally show "sum_list bs = B" by simp
  show "length (filter (\<lambda>x. x \<noteq> 0) bs) = min n B"
  proof (cases "B div n = 0")
    case True
    then have "B < n" using assms(1) by (simp add: div_eq_0_iff)
    with True show ?thesis by (simp add: assms(2))
  next
    case False
    then have "n \<le> B" using assms(1) by (simp add: div_eq_0_iff not_less)
    with False le show ?thesis by (simp add: assms(2))
  qed
  show "x - B div n \<le> 1" if x: "x \<in> set bs"
  proof -
    have "x = Suc (B div n) \<or> x = B div n" using x unfolding assms(2) by auto
    then show ?thesis by auto
  qed
qed



section \<open>Duplicate requests\<close>

text \<open>
  C34: after a request was accepted, every request whose origin and sorted keywords read the same is
  recognised as a duplicate until the timeout has passed, and accepted again after it; the order of
  the keywords does not matter, and neither does where one keyword ends and the next begins.
\<close>

theorem duplicate_requests_filtered:
  assumes "isRecentSearchRequest H now now' r fh = (False, r', fh')"
    and "sreq_Origin q @ concat (sort (sreq_Keywords q)) = sreq_Origin r @ concat (sort (sreq_Keywords r))"
  shows "fst (isRecentSearchRequest H t t' q fh') \<longleftrightarrow> t \<le> now' + searchRequestDuplicateTimeout"
proof -
  let ?key = "getKeyFromString H (sreq_Origin r @ concat (sort (sreq_Keywords r)))"
  have "fmlookup (lastSearchRequests fh') ?key = Some now'"
    using assms(1) by (auto simp: isRecentSearchRequest_def request_key_def str_join_nil Let_def split: if_splits)
  then show ?thesis
    using assms(2) by (auto simp: isRecentSearchRequest_def request_key_def str_join_nil Let_def)
qed

theorem duplicate_requests_filtered_witness:
  "let r = \<lparr>sreq_Origin = ''A'', sreq_Budget = 2, sreq_Keywords = [''b'', ''a'']\<rparr>;
       q = \<lparr>sreq_Origin = ''A'', sreq_Budget = 4, sreq_Keywords = [''ab'']\<rparr>;
       (recent, r', fh) = isRecentSearchRequest sample_hash 0 0 r NewFileHandler
   in \<not> recent \<and> fst (isRecentSearchRequest sample_hash 1 1 q fh)"
proof -
  let ?r = "\<lparr>sreq_Origin = ''A'', sreq_Budget = 2, sreq_Keywords = [''b'', ''a'']\<rparr>"
  let ?q = "\<lparr>sreq_Origin = ''A'', sreq_Budget = 4, sreq_Keywords = [''ab'']\<rparr>"
  obtain r' fh where h: "isRecentSearchRequest sample_hash 0 0 ?r NewFileHandler = (False, r', fh)"
    by (simp add: isRecentSearchRequest_def NewFileHandler_def Let_def)
  have "sort [''b'', ''a''] = [''a'', ''b'']" by simp
  then have "sreq_Origin ?q @ concat (sort (sreq_Keywords ?q)) = sreq_Origin ?r @ concat (sort (sreq_Keywords ?r))"
    by simp
  from duplicate_requests_filtered [OF h this, of 1 1] h show ?thesis
    by (simp add: Let_def searchRequestDuplicateTimeout_def)
qed

section \<open>Matching\<close>

lemma count_matches_spec:
  assumes "\<forall>m \<in> set ms. \<exists>b. file_matches rx ks fh m = Inr b" and "n < matchThreshold"
  shows "count_matches rx ks fh ms n =
     Inr (min matchThreshold (n + length (filter (\<lambda>m. file_matches rx ks fh m = Inr True) ms)))"
  using assms
proof (induction ms arbitrary: n)
  case (Cons m ms)
  obtain b where b: "file_matches rx ks fh m = Inr b" using Cons.prems by auto
  show ?case
    using b Cons.IH [of "if b then Suc n else n"] Cons.prems by (auto simp: Let_def)
qed simp

text \<open>
  The search counts as finished exactly when at least two known files match a keyword, are not
  here and have an owner for every chunk, whatever the order in which the files are visited and
  although the count stops early.
\<close>

theorem match_threshold_correct:
  assumes "is_order ord" and "\<forall>k m. fmlookup (filesMetadata fh) k = Some m \<longrightarrow> (\<exists>b. file_matches rx ks fh m = Inr b)"
  shows "isFileMatchThresholdReached rx ord ks fh =
     Inr (2 \<le> card {k. \<exists>m. fmlookup (filesMetadata fh) k = Some m \<and> file_matches rx ks fh m = Inr True})"
proof -
  let ?ms = "map_values ord (filesMetadata fh)" and ?P = "\<lambda>m. file_matches rx ks fh m = Inr True"
  let ?keys = "filter (\<lambda>k. ?P (the (fmlookup (filesMetadata fh) k))) (ord (fmdom (filesMetadata fh)))"
  have "set ?keys = {k. \<exists>m. fmlookup (filesMetadata fh) k = Some m \<and> ?P m}"
    by (auto simp: is_order_set [OF assms(1)] fmlookup_dom_iff dest: fmdomI)
  then have "card {k. \<exists>m. fmlookup (filesMetadata fh) k = Some m \<and> ?P m} = length ?keys"
    using distinct_card [OF distinct_filter [OF is_order_distinct [OF assms(1)]],
        of "\<lambda>k. ?P (the (fmlookup (filesMetadata fh) k))" "fmdom (filesMetadata fh)"] by simp
  moreover have "length (filter ?P ?ms) = length ?keys"
    by (simp add: map_values_def filter_map comp_def)
  moreover have "\<forall>m \<in> set ?ms. \<exists>b. file_matches rx ks fh m = Inr b"
    using assms(2) by (auto simp: map_values_set [OF assms(1)])
  ultimately show ?thesis
    using count_matches_spec [of ?ms rx ks fh 0]
    by (simp add: isFileMatchThresholdReached_def matchThreshold_def min_def)
qed

theorem match_threshold_correct_witness:
  "isFileMatchThresholdReached (\<lambda>_ _. False) sorted_list_of_fset [''k''] NewFileHandler = Inr False"
  by (subst match_threshold_correct [OF sorted_is_order]) (simp_all add: NewFileHandler_def)



section \<open>The growing budget\<close>

text \<open>A run of the timer: at each tick the files and peers may be others.\<close>

fun search_run ::
  "(string \<Rightarrow> string \<Rightarrow> bool) \<Rightarrow> (string fset \<Rightarrow> string list) \<Rightarrow> (nat \<Rightarrow> nat) \<Rightarrow> gossiper list \<Rightarrow> searcher \<Rightarrow> searcher option res" where
  "search_run rx ord rnd [] s = Inr (Some s)"
| "search_run rx ord rnd (g # gs) s =
     res_bind (searchTick rx ord rnd s g) (\<lambda>(s', out).
       case s' of None \<Rightarrow> Inr None | Some s'' \<Rightarrow> search_run rx ord rnd gs s'')"

lemma search_run_budget:
  assumes "search_run rx ord rnd gs s = Inr (Some s')"
  shows "sr_increment s' = sr_increment s
     \<and> sr_budget s' = (if sr_increment s then sr_budget s * 2 ^ length gs else sr_budget s)
     \<and> (\<forall>i < length gs. (if sr_increment s then sr_budget s * 2 ^ i else sr_budget s) \<le> maxBudget)"
  using assms
proof (induction gs arbitrary: s)
  case (Cons g gs)
  then obtain t out where t: "searchTick rx ord rnd s g = Inr (Some t, out)" "search_run rx ord rnd gs t = Inr (Some s')"
    by (auto simp: go_simps split: option.splits)
  then have b: "sr_budget s \<le> maxBudget" "sr_increment t = sr_increment s"
    "sr_budget t = (if sr_increment s then sr_budget s * 2 else sr_budget s)"
    by (auto simp: searchTick_def go_simps Let_def not_less split: if_splits)
  have "(if sr_increment s then sr_budget s * 2 ^ i else sr_budget s) \<le> maxBudget" if "i < length (g # gs)" for i
    using that b Cons.IH [OF t(2)] by (cases i) (auto simp: mult.assoc)
  with Cons.IH [OF t(2)] b show ?case by (auto simp: mult.assoc)
qed simp

lemma search_run_total:
  assumes "\<forall>g \<in> set gs. \<exists>b. isFileMatchThresholdReached rx ord (sr_keywords s) (fileHandler g) = Inr b"
  shows "\<exists>r. search_run rx ord rnd gs s = Inr r \<and> (\<forall>s'. r = Some s' \<longrightarrow> sr_keywords s' = sr_keywords s)"
  using assms
proof (induction gs arbitrary: s)
  case (Cons g gs)
  then obtain b where "isFileMatchThresholdReached rx ord (sr_keywords s) (fileHandler g) = Inr b" by auto
  then obtain t out where t: "searchTick rx ord rnd s g = Inr (t, out)" "\<forall>s'. t = Some s' \<longrightarrow> sr_keywords s' = sr_keywords s"
    by (cases "maxBudget < sr_budget s"; cases b) (simp_all add: searchTick_def Let_def)
  show ?case
  proof (cases t)
    case None
    then show ?thesis using t by simp
  next
    case (Some s')
    then show ?thesis using t Cons.IH [of s'] Cons.prems by auto
  qed
qed simp



text \<open>
  A search with a given budget up to the maximum never gives up: as long as too few files match,
  it asks again at every tick with the same budget.
\<close>

theorem search_repeats:
  assumes "\<not> sr_increment s" and "sr_budget s \<le> maxBudget"
    and "\<forall>g \<in> set gs. isFileMatchThresholdReached rx ord (sr_keywords s) (fileHandler g) = Inr False"
  shows "\<exists>s'. search_run rx ord rnd gs s = Inr (Some s') \<and> sr_budget s' = sr_budget s \<and> sr_keywords s' = sr_keywords s"
  using assms
proof (induction gs arbitrary: s)
  case (Cons g gs)
  let ?s = "s\<lparr>sr_packet := with_budget (sr_budget s - 1) (sr_packet s)\<rparr>"
  have "searchTick rx ord rnd s g = Inr (Some ?s, forwardSearchRequestWithBudget rnd (with_budget (sr_budget s - 1) (sr_packet s)) g)"
    using Cons.prems by (simp add: searchTick_def not_less Let_def)
  moreover obtain s' where "search_run rx ord rnd gs ?s = Inr (Some s')" "sr_budget s' = sr_budget s" "sr_keywords s' = sr_keywords s"
    using Cons.IH [of ?s] Cons.prems by auto
  ultimately show ?case by simp
qed simp

theorem search_repeats_witness:
  "let s = \<lparr>sr_packet = \<lparr>Packet = empty_packet, SenderAddr = sample_addr 1\<rparr>, sr_keywords = [''k''],
             sr_budget = 5, sr_increment = False\<rparr>
   in \<exists>s'. search_run (\<lambda>_ _. False) sorted_list_of_fset (\<lambda>_. 0) (replicate 100 (sample_node ''A'' 1)) s = Inr (Some s')
      \<and> sr_budget s' = 5"
proof -
  let ?s = "\<lparr>sr_packet = \<lparr>Packet = empty_packet, SenderAddr = sample_addr 1\<rparr>, sr_keywords = [''k''],
             sr_budget = 5, sr_increment = False\<rparr>"
  have "isFileMatchThresholdReached (\<lambda>_ _. False) sorted_list_of_fset (sr_keywords ?s) (fileHandler (sample_node ''A'' 1)) = Inr False"
    by (simp add: isFileMatchThresholdReached_def sample_node_def NewGossiper_def NewFileHandler_def map_values_def matchThreshold_def)
  then have "\<forall>g \<in> set (replicate 100 (sample_node ''A'' 1)).
      isFileMatchThresholdReached (\<lambda>_ _. False) sorted_list_of_fset (sr_keywords ?s) (fileHandler g) = Inr False" by simp
  moreover have "\<not> sr_increment ?s" "sr_budget ?s \<le> maxBudget" by (simp_all add: maxBudget_def)
  ultimately show ?thesis
    using search_repeats [of ?s "replicate 100 (sample_node ''A'' 1)"] unfolding Let_def by fastforce
qed

end
