(* ===== verification/Sharing.thy ===== *)
theory Sharing
  imports Search
begin

text \<open>
  \<open>gossiper/filesharing.go\<close>: the download of a metafile and of the chunks it lists.  A download
  waits for a reply or for one of two timers; the events that reach it are an argument, and a file
  download gets one list of events for every piece it asks a peer for.  A list that ends too early
  leaves the goroutine waiting, the result \<open>None\<close>.
\<close>

datatype download_event =
    ReplyArrives data_reply
  | RequestTick
  | StopTick

definition data_of :: "data_reply \<Rightarrow> bytes" where
  "data_of r = (case drep_Data r of None \<Rightarrow> [] | Some d \<Rightarrow> d)"

definition set_store :: "(string, bytes) fmap \<Rightarrow> gossiper \<Rightarrow> gossiper" where
  "set_store store g = g\<lparr>fileHandler := (fileHandler g)\<lparr>hashDataMap := store\<rparr>\<rparr>"

definition set_meta :: "string \<Rightarrow> file_metadata \<Rightarrow> gossiper \<Rightarrow> gossiper" where
  "set_meta key fm g = g\<lparr>fileHandler := (fileHandler g)\<lparr>filesMetadata := fmupd key fm (filesMetadata (fileHandler g))\<rparr>\<rparr>"

definition set_owners :: "(string, string list) fmap \<Rightarrow> gossiper \<Rightarrow> gossiper" where
  "set_owners owners g = g\<lparr>fileHandler := (fileHandler g)\<lparr>chunkOwners := owners\<rparr>\<rparr>"

section \<open>One piece\<close>

text \<open>
  The loop of \<open>downloadDataFromPeer\<close>.  The request is one packet: each forwarding, at the start and
  at every tick, decrements its hop limit.
\<close>

fun download_loop ::
  "string \<Rightarrow> string \<Rightarrow> bytes \<Rightarrow> u64 \<Rightarrow> gossip_packet \<Rightarrow> download_event list \<Rightarrow> gossiper
     \<Rightarrow> (bool option \<times> gossiper \<times> effect list) res" where
  "download_loop fileName peer hash seqNum p [] g = Inr (None, g, [])"
| "download_loop fileName peer hash seqNum p (ReplyArrives r # evs) g =
     Inr (Some True, set_store (fst (LoadOrStore (hex_encode hash) (data_of r) (hashDataMap (fileHandler g)))) g, [])"
| "download_loop fileName peer hash seqNum p (StopTick # evs) g = Inr (Some False, g, [])"
| "download_loop fileName peer hash seqNum p (RequestTick # evs) g =
     res_bind (forwardPrivateMessage (routingHandler g) HopDataRequest peer p) (\<lambda>(p', ps).
       res_bind (download_loop fileName peer hash seqNum p' evs g) (\<lambda>(r, g', out).
         Inr (r, g', (if hw2 (config g) then printDownloadMessage fileName peer seqNum else []) @ sends ps @ out)))"

definition data_request_packet :: "gossiper \<Rightarrow> string \<Rightarrow> bytes \<Rightarrow> gossip_packet" where
  "data_request_packet g peer hash = empty_packet\<lparr>DataRequest :=
     Some \<lparr>dreq_Origin = node_name g, dreq_Destination = peer, dreq_HopLimit = word_of_int (hopLimit (config g)),
           dreq_HashValue = hash\<rparr>\<rparr>"

definition reply_key :: "(bytes \<Rightarrow> bytes) \<Rightarrow> bytes \<Rightarrow> string \<Rightarrow> string" where
  "reply_key H hash peer = getKeyFromString H (hex_encode hash @ peer)"

definition downloadDataFromPeer ::
  "(bytes \<Rightarrow> bytes) \<Rightarrow> string \<Rightarrow> string \<Rightarrow> bytes \<Rightarrow> u64 \<Rightarrow> download_event list \<Rightarrow> gossiper
     \<Rightarrow> (bool option \<times> gossiper \<times> effect list) res" where
  "downloadDataFromPeer H fileName peer hash seqNum evs g =
     (let fh = fileHandler g;
          g1 = g\<lparr>fileHandler := fh\<lparr>hashChannels := fst (LoadOrStore (reply_key H hash peer) [] (hashChannels fh))\<rparr>\<rparr>;
          printed = (if hw2 (config g) then printDownloadMessage fileName peer seqNum else [])
      in res_bind (forwardPrivateMessage (routingHandler g1) HopDataRequest peer (data_request_packet g peer hash))
           (\<lambda>(p, ps). res_bind (download_loop fileName peer hash seqNum p evs g1) (\<lambda>(r, g', out).
              Inr (r, g', printed @ sends ps @ out))))"

definition downloadMetafile ::
  "(bytes \<Rightarrow> bytes) \<Rightarrow> string \<Rightarrow> string \<Rightarrow> bytes \<Rightarrow> download_event list \<Rightarrow> gossiper
     \<Rightarrow> (bool option \<times> gossiper \<times> effect list) res" where
  "downloadMetafile H fileName peer metaHash evs g = downloadDataFromPeer H fileName peer metaHash 0 evs g"

text \<open>
  The goroutine of a new search result: the metafile is fetched from the peer that sent the result,
  unless it is here.
\<close>

definition fetchMetafile ::
  "(bytes \<Rightarrow> bytes) \<Rightarrow> (string fset \<Rightarrow> string list) \<Rightarrow> (u64 fset \<Rightarrow> u64 list) \<Rightarrow> string \<Rightarrow> string \<Rightarrow> u64 list
     \<Rightarrow> download_event list \<Rightarrow> gossiper \<Rightarrow> (bool \<times> gossiper \<times> effect list) res" where
  "fetchMetafile H ord ord64 key origin chunkMap evs g =
     res_bind (of_option NilAssertion (fmlookup (filesMetadata (fileHandler g)) key)) (\<lambda>fMeta.
       case fmlookup (hashDataMap (fileHandler g)) (hex_encode (MetafileHash fMeta)) of
         Some _ \<Rightarrow> res_bind (metafileArrived ord ord64 key origin chunkMap g) (\<lambda>g'. Inr (True, g', []))
       | None \<Rightarrow>
           res_bind (downloadMetafile H (FileName fMeta) origin (MetafileHash fMeta) evs g) (\<lambda>(r, g1, out).
             case r of
               None \<Rightarrow> Inr (False, g1, out)
             | Some False \<Rightarrow> Inr (True, g1, out)
             | Some True \<Rightarrow> res_bind (metafileArrived ord ord64 key origin chunkMap g1) (\<lambda>g2. Inr (True, g2, out))))"

section \<open>A file\<close>

text \<open>What happens when a peer has sent the chunk, before the loop over the peers is left.\<close>

definition chunkDownloaded ::
  "(string fset \<Rightarrow> string list) \<Rightarrow> (u64 fset \<Rightarrow> u64 list) \<Rightarrow> string \<Rightarrow> string \<Rightarrow> string \<Rightarrow> bytes \<Rightarrow> u64 \<Rightarrow> gossiper \<Rightarrow> gossiper res" where
  "chunkDownloaded ord ord64 key dest peer hashChunk n g =
     (let g1 = (if peer = dest then set_owners (add_owner ord (hex_encode hashChunk) peer (chunkOwners (fileHandler g))) g else g)
      in res_bind (of_option NilAssertion (fmlookup (filesMetadata (fileHandler g1)) key)) (\<lambda>fm.
           Inr (set_meta key (fm\<lparr>ChunkMap := RemoveDuplicatesFromUint64Slice ord64 (InsertToSortUint64Slice (ChunkMap fm) n)\<rparr>) g1)))"

text \<open>The peers are tried in order; the first component tells whether one had the chunk.\<close>

fun try_peers ::
  "(bytes \<Rightarrow> bytes) \<Rightarrow> (string fset \<Rightarrow> string list) \<Rightarrow> (u64 fset \<Rightarrow> u64 list) \<Rightarrow> string \<Rightarrow> string \<Rightarrow> string \<Rightarrow> bytes \<Rightarrow> u64
     \<Rightarrow> string list \<Rightarrow> download_event list list \<Rightarrow> gossiper
     \<Rightarrow> (bool option \<times> download_event list list \<times> gossiper \<times> effect list) res" where
  "try_peers H ord ord64 key fileName dest hashChunk n [] scripts g = Inr (Some False, scripts, g, [])"
| "try_peers H ord ord64 key fileName dest hashChunk n (peer # peers) [] g =
     res_bind (downloadDataFromPeer H fileName peer hashChunk n [] g) (\<lambda>(r, g', out). Inr (None, [], g', out))"
| "try_peers H ord ord64 key fileName dest hashChunk n (peer # peers) (evs # scripts) g =
     res_bind (downloadDataFromPeer H fileName peer hashChunk n evs g) (\<lambda>(r, g1, out).
       case r of
         None \<Rightarrow> Inr (None, scripts, g1, out)
       | Some True \<Rightarrow> res_bind (chunkDownloaded ord ord64 key dest peer hashChunk n g1) (\<lambda>g2. Inr (Some True, scripts, g2, out))
       | Some False \<Rightarrow> res_bind (try_peers H ord ord64 key fileName dest hashChunk n peers scripts g1)
                         (\<lambda>(r', scripts', g2, out'). Inr (r', scripts', g2, out @ out')))"

text \<open>
  The loop over the chunks.  Its state is the buffer, the number of chunks so far and their size;
  \<open>None\<close> is a goroutine that waits for ever in one of the downloads.
\<close>

type_synonym chunk_state = "bytes \<times> nat \<times> nat"

definition copy_chunk :: "nat \<Rightarrow> bytes \<Rightarrow> chunk_state \<Rightarrow> chunk_state res" where
  "copy_chunk i chunk = (\<lambda>(chunksData, counter, sz).
     res_bind (go_slice (i * fileChunk) (i * fileChunk + length chunk) chunksData) (\<lambda>_.
       Inr (overwrite (i * fileChunk) chunk chunksData, Suc counter, sz + length chunk)))"

definition peers_with_chunk :: "string \<Rightarrow> bytes \<Rightarrow> gossiper \<Rightarrow> string list" where
  "peers_with_chunk dest hashChunk g =
     (if dest \<noteq> [] then [dest] else []) @
     (case fmlookup (chunkOwners (fileHandler g)) (hex_encode hashChunk) of None \<Rightarrow> [] | Some l \<Rightarrow> l)"

fun chunk_loop ::
  "(bytes \<Rightarrow> bytes) \<Rightarrow> (string fset \<Rightarrow> string list) \<Rightarrow> (u64 fset \<Rightarrow> u64 list) \<Rightarrow> string \<Rightarrow> string \<Rightarrow> string \<Rightarrow> bytes
     \<Rightarrow> nat list \<Rightarrow> download_event list list \<Rightarrow> gossiper \<Rightarrow> chunk_state
     \<Rightarrow> (chunk_state option \<times> gossiper \<times> effect list) res" where
  "chunk_loop H ord ord64 key fileName dest metafile [] scripts g st = Inr (Some st, g, [])"
| "chunk_loop H ord ord64 key fileName dest metafile (i # is) scripts g st =
     res_bind (metafile_hash metafile i) (\<lambda>hashChunk.
     res_bind (case fmlookup (hashDataMap (fileHandler g)) (hex_encode hashChunk) of
                 Some _ \<Rightarrow> Inr (Some True, scripts, g, [])
               | None \<Rightarrow> try_peers H ord ord64 key fileName dest hashChunk (of_nat i + 1)
                           (peers_with_chunk dest hashChunk g) scripts g)
       (\<lambda>(found, scripts', g1, out).
          if found = None then Inr (None, g1, out)
          else
            res_bind (case fmlookup (hashDataMap (fileHandler g1)) (hex_encode hashChunk) of
                        None \<Rightarrow> Inr st
                      | Some chunk \<Rightarrow> if found = Some True then copy_chunk i chunk st else Inr st)
              (\<lambda>st'. res_bind (chunk_loop H ord ord64 key fileName dest metafile is scripts' g1 st')
                (\<lambda>(r, g2, out'). Inr (r, g2, out @ out')))))"

text \<open>
  The entry of the file and the chunks that are here, when the metafile is in the store: the entry
  and the state with it.
\<close>

definition openMetadata ::
  "(bytes \<Rightarrow> bytes) \<Rightarrow> (u64 fset \<Rightarrow> u64 list) \<Rightarrow> string \<Rightarrow> bytes \<Rightarrow> bytes \<Rightarrow> gossiper \<Rightarrow> (file_metadata \<times> gossiper) res" where
  "openMetadata H ord64 fileName metaHash metafile g =
     (let key = file_key H metaHash fileName;
          (metas, fm0, _) = LoadOrStore key \<lparr>FileName = fileName, MetafileHash = metaHash,
             ChunkCount = of_nat (length metafile div 32), ChunkMap = [], FileSize = 0\<rparr> (filesMetadata (fileHandler g))
      in res_bind (updateChunkMap ord64 (fileHandler g) fm0 metafile) (\<lambda>fm.
           Inr (fm, g\<lparr>fileHandler := (fileHandler g)\<lparr>filesMetadata := fmupd key fm metas\<rparr>\<rparr>)))"

text \<open>After the loop over the chunks: the file is saved if every chunk was there.\<close>

definition finishDownload :: "string \<Rightarrow> string \<Rightarrow> u64 \<Rightarrow> chunk_state \<Rightarrow> gossiper \<Rightarrow> outcome" where
  "finishDownload key fileName chunkCount = (\<lambda>(chunksData, counter, sz) g.
     if unat chunkCount = counter then
       res_bind (go_slice 0 sz chunksData) (\<lambda>content.
       res_bind (of_option NilAssertion (fmlookup (filesMetadata (fileHandler g)) key)) (\<lambda>fm.
         let fm' = fm\<lparr>FileSize := int sz\<rparr>
         in Inr (set_meta key fm' g,
              SaveFile (FileName fm') content #
              (if hw2 (config g) then [Println (''RECONSTRUCTED file '' @ fileName)] else []) @
              [GoSend (ToFilesDownloaded (gui_of fm'))])))
     else Inr (g, []))"

text \<open>The part of \<open>downloadFileChunks\<close> after the metafile is in the store.\<close>

definition downloadWithMetafile ::
  "(bytes \<Rightarrow> bytes) \<Rightarrow> (string fset \<Rightarrow> string list) \<Rightarrow> (u64 fset \<Rightarrow> u64 list) \<Rightarrow> string \<Rightarrow> string \<Rightarrow> bytes
     \<Rightarrow> bytes \<Rightarrow> download_event list list \<Rightarrow> gossiper \<Rightarrow> (bool \<times> gossiper \<times> effect list) res" where
  "downloadWithMetafile H ord ord64 fileName dest metaHash metafile scripts g =
     (let key = file_key H metaHash fileName
      in res_bind (openMetadata H ord64 fileName metaHash metafile g) (\<lambda>(fm, g1).
           if FileSize fm \<noteq> 0 then
             Inr (True, g1, if FileName fm \<noteq> fileName then [CopyFile (FileName fm) fileName] else [])
           else
             res_bind (chunk_loop H ord ord64 key fileName dest metafile [0..<unat (ChunkCount fm)] scripts g1
                        (replicate (unat (ChunkCount fm * of_nat fileChunk)) 0, 0, 0))
               (\<lambda>(r, g2, out).
                  case r of
                    None \<Rightarrow> Inr (False, g2, out)
                  | Some st \<Rightarrow>
                      res_bind (finishDownload key fileName (ChunkCount fm) st g2) (\<lambda>(g3, out').
                        Inr (True, g3, out @ out')))))"

text \<open>The first component tells whether the goroutine has ended.\<close>

definition downloadFileChunks ::
  "(bytes \<Rightarrow> bytes) \<Rightarrow> (string fset \<Rightarrow> string list) \<Rightarrow> (u64 fset \<Rightarrow> u64 list) \<Rightarrow> string \<Rightarrow> string \<Rightarrow> bytes
     \<Rightarrow> download_event list list \<Rightarrow> gossiper \<Rightarrow> (bool \<times> gossiper \<times> effect list) res" where
  "downloadFileChunks H ord ord64 fileName dest metaHash scripts g =
     (case fmlookup (hashDataMap (fileHandler g)) (hex_encode metaHash) of
        Some metafile \<Rightarrow> downloadWithMetafile H ord ord64 fileName dest metaHash metafile scripts g
      | None \<Rightarrow>
          if dest = [] then Inr (True, g, [])
          else
            (let (evs, rest) = (case scripts of [] \<Rightarrow> ([], []) | e # es \<Rightarrow> (e, es))
             in res_bind (downloadMetafile H fileName dest metaHash evs g) (\<lambda>(r, g1, out).
                  case r of
                    None \<Rightarrow> Inr (False, g1, out)
                  | Some False \<Rightarrow> Inr (True, g1, out)
                  | Some True \<Rightarrow>
                      res_bind (of_option NilAssertion (fmlookup (hashDataMap (fileHandler g1)) (hex_encode metaHash)))
                        (\<lambda>metafile. res_bind (downloadWithMetafile H ord ord64 fileName dest metaHash metafile rest g1)
                           (\<lambda>(d, g2, out'). Inr (d, g2, out @ out'))))))"

text \<open>What identifies the files known: a download changes it only by the entry of its own file.\<close>

definition meta_names :: "gossiper \<Rightarrow> (string, string \<times> bytes) fmap" where
  "meta_names g = fmmap (\<lambda>m. (FileName m, MetafileHash m)) (filesMetadata (fileHandler g))"

lemma meta_names_simps [simp]:
  "meta_names (set_store s g) = meta_names g" "meta_names (set_owners os g) = meta_names g"
  by (simp_all add: meta_names_def set_store_def set_owners_def)

lemma meta_names_set:
  assumes "fmlookup (filesMetadata (fileHandler g)) key = Some m" "FileName m' = FileName m" "MetafileHash m' = MetafileHash m"
  shows "meta_names (set_meta key m' g) = meta_names g"
  using assms by (intro fmap_ext) (auto simp: meta_names_def set_meta_def)

section \<open>Requests and retries\<close>

lemma saves_print [simp]: "saves (printDownloadMessage f d n) = []"
  by (simp add: printDownloadMessage_def)

lemma forward_total:
  assumes "get_hop f p \<noteq> None"
  obtains p' ps where "forwardPrivateMessage rh f dest p = Inr (p', ps)" "get_hop f p' \<noteq> None"
proof -
  obtain h where h: "get_hop f p = Some h" using assms by auto
  have "\<exists>p' ps. forwardPrivateMessage rh f dest p = Inr (p', ps) \<and> get_hop f p' \<noteq> None"
    using h get_put_hop [OF assms, of "h - 1"]
    by (auto simp: forwardPrivateMessage_def Let_def split: option.split)
  with that show thesis by blast
qed

lemma forward_known:
  assumes "get_hop f p = Some h" and "fmlookup (routingTable rh) dest = Some a"
  shows "forwardPrivateMessage rh f dest p =
     (if 0 < h then Inr (put_hop f (h - 1) p, [(put_hop f (h - 1) p, a)]) else Inr (p, []))"
  using assms by (simp add: forwardPrivateMessage_def Let_def)

lemma download_ticks:
  assumes "fmlookup (routingTable (routingHandler g)) peer = Some a" and "get_hop HopDataRequest p = Some h"
  shows "\<exists>out. download_loop fileName peer hash n p (replicate k RequestTick) g = Inr (None, g, out)
    \<and> packets_of out = map (\<lambda>i. (put_hop HopDataRequest (h - of_nat (Suc i)) p, a)) [0..<min k (unat h)]"
  using assms(2)
proof (induction k arbitrary: p h)
  case (Suc k)
  let ?pr = "if hw2 (config g) then printDownloadMessage fileName peer n else []"
  have pr: "packets_of ?pr = []" by simp
  show ?case
  proof (cases "h = 0")
    case True
    with Suc.IH [OF Suc.prems] Suc.prems show ?thesis
      by (auto simp: forward_known [OF Suc.prems assms(1)] sends_def)
  next
    case False
    then have h: "0 < h" by (simp add: word_neq_0_conv)
    let ?p = "put_hop HopDataRequest (h - 1) p"
    have "get_hop HopDataRequest ?p = Some (h - 1)" using Suc.prems by (rule hop_put)
    from Suc.IH [OF this] obtain out where out:
      "download_loop fileName peer hash n ?p (replicate k RequestTick) g = Inr (None, g, out)"
      "packets_of out = map (\<lambda>i. (put_hop HopDataRequest (h - 1 - of_nat (Suc i)) p, a)) [0..<min k (unat (h - 1))]"
      unfolding put_put_hop by blast
    have "unat h = Suc (unat (h - 1))" using h by (simp add: unat_pred unat_pos)
    then have "map (\<lambda>i. (put_hop HopDataRequest (h - of_nat (Suc i)) p, a)) [0..<min (Suc k) (unat h)]
        = (?p, a) # map (\<lambda>i. (put_hop HopDataRequest (h - 1 - of_nat (Suc i)) p, a)) [0..<min k (unat (h - 1))]"
      by (simp add: upt_conv_Cons map_Suc_upt [symmetric] comp_def algebra_simps del: upt_Suc)
    with out pr h show ?thesis
      by (simp add: forward_known [OF Suc.prems assms(1)])
  qed
qed simp

text \<open>
  C29: while no reply comes, the request is repeated at every tick with the hop limit one lower than
  the last time, because the same packet is sent again; after as many transmissions as the initial
  limit, the ticks send nothing any more.
\<close>

theorem download_retries:
  assumes "fmlookup (routingTable (routingHandler g)) peer = Some a"
    and "h = (word_of_int (hopLimit (config g)) :: u32)"
  shows "\<exists>g' out. downloadDataFromPeer H fileName peer hash n (replicate k RequestTick) g = Inr (None, g', out)
    \<and> map (\<lambda>(p, b). (get_hop HopDataRequest p, b)) (packets_of out)
        = map (\<lambda>i. (Some (h - of_nat (Suc i)), a)) [0..<min (Suc k) (unat h)]"
proof -
  let ?g = "g\<lparr>fileHandler := (fileHandler g)\<lparr>hashChannels := fst (LoadOrStore (reply_key H hash peer) [] (hashChannels (fileHandler g)))\<rparr>\<rparr>"
  let ?p = "data_request_packet g peer hash"
  have hop: "get_hop HopDataRequest ?p = Some h" by (simp add: data_request_packet_def assms(2))
  have route: "fmlookup (routingTable (routingHandler ?g)) peer = Some a" using assms(1) by simp
  from download_ticks [OF route hop, of fileName hash n "Suc k"]
  obtain out where out: "download_loop fileName peer hash n ?p (replicate (Suc k) RequestTick) ?g = Inr (None, ?g, out)"
    "packets_of out = map (\<lambda>i. (put_hop HopDataRequest (h - of_nat (Suc i)) ?p, a)) [0..<min (Suc k) (unat h)]" by blast
  then have "\<exists>out'. downloadDataFromPeer H fileName peer hash n (replicate k RequestTick) g = Inr (None, ?g, out')
      \<and> packets_of out' = packets_of out"
    by (auto simp: downloadDataFromPeer_def Let_def go_simps)
  moreover have "get_hop HopDataRequest (put_hop HopDataRequest (h - of_nat (Suc i)) ?p) = Some (h - of_nat (Suc i))" for i
    using hop by (rule hop_put)
  ultimately show ?thesis
    using out(2) by (auto simp del: get_hop.simps put_hop.simps of_nat_Suc)
qed

theorem download_retries_witness:
  "let g = (sample_node ''A'' 1)\<lparr>routingHandler := \<lparr>routingTable = fmupd ''B'' (sample_addr 2) fmempty, originLastID = fmupd ''B'' 1 fmempty\<rparr>\<rparr>
   in \<exists>g' out. downloadDataFromPeer sample_hash ''f'' ''B'' [1] 0 (replicate 50 RequestTick) g = Inr (None, g', out)
      \<and> length (packets_of out) = 10"
proof -
  let ?g = "(sample_node ''A'' 1)\<lparr>routingHandler := \<lparr>routingTable = fmupd ''B'' (sample_addr 2) fmempty, originLastID = fmupd ''B'' 1 fmempty\<rparr>\<rparr>"
  have "fmlookup (routingTable (routingHandler ?g)) ''B'' = Some (sample_addr 2)"
    "10 = (word_of_int (hopLimit (config ?g)) :: u32)"
    by (simp_all add: sample_node_def NewGossiper_def initial_config_def)
  from download_retries [OF this, of sample_hash "''f''" "[1]" 0 50]
  obtain g' out where d: "downloadDataFromPeer sample_hash ''f'' ''B'' [1] 0 (replicate 50 RequestTick) ?g = Inr (None, g', out)"
    and m: "map (\<lambda>(p, b). (get_hop HopDataRequest p, b)) (packets_of out)
        = map (\<lambda>i. (Some (10 - of_nat (Suc i) :: u32), sample_addr 2)) [0..<min (Suc 50) (unat (10 :: u32))]" by blast
  have "length (packets_of out) = 10" using arg_cong [OF m, of length] by simp
  with d show ?thesis unfolding Let_def by blast
qed

section \<open>A helpful peer\<close>

text \<open>The events a peer causes that has all the pieces and answers each request after some ticks.\<close>

fun serve ::
  "(bytes \<Rightarrow> bytes) \<Rightarrow> (bytes \<Rightarrow> nat) \<Rightarrow> (bytes \<Rightarrow> data_reply) \<Rightarrow> (string, bytes) fmap \<Rightarrow> bytes list
     \<Rightarrow> download_event list list" where
  "serve H ticks reply store [] = []"
| "serve H ticks reply store (d # ds) =
     (case chunk_fetch store (H d) of
        Some _ \<Rightarrow> serve H ticks reply store ds
      | None \<Rightarrow> (replicate (ticks d) RequestTick @ [ReplyArrives (reply d)])
                 # serve H ticks reply (chunk_keep (H d) d store) ds)"

lemma download_serve:
  assumes "get_hop HopDataRequest p \<noteq> None"
  shows "\<exists>out. download_loop fileName peer hash n p (replicate k RequestTick @ [ReplyArrives r]) g
      = Inr (Some True, set_store (chunk_keep hash (data_of r) (hashDataMap (fileHandler g))) g, out) \<and> saves out = []"
  using assms
proof (induction k arbitrary: p)
  case (Suc k)
  obtain p' ps where f: "forwardPrivateMessage (routingHandler g) HopDataRequest peer p = Inr (p', ps)"
    "get_hop HopDataRequest p' \<noteq> None" using forward_total [OF Suc.prems] .
  have pr: "saves (if hw2 (config g) then printDownloadMessage fileName peer n else []) = []" by simp
  from Suc.IH [OF f(2)] f(1) pr show ?case by auto
qed (simp add: chunk_keep_def)

definition same_but_channels :: "gossiper \<Rightarrow> gossiper \<Rightarrow> bool" where
  "same_but_channels g g' \<longleftrightarrow> hashDataMap (fileHandler g') = hashDataMap (fileHandler g)
     \<and> filesMetadata (fileHandler g') = filesMetadata (fileHandler g)"

lemma downloadDataFromPeer_serve:
  "\<exists>g' out. downloadDataFromPeer H fileName peer hash n (replicate k RequestTick @ [ReplyArrives r]) g
      = Inr (Some True, g', out) \<and> saves out = []
    \<and> hashDataMap (fileHandler g') = chunk_keep hash (data_of r) (hashDataMap (fileHandler g))
    \<and> filesMetadata (fileHandler g') = filesMetadata (fileHandler g)
    \<and> chunkOwners (fileHandler g') = chunkOwners (fileHandler g)"
proof -
  let ?g = "g\<lparr>fileHandler := (fileHandler g)\<lparr>hashChannels := fst (LoadOrStore (reply_key H hash peer) [] (hashChannels (fileHandler g)))\<rparr>\<rparr>"
  have "get_hop HopDataRequest (data_request_packet g peer hash) \<noteq> None" by (simp add: data_request_packet_def)
  then obtain p ps where f: "forwardPrivateMessage (routingHandler ?g) HopDataRequest peer (data_request_packet g peer hash) = Inr (p, ps)"
    "get_hop HopDataRequest p \<noteq> None" by (rule forward_total)
  from download_serve [OF f(2), of fileName peer hash n k r ?g] f(1) show ?thesis
    by (auto simp: downloadDataFromPeer_def Let_def set_store_def)
qed

text \<open>The metadata of the file while it is downloaded: only its chunk map changes.\<close>

definition downloading :: "string \<Rightarrow> string \<Rightarrow> gossiper \<Rightarrow> bool" where
  "downloading key fileName g \<longleftrightarrow>
     (\<exists>fm. fmlookup (filesMetadata (fileHandler g)) key = Some fm \<and> FileName fm = fileName)"

text \<open>For every chunk there is somebody to ask: the peer named, or an owner known from a search.\<close>

definition askable :: "(bytes \<Rightarrow> bytes) \<Rightarrow> string \<Rightarrow> bytes list \<Rightarrow> gossiper \<Rightarrow> bool" where
  "askable H dest ds g \<longleftrightarrow> dest \<noteq> [] \<or>
     (\<forall>d \<in> set ds. \<exists>p ps. fmlookup (chunkOwners (fileHandler g)) (hex_encode (H d)) = Some (p # ps) \<and> p \<noteq> [])"

lemma askable_peers:
  assumes "askable H dest ds g" and "d \<in> set ds"
  obtains p ps where "peers_with_chunk dest (H d) g = p # ps" "dest = [] \<longrightarrow> p \<noteq> []"
  using assms by (cases "dest = []") (auto simp: askable_def peers_with_chunk_def)

lemma askable_owners:
  "askable H dest ds g \<Longrightarrow> dest \<noteq> [] \<or> chunkOwners (fileHandler g') = chunkOwners (fileHandler g) \<Longrightarrow> askable H dest ds g'"
  by (auto simp: askable_def)

lemma try_peers_serve:
  assumes "downloading key fileName g" and "data_of r = d"
  shows "\<exists>g' out. try_peers H ord ord64 key fileName dest hash n (peer # peers)
        ((replicate k RequestTick @ [ReplyArrives r]) # scripts) g = Inr (Some True, scripts, g', out)
    \<and> saves out = [] \<and> downloading key fileName g'
    \<and> hashDataMap (fileHandler g') = chunk_keep hash d (hashDataMap (fileHandler g))
    \<and> (peer \<noteq> dest \<longrightarrow> chunkOwners (fileHandler g') = chunkOwners (fileHandler g))"
proof -
  obtain g1 out where g1: "downloadDataFromPeer H fileName peer hash n (replicate k RequestTick @ [ReplyArrives r]) g
      = Inr (Some True, g1, out)" "saves out = []"
    "hashDataMap (fileHandler g1) = chunk_keep hash (data_of r) (hashDataMap (fileHandler g))"
    "filesMetadata (fileHandler g1) = filesMetadata (fileHandler g)" "chunkOwners (fileHandler g1) = chunkOwners (fileHandler g)"
    using downloadDataFromPeer_serve [of H fileName peer hash n k r g] by blast
  obtain fm where fm: "fmlookup (filesMetadata (fileHandler g)) key = Some fm" "FileName fm = fileName"
    using assms(1) by (auto simp: downloading_def)
  show ?thesis
    using g1 fm assms(2) by (simp add: chunkDownloaded_def set_owners_def set_meta_def downloading_def Let_def)
qed

section \<open>Putting the file together\<close>

definition holds_prefix :: "bytes \<Rightarrow> nat \<Rightarrow> chunk_state \<Rightarrow> bool" where
  "holds_prefix content j = (\<lambda>(buf, counter, sz).
     length buf = numFileChunks (length content) * fileChunk \<and> counter = j
     \<and> sz = min (j * fileChunk) (length content) \<and> take sz buf = take (j * fileChunk) content)"

lemma copy_chunk_prefix:
  assumes "holds_prefix content j st" and "j < numFileChunks (length content)"
  shows "\<exists>st'. copy_chunk j (partBuffer content j) st = Inr st' \<and> holds_prefix content (Suc j) st'"
proof -
  obtain buf sz where st: "st = (buf, j, sz)" "length buf = numFileChunks (length content) * fileChunk"
    "sz = min (j * fileChunk) (length content)" "take sz buf = take (j * fileChunk) content"
    using assms(1) by (auto simp: holds_prefix_def)
  let ?c = "partBuffer content j"
  have j: "j * fileChunk < length content" using assms(2) by (simp add: numFileChunks_less)
  then have sz: "sz = j * fileChunk" using st(3) by simp
  have len: "length ?c = min fileChunk (length content - j * fileChunk)" by (rule partBuffer_length)
  have "Suc j * fileChunk \<le> numFileChunks (length content) * fileChunk" using assms(2) by (intro mult_le_mono1) simp
  then have bound: "j * fileChunk + length ?c \<le> length buf" using len st(2) by (simp add: add.commute)
  have total: "j * fileChunk + length ?c = min (Suc j * fileChunk) (length content)" using j len by (simp add: add.commute)
  have "take (Suc j * fileChunk) content = take (j * fileChunk) content @ ?c"
    using take_add [of "j * fileChunk" fileChunk content] by (simp add: partBuffer_take add.commute)
  then have "take (j * fileChunk + length ?c) (overwrite (j * fileChunk) ?c buf) = take (Suc j * fileChunk) content"
    using st(4) sz bound j by (simp add: overwrite_def)
  with total bound st sz show ?thesis
    by (auto simp: copy_chunk_def holds_prefix_def go_slice_def length_overwrite)
qed

text \<open>What a store has to satisfy for its answers to be right: sound entries, no collisions.\<close>

definition reliable :: "(bytes \<Rightarrow> bytes) \<Rightarrow> bytes list \<Rightarrow> (string, bytes) fmap \<Rightarrow> bool" where
  "reliable H ds store \<longleftrightarrow> store_sound H store \<and> inj_on H (set ds \<union> store_data store)"

lemma reliable_keep:
  assumes "reliable H ds store" "d \<in> set ds"
  shows "reliable H ds (chunk_keep (H d) d store)"
proof -
  have "store_data (chunk_keep (H d) d store) \<subseteq> insert d (store_data store)"
    using chunks.contents_keep [of "H d" d store] by (simp only: chunks_contents)
  with assms show ?thesis
    using chunks.sound_keep [of H store d] unfolding reliable_def chunks_sound
    by (auto intro: inj_on_subset)
qed

lemma reliable_fetch:
  assumes "reliable H ds store" "d \<in> set ds" "chunk_fetch store (H d) = Some e"
  shows "e = d"
proof -
  have "H e = H d" "e \<in> store_data store"
    using assms by (auto simp: reliable_def store_sound_def store_data_def)
  then show ?thesis
    using assms(1,2) inj_onD [of H "set ds \<union> store_data store" e d] by (simp add: reliable_def)
qed

lemma reliable_own:
  assumes "reliable H ds store" "d \<in> set ds"
  shows "chunk_fetch (chunk_keep (H d) d store) (H d) = Some d"
proof -
  have "inj_on H (insert d (store_data store))"
    using assms by (intro inj_on_subset [of H "set ds \<union> store_data store" "insert d (store_data store)"])
      (auto simp: reliable_def)
  then show ?thesis
    using assms chunks.fetch_own [of H store d] unfolding reliable_def chunks_sound chunks_contents by blast
qed

lemma chunk_loop_serve:
  assumes "hash_function H" and "\<forall>d \<in> set ds. data_of (reply d) = d"
    and "set (file_parts content) \<subseteq> set ds"
  shows "askable H dest (file_parts content) g \<Longrightarrow> reliable H ds (hashDataMap (fileHandler g)) \<Longrightarrow> downloading key fileName g \<Longrightarrow> holds_prefix content j st
    \<Longrightarrow> j \<le> numFileChunks (length content)
    \<Longrightarrow> \<exists>st' g' out. chunk_loop H ord ord64 key fileName dest (metafile_of H content) [j..<numFileChunks (length content)]
          (serve H ticks reply (hashDataMap (fileHandler g)) (drop j (file_parts content))) g st = Inr (Some st', g', out)
      \<and> holds_prefix content (numFileChunks (length content)) st' \<and> downloading key fileName g' \<and> saves out = []
      \<and> reliable H ds (hashDataMap (fileHandler g'))
      \<and> (\<forall>h d. chunk_fetch (hashDataMap (fileHandler g)) h = Some d \<longrightarrow> chunk_fetch (hashDataMap (fileHandler g')) h = Some d)
      \<and> (\<forall>d \<in> set (drop j (file_parts content)). chunk_fetch (hashDataMap (fileHandler g')) (H d) = Some d)"
proof (induction "numFileChunks (length content) - j" arbitrary: j g st)
  case 0
  then have "j = numFileChunks (length content)" by simp
  with 0 show ?case by (simp add: file_parts_def)
next
  case (Suc x)
  let ?N = "numFileChunks (length content)" and ?c = "partBuffer content j"
  have j: "j < ?N" and x: "x = ?N - Suc j" using Suc.hyps(2) by simp_all
  have drop: "drop j (file_parts content) = ?c # drop (Suc j) (file_parts content)"
    using j by (simp add: file_parts_def Cons_nth_drop_Suc [symmetric])
  have upt: "[j..<?N] = j # [Suc j..<?N]" using j by (rule upt_conv_Cons)
  have mem: "?c \<in> set ds" using assms(3) j by (auto simp: file_parts_def)
  note hash = metafile_of_hash [OF assms(1) j]
  obtain st1 where st1: "copy_chunk j ?c st = Inr st1" "holds_prefix content (Suc j) st1"
    using copy_chunk_prefix [OF Suc.prems(4) j] by blast
  show ?case
  proof (cases "chunk_fetch (hashDataMap (fileHandler g)) (H ?c)")
    case (Some e)
    then have e: "e = ?c" using reliable_fetch [OF Suc.prems(2) mem] by simp
    obtain st' g' out where IH: "chunk_loop H ord ord64 key fileName dest (metafile_of H content) [Suc j..<?N]
          (serve H ticks reply (hashDataMap (fileHandler g)) (drop (Suc j) (file_parts content))) g st1 = Inr (Some st', g', out)"
      "holds_prefix content ?N st'" "downloading key fileName g'" "saves out = []"
      "reliable H ds (hashDataMap (fileHandler g'))"
      "\<forall>h d. chunk_fetch (hashDataMap (fileHandler g)) h = Some d \<longrightarrow> chunk_fetch (hashDataMap (fileHandler g')) h = Some d"
      "\<forall>d \<in> set (drop (Suc j) (file_parts content)). chunk_fetch (hashDataMap (fileHandler g')) (H d) = Some d"
      using Suc.hyps(1) [OF x Suc.prems(1,2,3) st1(2)] j by auto
    have "fmlookup (hashDataMap (fileHandler g)) (hex_encode (H ?c)) = Some ?c"
      using Some e by (simp add: chunk_fetch_def)
    with IH hash st1(1) Some e show ?thesis
      unfolding upt drop by (intro exI [of _ st'] exI [of _ g'] exI [of _ out]) simp
  next
    case None
    obtain p ps where p: "peers_with_chunk dest (H ?c) g = p # ps" "dest = [] \<longrightarrow> p \<noteq> []"
      using askable_peers [OF Suc.prems(1), of ?c] j by (auto simp: file_parts_def)
    obtain g1 out1 where g1: "try_peers H ord ord64 key fileName dest (H ?c) (of_nat j + 1)
        (peers_with_chunk dest (H ?c) g)
        ((replicate (ticks ?c) RequestTick @ [ReplyArrives (reply ?c)])
          # serve H ticks reply (chunk_keep (H ?c) ?c (hashDataMap (fileHandler g))) (drop (Suc j) (file_parts content))) g
        = Inr (Some True, serve H ticks reply (chunk_keep (H ?c) ?c (hashDataMap (fileHandler g))) (drop (Suc j) (file_parts content)), g1, out1)"
      "saves out1 = []" "downloading key fileName g1"
      "hashDataMap (fileHandler g1) = chunk_keep (H ?c) ?c (hashDataMap (fileHandler g))"
      "p \<noteq> dest \<longrightarrow> chunkOwners (fileHandler g1) = chunkOwners (fileHandler g)"
      using try_peers_serve [OF Suc.prems(3) bspec [OF assms(2) mem]] unfolding p(1) by blast
    have ask: "askable H dest (file_parts content) g1"
      using askable_owners [OF Suc.prems(1)] g1(5) p(2) by blast
    have own: "chunk_fetch (hashDataMap (fileHandler g1)) (H ?c) = Some ?c"
      using reliable_own [OF Suc.prems(2) mem] by (simp add: g1(4))
    have rel: "reliable H ds (hashDataMap (fileHandler g1))"
      using reliable_keep [OF Suc.prems(2) mem] by (simp add: g1(4))
    obtain st' g' out where IH: "chunk_loop H ord ord64 key fileName dest (metafile_of H content) [Suc j..<?N]
          (serve H ticks reply (hashDataMap (fileHandler g1)) (drop (Suc j) (file_parts content))) g1 st1 = Inr (Some st', g', out)"
      "holds_prefix content ?N st'" "downloading key fileName g'" "saves out = []"
      "reliable H ds (hashDataMap (fileHandler g'))"
      "\<forall>h d. chunk_fetch (hashDataMap (fileHandler g1)) h = Some d \<longrightarrow> chunk_fetch (hashDataMap (fileHandler g')) h = Some d"
      "\<forall>d \<in> set (drop (Suc j) (file_parts content)). chunk_fetch (hashDataMap (fileHandler g')) (H d) = Some d"
      using Suc.hyps(1) [OF x ask rel g1(3) st1(2)] j by auto
    have "chunk_fetch (hashDataMap (fileHandler g1)) h = Some d" if "chunk_fetch (hashDataMap (fileHandler g)) h = Some d" for h d
      using that chunks.fetch_keep_mono unfolding g1(4) by blast
    moreover have "fmlookup (hashDataMap (fileHandler g)) (hex_encode (H ?c)) = None"
      using None by (simp add: chunk_fetch_def)
    moreover have "fmlookup (hashDataMap (fileHandler g1)) (hex_encode (H ?c)) = Some ?c"
      using own by (simp add: chunk_fetch_def)
    ultimately show ?thesis
      using IH hash st1(1) None own g1 unfolding upt drop
      by (intro exI [of _ st'] exI [of _ g'] exI [of _ "out1 @ out"]) simp
  qed
qed

lemma downloadWithMetafile_serve:
  assumes H: "hash_function H" and ord: "is_order ord64" and dest: "askable H dest (file_parts content) g" 
    and reply: "\<forall>d \<in> set ds. data_of (reply d) = d"
    and parts: "set (file_parts content) \<subseteq> set ds" and small: "length content < 2 ^ 63"
    and rel: "reliable H ds (hashDataMap (fileHandler g))"
    and new: "fmlookup (filesMetadata (fileHandler g)) (file_key H metaHash fileName) = None"
  shows "\<exists>g' out. downloadWithMetafile H ord ord64 fileName dest metaHash (metafile_of H content)
      (serve H ticks reply (hashDataMap (fileHandler g)) (file_parts content)) g = Inr (True, g', out)
    \<and> saves out = [(fileName, content)]
    \<and> (\<forall>h d. chunk_fetch (hashDataMap (fileHandler g)) h = Some d \<longrightarrow> chunk_fetch (hashDataMap (fileHandler g')) h = Some d)
    \<and> (\<forall>d \<in> set (file_parts content). chunk_fetch (hashDataMap (fileHandler g')) (H d) = Some d)
    \<and> (\<exists>fm. fmlookup (filesMetadata (fileHandler g')) (file_key H metaHash fileName) = Some fm
          \<and> FileName fm = fileName \<and> FileSize fm = int (length content))"
proof -
  let ?N = "numFileChunks (length content)" and ?M = "metafile_of H content" and ?key = "file_key H metaHash fileName"
  have len: "length ?M = 32 * ?N" by (rule length_metafile_of [OF H])
  have "?N * fileChunk < 2 ^ 64"
    using numFileChunks_bounds(1) [of "length content"] small by (simp add: fileChunk_def)
  then have N: "?N < 2 ^ 64" "?N * fileChunk < 2 ^ 64" by (auto simp: fileChunk_def)
  have c: "unat (of_nat ?N :: u64) = ?N" "unat (of_nat fileChunk :: u64) = fileChunk"
    using N(1) by (simp_all add: unat_of_nat fileChunk_def)
  have "unat (of_nat ?N * of_nat fileChunk :: u64) = ?N * fileChunk"
    unfolding unat_word_ariths(2) c using N(2) by simp
  with c(1) have cnt: "unat (of_nat (length ?M div 32) :: u64) = ?N"
    "unat (of_nat (length ?M div 32) * of_nat fileChunk :: u64) = ?N * fileChunk"
    by (simp_all add: len)
  let ?fm0 = "\<lparr>FileName = fileName, MetafileHash = metaHash, ChunkCount = of_nat (length ?M div 32), ChunkMap = [], FileSize = 0\<rparr>"
  have "\<forall>i \<in> set [0..<?N]. 32 * Suc i \<le> length ?M" by (auto simp: len)
  from updateChunkMap_loop_spec [OF ord this, of "hashDataMap (fileHandler g)" "[]"]
  obtain cm where cm: "updateChunkMap ord64 (fileHandler g) ?fm0 ?M = Inr (?fm0\<lparr>ChunkMap := cm\<rparr>)"
    by (auto simp: updateChunkMap_def cnt(1))
  let ?fm = "?fm0\<lparr>ChunkMap := cm\<rparr>"
  define g1 where "g1 = g\<lparr>fileHandler := (fileHandler g)\<lparr>filesMetadata := fmupd ?key ?fm (fmupd ?key ?fm0 (filesMetadata (fileHandler g)))\<rparr>\<rparr>"
  have g1: "hashDataMap (fileHandler g1) = hashDataMap (fileHandler g)" "downloading ?key fileName g1"
    "dest \<noteq> [] \<or> chunkOwners (fileHandler g1) = chunkOwners (fileHandler g)"
    by (simp_all add: g1_def downloading_def)
  have start: "holds_prefix content 0 (replicate (?N * fileChunk) 0, 0, 0)" by (simp add: holds_prefix_def)
  obtain st' g2 out where loop0: "chunk_loop H ord ord64 ?key fileName dest ?M [0..<?N]
      (serve H ticks reply (hashDataMap (fileHandler g)) (file_parts content)) g1 (replicate (?N * fileChunk) 0, 0, 0)
        = Inr (Some st', g2, out)" "holds_prefix content ?N st'"
    "downloading ?key fileName g2" "saves out = []"
    "\<forall>h d. chunk_fetch (hashDataMap (fileHandler g)) h = Some d \<longrightarrow> chunk_fetch (hashDataMap (fileHandler g2)) h = Some d"
    "\<forall>d \<in> set (file_parts content). chunk_fetch (hashDataMap (fileHandler g2)) (H d) = Some d"
    using chunk_loop_serve [OF H reply parts, of dest g1 ?key fileName 0 _ ord ord64 ticks,
        unfolded g1(1), OF askable_owners [OF dest g1(3)] rel g1(2) start] unfolding drop_0 by blast
  obtain buf cnt' sz where st': "st' = (buf, cnt', sz)" by (cases st')
  note loop = loop0 [unfolded st']
  have st: "cnt' = ?N" "sz = length content" "take sz buf = content" "length content \<le> length buf"
    using loop(2) numFileChunks_bounds(2) [of "length content"] by (auto simp: holds_prefix_def)
  obtain fm2 where fm2: "fmlookup (filesMetadata (fileHandler g2)) ?key = Some fm2" "FileName fm2 = fileName"
    using loop(3) by (auto simp: downloading_def)
  let ?out = "out @ SaveFile fileName content # (if hw2 (config g2) then [Println (''RECONSTRUCTED file '' @ fileName)] else [])
      @ [GoSend (ToFilesDownloaded (gui_of (fm2\<lparr>FileSize := int sz\<rparr>)))]"
  have sl: "go_slice 0 sz buf = Inr content" using st by (simp add: go_slice_def)
  have cnt2: "unat (ChunkCount ?fm) = ?N" "unat (ChunkCount ?fm * of_nat fileChunk) = ?N * fileChunk"
    "FileSize ?fm = 0" using cnt by simp_all
  have "downloadWithMetafile H ord ord64 fileName dest metaHash ?M
      (serve H ticks reply (hashDataMap (fileHandler g)) (file_parts content)) g
      = Inr (True, set_meta ?key (fm2\<lparr>FileSize := int sz\<rparr>) g2, ?out)"
    using loop(1) fm2 sl st(1) cnt cm new
    by (simp add: downloadWithMetafile_def openMetadata_def finishDownload_def Let_def LoadOrStore_absent g1_def)
  moreover have "saves ?out = [(fileName, content)]" using loop(4) by simp
  ultimately show ?thesis
    using loop(5,6) fm2(2) st(2) by (auto simp: set_meta_def)
qed

lemma download_served:
  assumes "hash_function H" and "is_order ord64" and "askable H dest (file_parts content) g"
    and "\<forall>d \<in> set (metafile_of H content # file_parts content). data_of (reply d) = d"
    and "length content < 2 ^ 63"
    and "store_sound H (hashDataMap (fileHandler g))"
    and "inj_on H (set (file_parts content) \<union> {metafile_of H content} \<union> store_data (hashDataMap (fileHandler g)))"
    and "fmlookup (filesMetadata (fileHandler g)) (file_key H (H (metafile_of H content)) fileName) = None"
    and "dest = [] \<longrightarrow> chunk_fetch (hashDataMap (fileHandler g)) (H (metafile_of H content)) \<noteq> None"
  shows "\<exists>g' out. downloadFileChunks H ord ord64 fileName dest (H (metafile_of H content))
      (serve H ticks reply (hashDataMap (fileHandler g)) (metafile_of H content # file_parts content)) g = Inr (True, g', out)
    \<and> saves out = [(fileName, content)]
    \<and> chunk_fetch (hashDataMap (fileHandler g')) (H (metafile_of H content)) = Some (metafile_of H content)
    \<and> (\<forall>d \<in> set (file_parts content). chunk_fetch (hashDataMap (fileHandler g')) (H d) = Some d)
    \<and> (\<exists>fm. fmlookup (filesMetadata (fileHandler g')) (file_key H (H (metafile_of H content)) fileName) = Some fm
          \<and> FileName fm = fileName \<and> FileSize fm = int (length content))"
proof -
  let ?M = "metafile_of H content" and ?ds = "metafile_of H content # file_parts content"
  let ?s = "hashDataMap (fileHandler g)"
  have rel: "reliable H ?ds ?s"
    using assms(6,7) by (simp add: reliable_def insert_commute Un_commute)
  have parts: "set (file_parts content) \<subseteq> set ?ds" and mem: "?M \<in> set ?ds" by auto
  show ?thesis
  proof (cases "chunk_fetch ?s (H ?M)")
    case (Some e)
    then have e: "e = ?M" using reliable_fetch [OF rel mem] by simp
    have "fmlookup ?s (hex_encode (H ?M)) = Some ?M" using Some e by (simp add: chunk_fetch_def)
    then show ?thesis
      using downloadWithMetafile_serve [OF assms(1-4) parts assms(5) rel assms(8), of ord ticks] Some e
      by (simp add: downloadFileChunks_def) blast
  next
    case None
    then have dest: "dest \<noteq> []" using assms(9) by blast
    then have ask: "askable H dest (file_parts content) g'" for g' by (simp add: askable_def)
    obtain g1 out1 where g1: "downloadDataFromPeer H fileName dest (H ?M) 0 (replicate (ticks ?M) RequestTick @ [ReplyArrives (reply ?M)]) g
        = Inr (Some True, g1, out1)" "saves out1 = []" "hashDataMap (fileHandler g1) = chunk_keep (H ?M) ?M ?s"
      "filesMetadata (fileHandler g1) = filesMetadata (fileHandler g)"
      using downloadDataFromPeer_serve [of H fileName dest "H ?M" 0 "ticks ?M" "reply ?M" g] bspec [OF assms(4) mem] by auto
    have rel1: "reliable H ?ds (hashDataMap (fileHandler g1))"
      using reliable_keep [OF rel mem] by (simp add: g1(3))
    have own: "chunk_fetch (hashDataMap (fileHandler g1)) (H ?M) = Some ?M"
      using reliable_own [OF rel mem] by (simp add: g1(3))
    obtain g' out where d: "downloadWithMetafile H ord ord64 fileName dest (H ?M) ?M
        (serve H ticks reply (hashDataMap (fileHandler g1)) (file_parts content)) g1 = Inr (True, g', out)"
      "saves out = [(fileName, content)]"
      "\<forall>h d. chunk_fetch (hashDataMap (fileHandler g1)) h = Some d \<longrightarrow> chunk_fetch (hashDataMap (fileHandler g')) h = Some d"
      "\<forall>d \<in> set (file_parts content). chunk_fetch (hashDataMap (fileHandler g')) (H d) = Some d"
      "\<exists>fm. fmlookup (filesMetadata (fileHandler g')) (file_key H (H ?M) fileName) = Some fm
          \<and> FileName fm = fileName \<and> FileSize fm = int (length content)"
      using downloadWithMetafile_serve [OF assms(1,2) ask assms(4) parts assms(5) rel1, of "H ?M" fileName ord ticks] assms(8) g1(4)
      by auto
    have "fmlookup ?s (hex_encode (H ?M)) = None" "fmlookup (hashDataMap (fileHandler g1)) (hex_encode (H ?M)) = Some ?M"
      using None own by (simp_all add: chunk_fetch_def)
    then have "downloadFileChunks H ord ord64 fileName dest (H ?M) (serve H ticks reply ?s ?ds) g = Inr (True, g', out1 @ out)"
      using None g1 d(1) dest by (simp add: downloadFileChunks_def downloadMetafile_def)
    with d own g1(2) show ?thesis by (intro exI [of _ g'] exI [of _ "out1 @ out"]) simp
  qed
qed

text \<open>
  A file that another node has indexed is downloaded byte for byte: from the peer named or, for a
  file found by a search, from the owners of its chunks.  If whoever is asked first answers, each time
  after some ticks, the download ends, exactly one file is written, with the name asked for and the
  content indexed, and afterwards this node has the metafile and every chunk to share.  Pieces that
  are already here are not asked for, whichever they are.
\<close>

theorem download_roundtrip:
  assumes "hash_function H" and "is_order ord64" and "askable H dest (file_parts content) g"
    and "\<forall>d \<in> set (metafile_of H content # file_parts content). data_of (reply d) = d"
    and "length content < 2 ^ 63"
    and "store_sound H (hashDataMap (fileHandler g))"
    and "inj_on H (set (file_parts content) \<union> {metafile_of H content} \<union> store_data (hashDataMap (fileHandler g)))"
    and "fmlookup (filesMetadata (fileHandler g)) (file_key H (H (metafile_of H content)) fileName) = None"
    and "dest = [] \<longrightarrow> chunk_fetch (hashDataMap (fileHandler g)) (H (metafile_of H content)) \<noteq> None"
  shows "\<exists>g' out. downloadFileChunks H ord ord64 fileName dest (H (metafile_of H content))
      (serve H ticks reply (hashDataMap (fileHandler g)) (metafile_of H content # file_parts content)) g = Inr (True, g', out)
    \<and> saves out = [(fileName, content)]
    \<and> chunk_fetch (hashDataMap (fileHandler g')) (H (metafile_of H content)) = Some (metafile_of H content)
    \<and> (\<forall>d \<in> set (file_parts content). chunk_fetch (hashDataMap (fileHandler g')) (H d) = Some d)
    \<and> (\<exists>fm. fmlookup (filesMetadata (fileHandler g')) (file_key H (H (metafile_of H content)) fileName) = Some fm
          \<and> FileName fm = fileName \<and> FileSize fm = int (length content))"
  using assms by (rule download_served)

theorem download_roundtrip_witness:
  "\<exists>scripts g' out. downloadFileChunks sample_hash sorted_list_of_fset sorted_list_of_fset ''f'' ''B''
        (sample_hash (metafile_of sample_hash [7])) scripts (sample_node ''A'' 1) = Inr (True, g', out)
      \<and> saves out = [(''f'', [7])]"
proof -
  let ?reply = "\<lambda>d. \<lparr>drep_Origin = ''B'', drep_Destination = ''A'', drep_HopLimit = 10, drep_HashValue = sample_hash d,
     drep_Data = Some d\<rparr>"
  have s: "hashDataMap (fileHandler (sample_node ''A'' 1)) = fmempty" "filesMetadata (fileHandler (sample_node ''A'' 1)) = fmempty"
    by (simp_all add: sample_node_def NewGossiper_def NewFileHandler_def)
  have "store_sound sample_hash fmempty" "store_data fmempty = {}"
    by (simp_all add: store_sound_def store_data_def chunk_fetch_def)
  moreover have "sample_hash (metafile_of sample_hash [7]) \<noteq> sample_hash [7]"
    by (simp add: metafile_of_def sample_file_parts) (simp add: sample_hash_def)
  then have "inj_on sample_hash (set (file_parts [7]) \<union> {metafile_of sample_hash [7]} \<union> {})"
    by (auto simp: sample_file_parts inj_on_def)
  ultimately show ?thesis
    using download_roundtrip [OF sample_hash_function sorted_is_order, of "''B''" "[7]" "sample_node ''A'' 1" ?reply "''f''"
        sorted_list_of_fset "\<lambda>_. 3"]
    unfolding s by (simp add: data_of_def askable_def) blast
qed

end
