(* ===== verification/TLC.thy ===== *)
theory TLC
  imports AntiEntropy
begin

text \<open>
  Gossip with confirmation and threshold logical clocks: \<open>gossiper/tlc.go\<close> and the handlers of
  \<open>gossiper/blockchainhandler.go\<close>.  A node gossips a message, counts acknowledgements, gossips the
  confirmed message when a majority has acknowledged it, and moves to the next round when it has
  confirmed messages of a majority.  The goroutine that waits for this is a record of its local
  state and a function from the event that wakes it.
\<close>

abbreviation round_of :: "gossiper \<Rightarrow> u32" where
  "round_of g \<equiv> myTime (blockchainHandler g)"

definition majority :: "gossiper \<Rightarrow> nat \<Rightarrow> bool" where
  "majority g n \<longleftrightarrow> unat (Size (peersData g) div 2) < n"

section \<open>Confirmations\<close>

definition sendGossipWithConfirmation ::
  "(string fset \<Rightarrow> string list) \<Rightarrow> app_config \<Rightarrow> ext_packet \<Rightarrow> tlc_message \<Rightarrow> string fset \<Rightarrow> effect list" where
  "sendGossipWithConfirmation ord c e tlc witnesses =
     (if hw3ex2Mode c then printConfirmMessage ord c (tlc_ID tlc) witnesses else []) @
     [Go (StartRumorMongering e (tlc_Origin tlc) (tlc_ID tlc))] @
     (if \<not> hw3ex4Mode c then [GoSend (ToFilesIndexed (gui_of_block (tlc_TxBlock tlc)))] else [])"

text \<open>The confirmed form of a message, created and sent on.\<close>

definition confirm_message ::
  "(string fset \<Rightarrow> string list) \<Rightarrow> tlc_message \<Rightarrow> string fset \<Rightarrow> gossiper
     \<Rightarrow> (tlc_message \<times> gossiper \<times> effect list) res" where
  "confirm_message ord tlc witnesses g =
     res_bind (createTLCMessage ord (tlc_TxBlock tlc) (int (unat (tlc_ID tlc))) (tlc_Fitness tlc) g) (\<lambda>(e, g').
     res_bind (of_option NilAssertion (TLCMessage (Packet e))) (\<lambda>confirmed.
       Inr (confirmed, g', sendGossipWithConfirmation ord (config g) e confirmed witnesses)))"

definition checkForConfirmationsMajority ::
  "(string fset \<Rightarrow> string list) \<Rightarrow> tlc_message \<Rightarrow> bool \<Rightarrow> gossiper \<Rightarrow> (bool \<times> gossiper \<times> effect list) res" where
  "checkForConfirmationsMajority ord tlc delivered g =
     (let bh = blockchainHandler g
      in case fmlookup (confirmations bh) (myTime bh) of
           None \<Rightarrow> Inr (False, g, [])
         | Some conf \<Rightarrow>
             if majority g (map_len conf) then
               (let g1 = g\<lparr>blockchainHandler := bh\<lparr>myTime := myTime bh + 1\<rparr>\<rparr>;
                    printed = printRoundMessage ord (config g) (myTime bh + 1) conf
                in if \<not> delivered then
                     res_bind (confirm_message ord tlc (fmdom (getIDForConfirmations conf)) g1)
                       (\<lambda>(_, g2, out). Inr (True, g2, printed @ out))
                   else Inr (True, g1, printed))
             else Inr (False, g, []))"

record confirmer =
  cf_packet :: ext_packet
  cf_tlc :: tlc_message
  cf_wait :: bool
  cf_witnesses :: "string fset"
  cf_delivered :: bool

text \<open>\<open>None\<close> is the end of the goroutine.\<close>

definition gossipWithConfirmation ::
  "(string fset \<Rightarrow> string list) \<Rightarrow> ext_packet \<Rightarrow> bool \<Rightarrow> gossiper \<Rightarrow> (confirmer option \<times> gossiper \<times> effect list) res" where
  "gossipWithConfirmation ord e waitConfirmations g =
     res_bind (of_option NilAssertion (TLCMessage (Packet e))) (\<lambda>tlc.
       let started = (if hw3ex2Mode (config g) then printPeerMessage (config g) e (known_peers g) else []) @
                     [Go (StartRumorMongering e (node_name g) (tlc_ID tlc))]
       in res_bind (if waitConfirmations then checkForConfirmationsMajority ord tlc False g else Inr (False, g, []))
            (\<lambda>(done, g', out).
               if done then Inr (None, g', started @ out)
               else if 0 < stubbornTimeout (config g) then
                 Inr (Some \<lparr>cf_packet = e, cf_tlc = tlc, cf_wait = waitConfirmations,
                            cf_witnesses = {|node_name g|}, cf_delivered = False\<rparr>, g', started @ out)
               else Inr (None, g', started @ out)))"

definition tlcRound ::
  "(string fset \<Rightarrow> string list) \<Rightarrow> ext_packet \<Rightarrow> gossiper \<Rightarrow> (confirmer option \<times> gossiper \<times> effect list) res" where
  "tlcRound ord e g = gossipWithConfirmation ord e True g"

datatype confirm_event =
    AckArrives tlc_ack
  | ConfirmNotified
  | StubbornTick

fun confirmStep ::
  "(string fset \<Rightarrow> string list) \<Rightarrow> confirm_event \<Rightarrow> confirmer \<Rightarrow> gossiper
     \<Rightarrow> (confirmer option \<times> gossiper \<times> effect list) res" where
  "confirmStep ord (AckArrives ack) s g =
     (let tlc = cf_tlc s
      in if priv_ID ack = tlc_ID tlc \<and> \<not> cf_delivered s then
           (let witnesses = finsert (priv_Origin ack) (cf_witnesses s); s1 = s\<lparr>cf_witnesses := witnesses\<rparr>
            in if majority g (fcard witnesses) then
                 res_bind (confirm_message ord tlc witnesses g) (\<lambda>(confirmed, g1, out).
                   if cf_wait s then
                     Inr (Some (s1\<lparr>cf_delivered := True\<rparr>),
                          g1\<lparr>blockchainHandler := saveConfirmation (round_of g1) (tlc_Origin confirmed) confirmed (blockchainHandler g1)\<rparr>,
                          out @ [GoSend ToTlcConfirm])
                   else Inr (None, g1, out))
               else Inr (Some s1, g, []))
         else Inr (Some s, g, []))"
| "confirmStep ord ConfirmNotified s g =
     (if cf_wait s then
        res_bind (checkForConfirmationsMajority ord (cf_tlc s) (cf_delivered s) g) (\<lambda>(done, g', out).
          Inr (if done then None else Some s, g', out))
      else Inr (Some s, g, []))"
| "confirmStep ord StubbornTick s g =
     Inr (Some s, g,
       (if hw3ex2Mode (config g) then printPeerMessage (config g) (cf_packet s) (known_peers g) else []) @
       [Go (StartRumorMongering (cf_packet s) (node_name g) (tlc_ID (cf_tlc s)))])"

section \<open>New blocks\<close>

text \<open>\<open>fitness\<close> is the random number of \<open>rand.Float32\<close>.\<close>

definition createAndPublishTxBlock ::
  "(string fset \<Rightarrow> string list) \<Rightarrow> float32 \<Rightarrow> file_metadata \<Rightarrow> gossiper \<Rightarrow> (confirmer option \<times> gossiper \<times> effect list) res" where
  "createAndPublishTxBlock ord fitness fileMetadata g =
     (let tx = \<lparr>tx_Name = FileName fileMetadata, tx_Size = FileSize fileMetadata, tx_MetafileHash = MetafileHash fileMetadata\<rparr>;
          block = \<lparr>PrevHash = previousBlockHash (blockchainHandler g), Transaction = tx\<rparr>;
          c = config g
      in res_bind (createTLCMessage ord block (-1) fitness g) (\<lambda>(e, g').
           if hw3ex2Mode c \<and> \<not> hw3ex3Mode c \<and> \<not> hw3ex4Mode c then gossipWithConfirmation ord e False g'
           else Inr (None, g', [GoSend (ToPacketChannel ''clientBlock'' e)])))"

section \<open>Messages of other nodes\<close>

definition checkForCausalProperty ::
  "(string fset \<Rightarrow> string list) \<Rightarrow> string \<Rightarrow> status_packet option \<Rightarrow> int \<Rightarrow> udp_addr \<Rightarrow> gossiper
     \<Rightarrow> (bool \<times> gossiper \<times> effect list) res" where
  "checkForCausalProperty ord origin receivedVC confirmedID address g =
     (if confirmedID > -1 then
        res_bind (of_option NilAssertion receivedVC) (\<lambda>vc.
          if \<not> checkIfINeedPeerStatus (myStatus (gossipHandler g)) (Want vc) then
            Inr (True, g\<lparr>blockchainHandler := markConfirmed origin confirmedID (blockchainHandler g)\<rparr>, [])
          else Inr (False, g, [SendPacket (status_of ord (gossipHandler g)) address]))
      else Inr (False, g, []))"

definition ack_packet :: "gossiper \<Rightarrow> tlc_message \<Rightarrow> gossip_packet" where
  "ack_packet g tlc = empty_packet\<lparr>Ack := Some \<lparr>priv_Origin = node_name g, priv_ID = tlc_ID tlc, priv_Text = [],
     priv_Destination = tlc_Origin tlc, priv_HopLimit = word_of_int (hopLimit (config g))\<rparr>\<rparr>"

text \<open>
  \<open>handleTLCMessage\<close> for one packet, in the code's two parts: the acknowledgement, and what is done
  with a confirmed message.  A message that comes too early is put back on the queue, by a goroutine
  that sleeps first.
\<close>

definition acknowledge ::
  "tlc_message \<Rightarrow> u32 \<Rightarrow> gossiper \<Rightarrow> (gossiper \<times> effect list) res" where
  "acknowledge tlc messageRound g =
     (let c = config g
      in res_bind (if \<not> hw3ex4Mode c then Inr True
                   else of_option NoReturn (isTxBlockValid (blockchainHandler g) (tlc_TxBlock tlc))) (\<lambda>valid.
           if valid \<and> (\<not> hw3ex3Mode c \<or> ackAllMode c \<or> round_of g \<le> messageRound) \<and> \<not> tlc_Confirmed tlc > -1 then
             Inr (if hw3ex4Mode c
                  then g\<lparr>blockchainHandler := saveMessageSeen messageRound (tlc_Origin tlc) tlc (blockchainHandler g)\<rparr> else g,
                  (if hw3ex2Mode c \<or> hw3ex3Mode c
                   then [Println (''SENDING ACK origin '' @ tlc_Origin tlc @ '' ID '' @ show_u32 (tlc_ID tlc))] else []) @
                  [Go (ForwardPrivate (ack_packet g tlc) HopAck (tlc_Origin tlc))])
           else Inr (g, [])))"

definition handleTLCMessage :: "(string fset \<Rightarrow> string list) \<Rightarrow> ext_packet \<Rightarrow> gossiper \<Rightarrow> outcome" where
  "handleTLCMessage ord e g =
     res_bind (of_option NilAssertion (TLCMessage (Packet e))) (\<lambda>tlc.
       let (messageRound, bh) = getMessageOriginalRound (tlc_Origin tlc) (tlc_ID tlc) (tlc_Confirmed tlc) (blockchainHandler g);
           g1 = g\<lparr>blockchainHandler := bh\<rparr>; c = config g
       in res_bind (acknowledge tlc messageRound g1) (\<lambda>(g2, out).
            if (hw3ex3Mode c \<or> hw3ex4Mode c) \<and> tlc_Confirmed tlc \<noteq> -1 then
              res_bind (checkForCausalProperty ord (tlc_Origin tlc) (tlc_VectorClock tlc) (tlc_Confirmed tlc) (SenderAddr e) g2)
                (\<lambda>(ok, g3, out2).
                   if ok then
                     Inr (g3\<lparr>blockchainHandler := saveConfirmation messageRound (tlc_Origin tlc) tlc (blockchainHandler g3)\<rparr>,
                          out @ out2 @ [GoSend ToTlcConfirm])
                   else Inr (g3, out @ out2 @ [GoSend (ToPacketChannel ''tlcCausal'' e)]))
            else Inr (g2, out)))"

section \<open>Majorities\<close>

lemma confirm_message_spec:
  assumes "node_inv g" and "seqID (gossipHandler g) \<noteq> -1"
  shows "\<exists>e tlc' g' out. confirm_message ord tlc w g = Inr (tlc', g', out) \<and> node_inv g'
    \<and> g' = g\<lparr>gossipHandler := gossipHandler g'\<rparr> \<and> seqID (gossipHandler g') = seqID (gossipHandler g) + 1
    \<and> tlc_Origin tlc' = node_name g \<and> tlc_Confirmed tlc' = int (unat (tlc_ID tlc))
    \<and> tlc_TxBlock tlc' = tlc_TxBlock tlc \<and> tlc_Fitness tlc' = tlc_Fitness tlc
    \<and> TLCMessage (Packet e) = Some tlc'
    \<and> tasks_of out = [StartRumorMongering e (node_name g) (tlc_ID tlc')] \<and> packets_of out = []"
proof -
  obtain e g' where c: "createTLCMessage ord (tlc_TxBlock tlc) (int (unat (tlc_ID tlc))) (tlc_Fitness tlc) g = Inr (e, g')"
    "node_inv g'" "TLCMessage (Packet e) = Some \<lparr>tlc_Origin = node_name g, tlc_ID = seqID (gossipHandler g),
         tlc_Confirmed = int (unat (tlc_ID tlc)), tlc_TxBlock = tlc_TxBlock tlc,
         tlc_VectorClock = Some (createMyStatusPacket ord (myStatus (gossipHandler g))), tlc_Fitness = tlc_Fitness tlc\<rparr>"
    "g' = g\<lparr>gossipHandler := gossipHandler g'\<rparr>" "seqID (gossipHandler g') = seqID (gossipHandler g) + 1"
    using createTLCMessage_spec [OF assms, of ord "tlc_TxBlock tlc" "int (unat (tlc_ID tlc))" "tlc_Fitness tlc"] by blast
  then show ?thesis
    by (auto simp: confirm_message_def sendGossipWithConfirmation_def)
qed

lemma node_inv_blockchain [simp]: "node_inv (g\<lparr>blockchainHandler := bh\<rparr>) = node_inv g"
  by (simp add: node_inv_def)


definition sample_round :: gossiper where
  "sample_round = (sample_node ''A'' 1)\<lparr>blockchainHandler := NewBlockchainHandler\<lparr>confirmations :=
     fmupd 0 (fmupd ''A'' zero_tlc (fmupd ''B'' zero_tlc fmempty)) fmempty\<rparr>\<rparr>"

lemma sample_round_inv: "node_inv sample_round" "seqID (gossipHandler sample_round) \<noteq> -1"
  by (simp_all add: sample_round_def sample_node_inv)


section \<open>Acknowledgements\<close>

text \<open>A run of the goroutine on a list of events; it stops at the first event that ends it.\<close>

fun confirm_run ::
  "(string fset \<Rightarrow> string list) \<Rightarrow> confirm_event list \<Rightarrow> confirmer \<Rightarrow> gossiper
     \<Rightarrow> (confirmer option \<times> gossiper \<times> effect list) res" where
  "confirm_run ord [] s g = Inr (Some s, g, [])"
| "confirm_run ord (ev # evs) s g =
     res_bind (confirmStep ord ev s g) (\<lambda>(r, g1, out).
       case r of
         None \<Rightarrow> Inr (None, g1, out)
       | Some s1 \<Rightarrow> res_bind (confirm_run ord evs s1 g1) (\<lambda>(r', g2, out'). Inr (r', g2, out @ out')))"

definition acked_by :: "u32 \<Rightarrow> tlc_ack list \<Rightarrow> string fset" where
  "acked_by mid acks = fset_of_list (map priv_Origin (filter (\<lambda>a. priv_ID a = mid) acks))"

lemma acked_by_simps [simp]:
  "acked_by mid [] = {||}"
  "acked_by mid (a # acks) = (if priv_ID a = mid then finsert (priv_Origin a) (acked_by mid acks) else acked_by mid acks)"
  by (simp_all add: acked_by_def)

lemma majority_mono: "majority g (fcard S) \<Longrightarrow> S |\<subseteq>| T \<Longrightarrow> majority g (fcard T)"
  using fcard_mono [of S T] by (simp add: majority_def)

lemma confirm_run_acks:
  assumes "node_inv g" and "seqID (gossipHandler g) \<noteq> -1" and "\<not> cf_wait s" and "\<not> cf_delivered s"
  shows "\<exists>r g' out. confirm_run ord (map AckArrives acks) s g = Inr (r, g', out)
    \<and> (r = None \<longleftrightarrow> (\<exists>a \<in> set acks. priv_ID a = tlc_ID (cf_tlc s))
          \<and> majority g (fcard (cf_witnesses s |\<union>| acked_by (tlc_ID (cf_tlc s)) acks)))
    \<and> length (tasks_of out) = (if r = None then 1 else 0)"
  using assms
proof (induction acks arbitrary: s)
  case (Cons a acks)
  let ?id = "tlc_ID (cf_tlc s)" and ?w = "finsert (priv_Origin a) (cf_witnesses s)"
  show ?case
  proof (cases "priv_ID a = ?id")
    case False
    obtain r g' out where "confirm_run ord (map AckArrives acks) s g = Inr (r, g', out)"
      "r = None \<longleftrightarrow> (\<exists>a \<in> set acks. priv_ID a = ?id) \<and> majority g (fcard (cf_witnesses s |\<union>| acked_by ?id acks))"
      "length (tasks_of out) = (if r = None then 1 else 0)"
      using Cons.IH [OF Cons.prems] by blast
    with False show ?thesis
      by (intro exI [of _ r] exI [of _ g'] exI [of _ out]) (simp add: Let_def)
  next
    case True
    show ?thesis
    proof (cases "majority g (fcard ?w)")
      case maj: True
      obtain e tlc' g' out where "confirm_message ord (cf_tlc s) ?w g = Inr (tlc', g', out)"
        "tasks_of out = [StartRumorMongering e (node_name g) (tlc_ID tlc')]"
        using confirm_message_spec [OF assms(1,2), of ord "cf_tlc s" ?w] by blast
      moreover have "majority g (fcard (cf_witnesses s |\<union>| finsert (priv_Origin a) (acked_by ?id acks)))"
        by (rule majority_mono [OF maj]) auto
      ultimately show ?thesis using True maj Cons.prems(3,4) by (auto simp: Let_def)
    next
      case False
      let ?s = "s\<lparr>cf_witnesses := ?w\<rparr>"
      have s: "cf_tlc ?s = cf_tlc s" "cf_witnesses ?s = ?w" "cf_wait ?s = cf_wait s" "cf_delivered ?s = cf_delivered s"
        by simp_all
      obtain r g' out where IH: "confirm_run ord (map AckArrives acks) ?s g = Inr (r, g', out)"
        "r = None \<longleftrightarrow> (\<exists>a \<in> set acks. priv_ID a = ?id) \<and> majority g (fcard (?w |\<union>| acked_by ?id acks))"
        "length (tasks_of out) = (if r = None then 1 else 0)"
        using Cons.IH [OF Cons.prems(1,2), of ?s, unfolded s] Cons.prems(3,4) by blast
      have "acked_by ?id acks = {||}" if "\<not> (\<exists>a \<in> set acks. priv_ID a = ?id)"
        using that by (simp add: acked_by_def filter_False)
      then have "r = None \<longleftrightarrow> majority g (fcard (cf_witnesses s |\<union>| finsert (priv_Origin a) (acked_by ?id acks)))"
        using IH(2) False by (cases "\<exists>a \<in> set acks. priv_ID a = ?id") auto
      with IH True False Cons.prems(3,4) show ?thesis by (simp add: Let_def)
    qed
  qed
qed simp



section \<open>Confirmed messages of other nodes\<close>

lemma getMessageOriginalRound_same:
  assumes "getMessageOriginalRound origin mid cid bh = (r, bh')"
  shows "confirmations bh' = confirmations bh" "myTime bh' = myTime bh" "chain_inv bh' = chain_inv bh"
  using assms by (auto simp: getMessageOriginalRound_def chain_inv_def Let_def split: prod.splits)

lemma saveMessageSeen_same [simp]:
  "confirmations (saveMessageSeen r origin m bh) = confirmations bh" "myTime (saveMessageSeen r origin m bh) = myTime bh"
  by (simp_all add: saveMessageSeen_def Let_def split: prod.split)

lemma markConfirmed_same [simp]:
  "confirmations (markConfirmed origin i bh) = confirmations bh" "myTime (markConfirmed origin i bh) = myTime bh"
  by (simp_all add: markConfirmed_def Let_def split: prod.split)

text \<open>The bookkeeping of rounds does not touch the chain.\<close>

lemma chain_inv_saves:
  "chain_inv (saveMessageSeen r origin m bh) = chain_inv bh"
  "chain_inv (saveConfirmation r origin m bh) = chain_inv bh"
  "chain_inv (markConfirmed origin i bh) = chain_inv bh"
  by (simp_all add: chain_inv_def saveMessageSeen_def saveConfirmation_def markConfirmed_def Let_def split: prod.split)

lemma saveConfirmation_frozen:
  "r < myTime bh \<Longrightarrow> fmlookup (confirmations (saveConfirmation rnd origin m bh)) r = fmlookup (confirmations bh) r"
  "myTime (saveConfirmation rnd origin m bh) = myTime bh"
  by (auto simp: saveConfirmation_def Let_def LoadOrStore_def split: option.split)

lemma acknowledge_spec:
  assumes "chain_inv (blockchainHandler g)"
  shows "\<exists>g' out. acknowledge tlc r g = Inr (g', out)
    \<and> confirmations (blockchainHandler g') = confirmations (blockchainHandler g) \<and> round_of g' = round_of g
    \<and> config g' = config g \<and> gossipHandler g' = gossipHandler g \<and> chan_sends out = []
    \<and> (tlc_Confirmed tlc > -1 \<longrightarrow> tasks_of out = [])"
proof -
  obtain v where v: "(if \<not> hw3ex4Mode (config g) then Inr True
      else of_option NoReturn (isTxBlockValid (blockchainHandler g) (tlc_TxBlock tlc))) = Inr v"
    using isTxBlockValid_spec [OF assms] by (cases "hw3ex4Mode (config g)") auto
  show ?thesis unfolding acknowledge_def Let_def v by auto
qed

text \<open>What the causal check gives: the confirmation is recorded, or nothing changes.\<close>

lemma causal_check:
  assumes "covered = (\<forall>w \<in> set (Want vc). \<exists>n. fmlookup (myStatus (gossipHandler g)) (Identifier w) = Some n \<and> NextID w \<le> n)"
  shows "if cid > -1 \<and> covered
    then checkForCausalProperty ord origin (Some vc) cid a g
      = Inr (True, g\<lparr>blockchainHandler := markConfirmed origin cid (blockchainHandler g)\<rparr>, [])
    else \<exists>out. checkForCausalProperty ord origin (Some vc) cid a g = Inr (False, g, out) \<and> chan_sends out = [] \<and> tasks_of out = []"
proof -
  have "\<not> checkIfINeedPeerStatus (myStatus (gossipHandler g)) (Want vc) \<longleftrightarrow> covered"
    by (auto simp: assms checkIfINeedPeerStatus_def list_ex_iff not_less split: option.splits)
  then show ?thesis by (cases "cid > -1") (auto simp: checkForCausalProperty_def)
qed

lemma chan_sends_append: "chan_sends (xs @ ys) = chan_sends xs @ chan_sends ys"
  by (induction xs rule: chan_sends.induct) auto



end
