(* ===== verification/QSC.thy ===== *)
theory QSC
  imports TLC
begin

text \<open>
  \<open>gossiper/qsc.go\<close>: consensus in three threshold clock rounds.  In round s a node proposes a
  block, in s+1 it repeats the fittest confirmed proposal and in s+2 the fittest of those; then it
  decides.  A node waits inside each round, so \<open>qscRound\<close> is a state machine whose events are
  those of the threshold clock.  The maps of confirmations are shared by pointer in the code: they
  are looked up again when the decision is made.
\<close>

record qsc_state =
  q_left :: nat
  q_round :: u32
  q_highest :: tlc_message
  q_confirmer :: confirmer

text \<open>Between two rounds: the fittest confirmed message of round \<open>rnd\<close> and the message that repeats it.\<close>

definition qscNext ::
  "(string fset \<Rightarrow> string list) \<Rightarrow> u32 \<Rightarrow> gossiper \<Rightarrow> ((tlc_message \<times> ext_packet) option \<times> gossiper \<times> effect list) res" where
  "qscNext ord rnd g =
     (case fmlookup (confirmations (blockchainHandler g)) rnd of
        None \<Rightarrow> Inr (None, g, [Println ''ERROR: no new round''])
      | Some conf \<Rightarrow>
          (let highest = getTLCWithHighestFitness ord conf
           in res_bind (createTLCMessage ord (tlc_TxBlock highest) (-1) (tlc_Fitness highest) g) (\<lambda>(e, g').
                Inr (Some (highest, e), g', []))))"

text \<open>After round s+2.\<close>

definition qscDecide ::
  "(bytes \<Rightarrow> bytes) \<Rightarrow> (string fset \<Rightarrow> string list) \<Rightarrow> u32 \<Rightarrow> tlc_message \<Rightarrow> gossiper \<Rightarrow> outcome" where
  "qscDecide H ord roundS highestS1 g =
     (let bh = blockchainHandler g
      in case fmlookup (confirmations bh) (roundS + 2) of
           None \<Rightarrow> Inr (g, [Println ''ERROR: no new round''])
         | Some _ \<Rightarrow>
             res_bind (of_option NilAssertion (fmlookup (confirmations bh) roundS)) (\<lambda>confS.
             res_bind (of_option NilAssertion (fmlookup (confirmations bh) (roundS + 1))) (\<lambda>confS1.
             res_bind (checkIfConsensusReached H ord confS confS1 roundS bh) (\<lambda>r.
               case r of
                 Some messageConsensus \<Rightarrow>
                   (let (chosenBlock, bh') = commit_block H messageConsensus bh
                    in res_bind (of_option NoReturn (printConsensusMessage bh' messageConsensus)) (\<lambda>pr.
                       res_bind pr (\<lambda>printed.
                         Inr (g\<lparr>blockchainHandler := bh'\<rparr>,
                              (if tlc_Origin messageConsensus = node_name g
                               then [GoSend (ToFilesIndexed (gui_of_block chosenBlock))] else []) @ printed))))
               | None \<Rightarrow>
                   (let (chosenBlock, bh') = adopt_block H highestS1 bh
                    in Inr (g\<lparr>blockchainHandler := bh'\<rparr>,
                            if tlc_Origin highestS1 = node_name g
                            then [GoSend (ToFilesIndexed (gui_of_block chosenBlock))] else []))))))"

text \<open>
  What follows a round that is over, with \<open>left\<close> rounds to go.  A round can be over at once, when
  the majority is already there.
\<close>

fun qscAdvance ::
  "(bytes \<Rightarrow> bytes) \<Rightarrow> (string fset \<Rightarrow> string list) \<Rightarrow> nat \<Rightarrow> u32 \<Rightarrow> tlc_message \<Rightarrow> gossiper
     \<Rightarrow> (qsc_state option \<times> gossiper \<times> effect list) res" where
  "qscAdvance H ord 0 roundS highest g =
     res_bind (qscDecide H ord roundS highest g) (\<lambda>(g', out). Inr (None, g', out))"
| "qscAdvance H ord (Suc left) roundS highest g =
     res_bind (qscNext ord (roundS + of_nat (1 - left)) g) (\<lambda>(r, g1, out).
       case r of
         None \<Rightarrow> Inr (None, g1, out)
       | Some (highest', e) \<Rightarrow>
           res_bind (tlcRound ord e g1) (\<lambda>(cf, g2, out2).
             case cf of
               Some s \<Rightarrow> Inr (Some \<lparr>q_left = left, q_round = roundS, q_highest = highest', q_confirmer = s\<rparr>, g2, out @ out2)
             | None \<Rightarrow> res_bind (qscAdvance H ord left roundS highest' g2) (\<lambda>(q, g3, out3).
                         Inr (q, g3, out @ out2 @ out3))))"

definition qscRound ::
  "(bytes \<Rightarrow> bytes) \<Rightarrow> (string fset \<Rightarrow> string list) \<Rightarrow> ext_packet \<Rightarrow> gossiper
     \<Rightarrow> (qsc_state option \<times> gossiper \<times> effect list) res" where
  "qscRound H ord e g =
     (let roundS = round_of g
      in res_bind (tlcRound ord e g) (\<lambda>(cf, g1, out).
           case cf of
             Some s \<Rightarrow> Inr (Some \<lparr>q_left = 2, q_round = roundS, q_highest = zero_tlc, q_confirmer = s\<rparr>, g1, out)
           | None \<Rightarrow> res_bind (qscAdvance H ord 2 roundS zero_tlc g1) (\<lambda>(q, g2, out2). Inr (q, g2, out @ out2))))"

text \<open>An event of the threshold clock reaches the waiting goroutine.\<close>

definition qscStep ::
  "(bytes \<Rightarrow> bytes) \<Rightarrow> (string fset \<Rightarrow> string list) \<Rightarrow> confirm_event \<Rightarrow> qsc_state \<Rightarrow> gossiper
     \<Rightarrow> (qsc_state option \<times> gossiper \<times> effect list) res" where
  "qscStep H ord ev q g =
     res_bind (confirmStep ord ev (q_confirmer q) g) (\<lambda>(cf, g1, out).
       case cf of
         Some s \<Rightarrow> Inr (Some (q\<lparr>q_confirmer := s\<rparr>), g1, out)
       | None \<Rightarrow> res_bind (qscAdvance H ord (q_left q) (q_round q) (q_highest q) g1) (\<lambda>(q', g2, out2).
                   Inr (q', g2, out @ out2)))"

text \<open>\<open>processClientBlocks\<close> of \<open>blockchainhandler.go\<close> for one block of the queue.\<close>

datatype block_round = InTlc confirmer | InQsc qsc_state

definition processClientBlocks ::
  "(bytes \<Rightarrow> bytes) \<Rightarrow> (string fset \<Rightarrow> string list) \<Rightarrow> ext_packet \<Rightarrow> gossiper
     \<Rightarrow> (block_round option \<times> gossiper \<times> effect list) res" where
  "processClientBlocks H ord e g =
     (if hw3ex4Mode (config g)
      then res_bind (qscRound H ord e g) (\<lambda>(q, g', out). Inr (map_option InQsc q, g', out))
      else res_bind (tlcRound ord e g) (\<lambda>(cf, g', out). Inr (map_option InTlc cf, g', out)))"

section \<open>Quorums\<close>

text \<open>What a vote relies on: any two quorums have a member in common.\<close>

locale quorum_system =
  fixes members :: "'n set" and quorum :: "'n set \<Rightarrow> bool"
  assumes quorum_members: "quorum Q \<Longrightarrow> Q \<subseteq> members"
    and quorum_meet: "quorum P \<Longrightarrow> quorum Q \<Longrightarrow> P \<inter> Q \<noteq> {}"
begin

text \<open>If every member votes for one value at most, two values cannot both have a quorum.\<close>

lemma one_winner:
  assumes "quorum {n \<in> members. vote n = Some x}" and "quorum {n \<in> members. vote n = Some y}"
  shows "x = y"
  using quorum_meet [OF assms] by auto

lemma quorum_nonempty: "quorum Q \<Longrightarrow> Q \<noteq> {}"
  using quorum_meet [of Q Q] by auto

end

definition majority_of :: "'n set \<Rightarrow> u64 \<Rightarrow> 'n set \<Rightarrow> bool" where
  "majority_of V sz Q \<longleftrightarrow> finite V \<and> card V \<le> unat sz \<and> Q \<subseteq> V \<and> unat (sz div 2) < card Q"

lemma majorities_meet:
  assumes "majority_of V sz P" "majority_of V sz Q"
  shows "P \<inter> Q \<noteq> {}"
proof
  assume "P \<inter> Q = {}"
  have V: "finite V" "P \<subseteq> V" "Q \<subseteq> V" "card V \<le> unat sz" using assms by (auto simp: majority_of_def)
  then have "card P + card Q \<le> card V"
    using card_Un_disjoint [of P Q] \<open>P \<inter> Q = {}\<close> card_mono [of V "P \<union> Q"] finite_subset by (metis Un_least)
  moreover have "unat (sz div 2) = unat sz div 2" by (simp add: unat_div)
  ultimately show False using assms V by (auto simp: majority_of_def)
qed

interpretation maj: quorum_system V "majority_of V sz" for V :: "string set" and sz :: u64
  by unfold_locales (simp add: majority_of_def, rule majorities_meet)

text \<open>
  Two nodes that can both leave the round they are in have confirmed messages of a common node
  for it, as long as the configured network size is not too small.
\<close>

theorem majorities_overlap:
  assumes "fmlookup (confirmations (blockchainHandler g)) (round_of g) = Some conf" and "majority g (map_len conf)"
    and "fmlookup (confirmations (blockchainHandler h)) (round_of h) = Some conf'" and "majority h (map_len conf')"
    and "Size (peersData g) = Size (peersData h)" and "finite V" and "card V \<le> unat (Size (peersData g))"
    and "fset (fmdom conf) \<subseteq> V" and "fset (fmdom conf') \<subseteq> V"
  shows "\<exists>k m m'. fmlookup conf k = Some m \<and> fmlookup conf' k = Some m'"
proof -
  have "majority_of V (Size (peersData g)) (fset (fmdom conf))" "majority_of V (Size (peersData g)) (fset (fmdom conf'))"
    using assms by (simp_all add: majority_of_def majority_def map_len_def fcard.rep_eq)
  from maj.quorum_meet [OF this] show ?thesis by (auto simp: fmlookup_dom_iff)
qed

theorem majorities_overlap_witness:
  "\<exists>k m m'. fmlookup (the (fmlookup (confirmations (blockchainHandler sample_round)) 0)) k = Some m
     \<and> fmlookup (the (fmlookup (confirmations (blockchainHandler sample_round)) 0)) k = Some m' \<and> m = m'"
proof -
  let ?conf = "fmupd ''A'' zero_tlc (fmupd ''B'' zero_tlc fmempty)"
  have c: "fmlookup (confirmations (blockchainHandler sample_round)) (round_of sample_round) = Some ?conf"
    "majority sample_round (map_len ?conf)" "round_of sample_round = 0"
    by (simp_all add: sample_round_def NewBlockchainHandler_def majority_def map_len_def fcard_finsert_if sample_node_def)
  have "card {''A'', ''B''} \<le> unat (Size (peersData sample_round))"
    by (simp add: sample_round_def sample_node_def)
  from majorities_overlap [OF c(1,2) c(1,2) refl _ this] c show ?thesis by auto
qed

section \<open>Agreement\<close>

lemma best_not_nan: "\<not> f32_nan (tlc_Fitness (getTLCWithHighestFitness ord conf))"
  using best_fitness_key [of zero_tlc "map_values ord conf"]
  by (simp add: getTLCWithHighestFitness_def zero_tlc_def)

lemma f32_ge_total: "\<not> f32_nan x \<Longrightarrow> \<not> f32_nan y \<Longrightarrow> f32_ge x y \<or> f32_ge y x"
  by (auto simp: f32_ge_def)

text \<open>
  C8: two nodes that both reach consensus in a round decide for the same block, whatever
  confirmations each of them has, as long as each has seen the proposal the other one decides for;
  and if their chains had the same top before, they have the same top after.
\<close>

theorem consensus_agreement:
  assumes ords: "is_order ord1" "is_order ord2"
    and dec1: "checkIfConsensusReached H ord1 conf1 conf1' r bh1 = Inr (Some m1)"
    and dec2: "checkIfConsensusReached H ord2 conf2 conf2' r bh2 = Inr (Some m2)"
    and seen1: "fmlookup (messageSeen bh1) r = Some seen1" "fmlookup seen1 k1 = Some p2"
      "tlc_Fitness p2 = tlc_Fitness m2" "tlc_TxBlock p2 = tlc_TxBlock m2"
    and seen2: "fmlookup (messageSeen bh2) r = Some seen2" "fmlookup seen2 k2 = Some p1"
      "tlc_Fitness p1 = tlc_Fitness m1" "tlc_TxBlock p1 = tlc_TxBlock m1"
    and hash: "inj_on H {PrevHash (tlc_TxBlock m) @ TxPublish_Hash H (Transaction (tlc_TxBlock m)) | m. m \<in> {m1, m2}}"
    and len: "length (PrevHash (tlc_TxBlock m1)) = 32" "length (PrevHash (tlc_TxBlock m2)) = 32"
    and top: "topBlockchainHash bh1 = topBlockchainHash bh2"
  shows "BlockPublish_Hash H (tlc_TxBlock m1) = BlockPublish_Hash H (tlc_TxBlock m2)
    \<and> topBlockchainHash (snd (commit_block H m1 bh1)) = topBlockchainHash (snd (commit_block H m2 bh2))"
proof -
  note s1 = checkIfConsensusReached_spec [OF ords(1), of H conf1 conf1' r bh1, THEN conjunct2, rule_format, OF dec1]
  note s2 = checkIfConsensusReached_spec [OF ords(2), of H conf2 conf2' r bh2, THEN conjunct2, rule_format, OF dec2]
  have nan: "\<not> f32_nan (tlc_Fitness m1)" "\<not> f32_nan (tlc_Fitness m2)"
    using conjunct1 [OF s1] conjunct1 [OF s2] best_not_nan by auto
  have "\<not> f32_ge (tlc_Fitness m2) (tlc_Fitness m1)
      \<or> BlockPublish_Hash H (tlc_TxBlock m2) = BlockPublish_Hash H (tlc_TxBlock m1)"
    using s1 seen1 by (metis option.inject)
  moreover have "\<not> f32_ge (tlc_Fitness m1) (tlc_Fitness m2)
      \<or> BlockPublish_Hash H (tlc_TxBlock m1) = BlockPublish_Hash H (tlc_TxBlock m2)"
    using s2 seen2 by (metis option.inject)
  ultimately have eq: "BlockPublish_Hash H (tlc_TxBlock m1) = BlockPublish_Hash H (tlc_TxBlock m2)"
    using f32_ge_total [OF nan] by metis
  have "PrevHash (tlc_TxBlock m1) @ TxPublish_Hash H (Transaction (tlc_TxBlock m1))
      = PrevHash (tlc_TxBlock m2) @ TxPublish_Hash H (Transaction (tlc_TxBlock m2))"
  proof (rule inj_onD [OF hash])
    show "H (PrevHash (tlc_TxBlock m1) @ TxPublish_Hash H (Transaction (tlc_TxBlock m1)))
        = H (PrevHash (tlc_TxBlock m2) @ TxPublish_Hash H (Transaction (tlc_TxBlock m2)))"
      using eq by (simp add: BlockPublish_Hash_def)
  qed auto
  then have "TxPublish_Hash H (Transaction (tlc_TxBlock m1)) = TxPublish_Hash H (Transaction (tlc_TxBlock m2))"
    using len by simp
  with eq top show ?thesis
    by (simp add: commit_block_def BlockPublish_Hash_def Let_def)
qed

theorem consensus_agreement_witness:
  "let m = sample_tlc ''A'' 0x3F000000 (sample_block ''f'' zero_hash); conf = fmupd ''A'' m fmempty;
       bh = NewBlockchainHandler\<lparr>messageSeen := fmupd 0 conf fmempty\<rparr>
   in checkIfConsensusReached sample_hash sorted_list_of_fset conf conf 0 bh = Inr (Some m)
      \<and> topBlockchainHash (snd (commit_block sample_hash m bh)) = topBlockchainHash (snd (commit_block sample_hash m bh))"
proof -
  let ?m = "sample_tlc ''A'' 0x3F000000 (sample_block ''f'' zero_hash)"
  let ?conf = "fmupd ''A'' ?m fmempty"
  let ?bh = "NewBlockchainHandler\<lparr>messageSeen := fmupd 0 ?conf fmempty\<rparr>"
  have v: "map_values sorted_list_of_fset ?conf = [?m]"
    by (simp add: map_values_def key_order.ord_singleton)
  have "f32_greater (tlc_Fitness ?m) (tlc_Fitness zero_tlc)"
    by (simp add: sample_tlc_def zero_tlc_def f32_greater_def f32_nan_def f32_key_def)
  then have c: "checkIfConsensusReached sample_hash sorted_list_of_fset ?conf ?conf 0 ?bh = Inr (Some ?m)"
    by (simp add: checkIfConsensusReached_def v Let_def)
  have s: "fmlookup (messageSeen ?bh) 0 = Some ?conf" "fmlookup ?conf ''A'' = Some ?m" by simp_all
  have inj: "inj_on sample_hash {PrevHash (tlc_TxBlock m) @ TxPublish_Hash sample_hash (Transaction (tlc_TxBlock m)) | m. m \<in> {?m, ?m}}"
    by simp
  have len: "length (PrevHash (tlc_TxBlock ?m)) = 32"
    by (simp add: sample_tlc_def sample_block_def zero_hash_def)
  from consensus_agreement [OF sorted_is_order sorted_is_order c c s refl refl s refl refl inj len len refl] c
  show ?thesis unfolding Let_def by blast
qed

section \<open>The decision\<close>

lemma consensus_names_chain:
  "chain hist h bs \<Longrightarrow> \<exists>names. consensus_names hist h acc = Some (Inr names)"
  by (induction bs arbitrary: h acc) (auto simp: consensus_names.simps)



end
