(* ===== verification/MainHandler.thy ===== *)
theory MainHandler
  imports Sharing QSC
begin

text \<open>
  The message loops of \<open>gossiper/mainhandler.go\<close>: for every loop the body that is run on one
  packet of its channel.  A packet reaches a loop through the channel of its type, so the field the
  loop reads is there; a missing one is the nil dereference it would be.
\<close>

section \<open>Gossip\<close>

definition processTLCMessage :: "ext_packet \<Rightarrow> gossiper \<Rightarrow> outcome" where
  "processTLCMessage e g =
     res_bind (of_option NilAssertion (TLCMessage (Packet e))) (\<lambda>t.
       let c = config g
       in Inr (g, Go (HandleGossipMessage e (tlc_Origin t) (tlc_ID t)) #
            (if (hw3ex2Mode c \<or> hw3ex3Mode c \<or> hw3ex4Mode c) \<and> tlc_Origin t \<noteq> node_name g
             then [GoSend (ToPacketChannel ''tlcCausal'' e)] else [])))"

definition processTLCAck :: "ext_packet \<Rightarrow> gossiper \<Rightarrow> outcome" where
  "processTLCAck e g =
     res_bind (of_option NilAssertion (Ack (Packet e))) (\<lambda>a.
       if priv_Destination a = node_name g then Inr (g, [GoSend (ToTlcAck a)])
       else Inr (g, [Go (ForwardPrivate (Packet e) HopAck (priv_Destination a))]))"

definition processRumorMessages :: "(string fset \<Rightarrow> string list) \<Rightarrow> ext_packet \<Rightarrow> gossiper \<Rightarrow> outcome" where
  "processRumorMessages ord e g =
     res_bind (of_option NilAssertion (Rumor (Packet e))) (\<lambda>r.
       handleGossipMessage ord e (rumor_Origin r) (rumor_ID r) g)"

definition processStatusMessages :: "ext_packet \<Rightarrow> gossiper \<Rightarrow> outcome" where
  "processStatusMessages e g =
     res_bind (of_option NilAssertion (Status (Packet e))) (\<lambda>st.
       let peer = addr_string (SenderAddr e);
           printed = (if hw1 (config g) then printStatusMessage (config g) (SenderAddr e) (Want st) (known_peers g) else []);
           started = (if peer |\<in>| statusChannels g then [] else [Go (HandlePeerStatus peer)])
       in Inr (g\<lparr>statusChannels := finsert peer (statusChannels g)\<rparr>,
               printed @ started @ [GoSend (ToStatusChannel peer e)]))"

definition processSimpleMessages :: "ext_packet \<Rightarrow> gossiper \<Rightarrow> outcome" where
  "processSimpleMessages e g =
     res_bind (of_option NilAssertion (Simple (Packet e))) (\<lambda>m.
       let printed = (if hw1 (config g) then printPeerMessage (config g) e (known_peers g) else []);
           p = (Packet e)\<lparr>Simple := Some (m\<lparr>simple_RelayPeerAddr := addr_string (gossiperAddress g)\<rparr>)\<rparr>
       in Inr (g, printed @ [Go (BroadcastToPeers (e\<lparr>Packet := p\<rparr>) (known_peers g))]))"

section \<open>Point to point\<close>

text \<open>The routing table is updated with the destination of the message.\<close>

definition processPrivateMessages :: "ext_packet \<Rightarrow> gossiper \<Rightarrow> outcome" where
  "processPrivateMessages e g =
     res_bind (of_option NilAssertion (Private (Packet e))) (\<lambda>p.
       let (rh, dsdv) = updateRoutingTable (config g) (priv_Destination p) (priv_Text p) (priv_ID p) (SenderAddr e) (routingHandler g);
           g' = g\<lparr>routingHandler := rh\<rparr>
       in if priv_Destination p = node_name g then
            Inr (g', map Println dsdv @
              (if hw2 (config g) then printPeerMessage (config g) e (known_peers g) else []) @
              [GoSend (ToLatestRumors \<lparr>rumor_Origin = priv_Origin p, rumor_ID = 0, rumor_Text = priv_Text p\<rparr>)])
          else Inr (g', map Println dsdv @ [Go (ForwardPrivate (Packet e) HopPrivate (priv_Destination p))]))"

definition processDataRequest :: "ext_packet \<Rightarrow> gossiper \<Rightarrow> outcome" where
  "processDataRequest e g =
     res_bind (of_option NilAssertion (DataRequest (Packet e))) (\<lambda>r.
       if dreq_Destination r = node_name g then
         (let reply = \<lparr>drep_Origin = node_name g, drep_Destination = dreq_Origin r,
                drep_HopLimit = word_of_int (hopLimit (config g)), drep_HashValue = dreq_HashValue r,
                drep_Data = fmlookup (hashDataMap (fileHandler g)) (hex_encode (dreq_HashValue r))\<rparr>
          in Inr (g, [Go (ForwardPrivate (empty_packet\<lparr>DataReply := Some reply\<rparr>) HopDataReply (dreq_Origin r))]))
       else Inr (g, [Go (ForwardPrivate (Packet e) HopDataRequest (dreq_Destination r))]))"

text \<open>The channel is loaded with the found flag ignored, and its type is asserted.\<close>

definition processDataReply :: "(bytes \<Rightarrow> bytes) \<Rightarrow> ext_packet \<Rightarrow> gossiper \<Rightarrow> outcome" where
  "processDataReply H e g =
     res_bind (of_option NilAssertion (DataReply (Packet e))) (\<lambda>r.
       if drep_Destination r = node_name g then
         (case drep_Data r of
            None \<Rightarrow> Inr (g, [])
          | Some d \<Rightarrow>
              if checkHash H (drep_HashValue r) d then
                (let key = reply_key H (drep_HashValue r) (drep_Origin r)
                 in res_bind (of_option NilAssertion (fmlookup (hashChannels (fileHandler g)) key)) (\<lambda>_.
                      Inr (g, [GoSend (ToHashChannel key r)])))
              else Inr (g, []))
       else Inr (g, [Go (ForwardPrivate (Packet e) HopDataReply (drep_Destination r))]))"

section \<open>Searching\<close>

definition processSearchRequest ::
  "(bytes \<Rightarrow> bytes) \<Rightarrow> (string \<Rightarrow> string \<Rightarrow> bool) \<Rightarrow> (string fset \<Rightarrow> string list) \<Rightarrow> int \<Rightarrow> int \<Rightarrow> ext_packet \<Rightarrow> gossiper \<Rightarrow> outcome" where
  "processSearchRequest H rx ord now now' e g =
     res_bind (of_option NilAssertion (SearchRequest (Packet e))) (\<lambda>r.
       let (recent, r1, fh) = isRecentSearchRequest H now now' r (fileHandler g);
           g' = g\<lparr>fileHandler := fh\<rparr>;
           answer = (if sreq_Origin r1 \<noteq> node_name g then
               (let searchResults = searchMatchingLocalFiles rx ord (sreq_Keywords r1) fh
                in if length searchResults \<noteq> 0 then
                     [Go (ForwardPrivate (empty_packet\<lparr>SearchReply := Some \<lparr>srep_Origin = node_name g,
                        srep_Destination = sreq_Origin r1, srep_HopLimit = word_of_int (hopLimit (config g)),
                        srep_Results = searchResults\<rparr>\<rparr>) HopSearchReply (sreq_Origin r1))]
                   else []) else []);
           e' = e\<lparr>Packet := (Packet e)\<lparr>SearchRequest := Some (r1\<lparr>sreq_Budget := sreq_Budget r1 - 1\<rparr>)\<rparr>\<rparr>
       in if \<not> recent then Inr (g', answer @ [Go (ForwardSearchRequest e')]) else Inr (g', []))"

definition processSearchReply :: "ext_packet \<Rightarrow> gossiper \<Rightarrow> outcome" where
  "processSearchReply e g =
     res_bind (of_option NilAssertion (SearchReply (Packet e))) (\<lambda>r.
       if srep_Destination r = node_name g
       then Inr (g, map (\<lambda>res. Go (HandleSearchResult (srep_Origin r) res)) (srep_Results r))
       else Inr (g, [Go (ForwardPrivate (Packet e) HopSearchReply (srep_Destination r))]))"

section \<open>Commands of the client\<close>

text \<open>A pointer that is nil where the code reads through it is a panic.\<close>

definition processClientMessages ::
  "(bytes \<Rightarrow> bytes) \<Rightarrow> (string \<Rightarrow> string + bytes) \<Rightarrow> (string fset \<Rightarrow> string list) \<Rightarrow> client_message \<Rightarrow> gossiper \<Rightarrow> outcome" where
  "processClientMessages H disk ord m g =
     (let c = config g; typeMessage = getTypeFromMessage c m;
          printed = printClientMessage c m (known_peers g)
      in if typeMessage = ''simple'' then
           (let p = empty_packet\<lparr>Simple := Some \<lparr>simple_OriginalName = node_name g,
                  simple_RelayPeerAddr = addr_string (gossiperAddress g), simple_Contents = Text m\<rparr>\<rparr>
            in Inr (g, (if hw1 c then printed else []) @
                 [Go (BroadcastToPeers \<lparr>Packet = p, SenderAddr = gossiperAddress g\<rparr> (known_peers g))]))
         else if typeMessage = ''private'' then
           res_bind (of_option NilAssertion (Destination m)) (\<lambda>dest.
             let p = \<lparr>priv_Origin = node_name g, priv_ID = 0, priv_Text = Text m, priv_Destination = dest,
                      priv_HopLimit = word_of_int (hopLimit c)\<rparr>
             in Inr (g, (if hw2 c then printed else []) @
                  [GoSend (ToLatestRumors \<lparr>rumor_Origin = node_name g, rumor_ID = 0, rumor_Text = Text m\<rparr>),
                   Go (ForwardPrivate (empty_packet\<lparr>Private := Some p\<rparr>) HopPrivate dest)]))
         else if typeMessage = ''rumor'' then
           res_bind (createRumorMessage (Text m) g) (\<lambda>(e, g', out).
             Inr (g', printed @ out @ [Go (StartRumorMongering e (node_name g)
                                (case Rumor (Packet e) of Some r \<Rightarrow> rumor_ID r | None \<Rightarrow> 0))]))
         else if typeMessage = ''file'' then
           res_bind (of_option NilAssertion (File m)) (\<lambda>file.
             let (fh, out) = indexFile H disk c file (fileHandler g) in Inr (g\<lparr>fileHandler := fh\<rparr>, out))
         else if typeMessage = ''dataRequest'' then
           res_bind (of_option NilAssertion (File m)) (\<lambda>file.
           res_bind (of_option NilAssertion (Destination m)) (\<lambda>dest.
           res_bind (of_option NilAssertion (Request m)) (\<lambda>request.
             Inr (g, [Go (DownloadFileChunks file dest request)]))))
         else if typeMessage = ''searchRequest'' then
           res_bind (of_option NilAssertion (Keywords m)) (\<lambda>keywords.
           res_bind (of_option NilAssertion (Budget m)) (\<lambda>budget.
             let keywordsSplitted = RemoveDuplicatesFromStringSlice ord (str_split CHR '','' keywords);
                 needIncrement = (budget = 0);
                 r = \<lparr>sreq_Origin = node_name g, sreq_Budget = (if needIncrement then defaultBudget else budget),
                      sreq_Keywords = keywordsSplitted\<rparr>
             in Inr (g, [Go (SearchFilesWithTimeout \<lparr>Packet = empty_packet\<lparr>SearchRequest := Some r\<rparr>,
                                SenderAddr = gossiperAddress g\<rparr> needIncrement)])))
         else Inr (g, []))"

section \<open>Properties of the message loops\<close>



text \<open>
  What a node sends for a data request is accepted by the node that asked: if the store is
  sound and has the piece, the reply carries it and passes the other node's check.
\<close>

theorem request_reply_roundtrip:
  assumes "store_sound H (hashDataMap (fileHandler server))" and "hash_function H"
    and "chunk_fetch (hashDataMap (fileHandler server)) hash = Some d"
    and "DataRequest (Packet req) = Some \<lparr>dreq_Origin = node_name client, dreq_Destination = node_name server,
           dreq_HopLimit = h, dreq_HashValue = hash\<rparr>"
    and "reply_key H hash (node_name server) |\<in>| fmdom (hashChannels (fileHandler client))"
  shows "\<exists>reply r. processDataRequest req server = Inr (server, [Go (ForwardPrivate reply HopDataReply (node_name client))])
    \<and> DataReply reply = Some r \<and> drep_Data r = Some d
    \<and> processDataReply H \<lparr>Packet = reply, SenderAddr = a\<rparr> client
        = Inr (client, [GoSend (ToHashChannel (reply_key H hash (node_name server)) r)])"
proof -
  have "H d = hash" using assms(1,3) by (simp add: store_sound_def)
  moreover have "length (H d) = 32" using assms(2) by (rule hash_function.length_H)
  ultimately have "checkHash H hash d" by (simp add: checkHash_def)
  moreover have "fmlookup (hashDataMap (fileHandler server)) (hex_encode hash) = Some d"
    using assms(3) by (simp add: chunk_fetch_def)
  ultimately show ?thesis
    using assms(4,5) by (auto simp: processDataRequest_def processDataReply_def Let_def fmlookup_dom_iff)
qed

theorem request_reply_roundtrip_witness:
  "let server = set_store (fmupd (hex_encode (sample_hash [7])) [7] fmempty) (sample_node ''B'' 2);
       key = reply_key sample_hash (sample_hash [7]) ''B'';
       client = (sample_node ''A'' 1)\<lparr>fileHandler := NewFileHandler\<lparr>hashChannels := fmupd key [] fmempty\<rparr>\<rparr>;
       req = \<lparr>Packet = data_request_packet client ''B'' (sample_hash [7]), SenderAddr = sample_addr 1\<rparr>
   in \<exists>reply r. processDataRequest req server = Inr (server, [Go (ForwardPrivate reply HopDataReply ''A'')])
      \<and> DataReply reply = Some r \<and> drep_Data r = Some [7]"
proof -
  let ?server = "set_store (fmupd (hex_encode (sample_hash [7])) [7] fmempty) (sample_node ''B'' 2)"
  let ?key = "reply_key sample_hash (sample_hash [7]) ''B''"
  let ?client = "(sample_node ''A'' 1)\<lparr>fileHandler := NewFileHandler\<lparr>hashChannels := fmupd ?key [] fmempty\<rparr>\<rparr>"
  let ?req = "\<lparr>Packet = data_request_packet ?client ''B'' (sample_hash [7]), SenderAddr = sample_addr 1\<rparr>"
  have st: "hashDataMap (fileHandler ?server) = fmupd (hex_encode (sample_hash [7])) [7] fmempty" "node_name ?server = ''B''"
    "node_name ?client = ''A''" "?key |\<in>| fmdom (hashChannels (fileHandler ?client))"
    by (simp_all add: set_store_def)
  have "store_sound sample_hash (hashDataMap (fileHandler ?server))"
    "chunk_fetch (hashDataMap (fileHandler ?server)) (sample_hash [7]) = Some [7]"
    unfolding st by (simp_all add: store_sound_def chunk_fetch_def split: if_splits)
  moreover have "DataRequest (Packet ?req) = Some \<lparr>dreq_Origin = node_name ?client, dreq_Destination = node_name ?server,
      dreq_HopLimit = word_of_int (hopLimit (config ?client)), dreq_HashValue = sample_hash [7]\<rparr>"
    unfolding st by (simp add: data_request_packet_def)
  ultimately show ?thesis
    using request_reply_roundtrip [of sample_hash ?server "sample_hash [7]" "[7]" ?req ?client] sample_hash_function st
    unfolding Let_def by metis
qed

text \<open>
  C39: a private message for a node there is no route to makes its sender the route: relaying it
  sends it back where it came from.
\<close>

theorem private_message_bounces:
  assumes "routing_inv (routingHandler g)" and "Private (Packet e) = Some p" and "priv_Destination p \<noteq> node_name g"
    and "fmlookup (routingTable (routingHandler g)) (priv_Destination p) = None" and "0 < priv_HopLimit p"
  shows "\<exists>g' out p' q. processPrivateMessages e g = Inr (g', out)
    \<and> tasks_of out = [ForwardPrivate (Packet e) HopPrivate (priv_Destination p)]
    \<and> forwardPrivateMessage (routingHandler g') HopPrivate (priv_Destination p) (Packet e) = Inr (p', [(q, SenderAddr e)])"
proof -
  have "fmlookup (originLastID (routingHandler g)) (priv_Destination p) = None"
    using assms(1,4) by (metis fmdom_notD fmdom_notI routing_inv_def)
  then obtain rh ls where u: "updateRoutingTable (config g) (priv_Destination p) (priv_Text p) (priv_ID p) (SenderAddr e) (routingHandler g) = (rh, ls)"
    "fmlookup (routingTable rh) (priv_Destination p) = Some (SenderAddr e)"
    by (auto simp: updateRoutingTable_def updateLastOriginID_def Let_def)
  have "get_hop HopPrivate (Packet e) = Some (priv_HopLimit p)" using assms(2) by simp
  from forward_known [OF this u(2)] u(1) assms(2,3,5) show ?thesis
    by (auto simp: processPrivateMessages_def Let_def)
qed

theorem private_message_bounces_witness:
  "let p = \<lparr>priv_Origin = ''B'', priv_ID = 0, priv_Text = ''hi'', priv_Destination = ''C'', priv_HopLimit = 9\<rparr>;
       e = \<lparr>Packet = empty_packet\<lparr>Private := Some p\<rparr>, SenderAddr = sample_addr 2\<rparr>
   in \<exists>g' out. processPrivateMessages e (sample_node ''A'' 1) = Inr (g', out)
      \<and> tasks_of out = [ForwardPrivate (Packet e) HopPrivate ''C'']"
proof -
  let ?p = "\<lparr>priv_Origin = ''B'', priv_ID = 0, priv_Text = ''hi'', priv_Destination = ''C'', priv_HopLimit = 9\<rparr>"
  let ?e = "\<lparr>Packet = empty_packet\<lparr>Private := Some ?p\<rparr>, SenderAddr = sample_addr 2\<rparr>"
  have "routing_inv (routingHandler (sample_node ''A'' 1))"
    "fmlookup (routingTable (routingHandler (sample_node ''A'' 1))) ''C'' = None"
    by (simp_all add: sample_node_def NewGossiper_def) (simp add: NewRoutingHandler_def)
  then show ?thesis
    using private_message_bounces [of "sample_node ''A'' 1" ?e ?p] unfolding Let_def by simp blast
qed

text \<open>
  A search request that is not a duplicate is always passed on, with its budget lowered by one
  modulo 2^64: a request that arrives with budget 0 leaves with the greatest budget there is.  A node
  answers with what it has, except to itself.
\<close>

theorem search_request_budget:
  assumes "SearchRequest (Packet e) = Some r"
    and "isRecentSearchRequest H now now' r (fileHandler g) = (False, r1, fh)"
  shows "\<exists>out e'. processSearchRequest H rx ord now now' e g = Inr (g\<lparr>fileHandler := fh\<rparr>, out)
    \<and> ForwardSearchRequest e' \<in> set (tasks_of out) \<and> SenderAddr e' = SenderAddr e
    \<and> budget_of (Packet e') = sreq_Budget r - 1 \<and> (sreq_Budget r = 0 \<longrightarrow> budget_of (Packet e') = -1)
    \<and> length (tasks_of out) = (if sreq_Origin r \<noteq> node_name g \<and> searchMatchingLocalFiles rx ord (sreq_Keywords r1) fh \<noteq> [] then 2 else 1)"
proof -
  have "r1 = r\<lparr>sreq_Keywords := sort (sreq_Keywords r)\<rparr>"
    using assms(2) by (simp add: isRecentSearchRequest_def Let_def split: if_splits)
  with assms show ?thesis
    by (auto simp: processSearchRequest_def budget_of_def Let_def)
qed

theorem search_request_budget_witness:
  "let r = \<lparr>sreq_Origin = ''B'', sreq_Budget = 0, sreq_Keywords = [''k'']\<rparr>;
       e = \<lparr>Packet = empty_packet\<lparr>SearchRequest := Some r\<rparr>, SenderAddr = sample_addr 2\<rparr>
   in \<exists>g' out e'. processSearchRequest sample_hash (\<lambda>_ _. False) sorted_list_of_fset 0 0 e (sample_node ''A'' 1) = Inr (g', out)
      \<and> ForwardSearchRequest e' \<in> set (tasks_of out) \<and> budget_of (Packet e') = -1"
proof -
  let ?r = "\<lparr>sreq_Origin = ''B'', sreq_Budget = 0, sreq_Keywords = [''k'']\<rparr>"
  let ?e = "\<lparr>Packet = empty_packet\<lparr>SearchRequest := Some ?r\<rparr>, SenderAddr = sample_addr 2\<rparr>"
  obtain r1 fh where "isRecentSearchRequest sample_hash 0 0 ?r (fileHandler (sample_node ''A'' 1)) = (False, r1, fh)"
    by (simp add: isRecentSearchRequest_def sample_node_def NewGossiper_def NewFileHandler_def Let_def)
  moreover have "SearchRequest (Packet ?e) = Some ?r" by simp
  ultimately show ?thesis
    using search_request_budget [of ?e ?r sample_hash 0 0 "sample_node ''A'' 1" r1 fh "\<lambda>_ _. False" sorted_list_of_fset]
    unfolding Let_def by force
qed

lemma command_panics_iff:
  assumes "node_inv g" and "seqID (gossipHandler g) \<noteq> -1"
  shows "(\<exists>fault. processClientMessages H disk ord m g = Inl fault) \<longleftrightarrow>
     (getTypeFromMessage (config g) m = ''dataRequest'' \<and> Destination m = None) \<or>
     (getTypeFromMessage (config g) m = ''searchRequest'' \<and> Budget m = None)"
proof -
  let ?t = "getTypeFromMessage (config g) m"
  let ?run = "processClientMessages H disk ord m g"
  obtain e g' out where rumor: "createRumorMessage (Text m) g = Inr (e, g', out)"
    using createRumorMessage_spec [OF assms, of "Text m"] by blast
  consider "?t = ''simple''" | "?t = ''private''" | "?t = ''rumor''" | "?t = ''file''"
    | "?t = ''dataRequest''" | "?t = ''searchRequest''" | "?t = ''unknown''"
    using getTypeFromMessage_values by blast
  then show ?thesis
  proof cases
    case 1 then show ?thesis by (simp add: processClientMessages_def Let_def)
  next
    case 2
    then obtain d where "Destination m = Some d" using getTypeFromMessage_fields(1) by blast
    with 2 show ?thesis by (simp add: processClientMessages_def Let_def)
  next
    case 3 then show ?thesis using rumor by (simp add: processClientMessages_def Let_def)
  next
    case 4
    then obtain f where "File m = Some f" using getTypeFromMessage_fields(2) by blast
    with 4 show ?thesis by (simp add: processClientMessages_def Let_def split: prod.split)
  next
    case 5
    then obtain f q where "File m = Some f" "Request m = Some q" using getTypeFromMessage_fields(3) by blast
    with 5 show ?thesis by (cases "Destination m") (simp_all add: processClientMessages_def Let_def)
  next
    case 6
    then obtain k where "Keywords m = Some k" using getTypeFromMessage_fields(4) by blast
    with 6 show ?thesis by (cases "Budget m") (simp_all add: processClientMessages_def Let_def)
  next
    case 7 then show ?thesis by (simp add: processClientMessages_def Let_def)
  qed
qed

text \<open>
  A command of the client ends the process exactly when it is a download without a destination
  or a search without a budget; the node's own client always gives both.
\<close>

theorem client_command_panics:
  assumes "node_inv g" and "seqID (gossipHandler g) \<noteq> -1"
  shows "(\<exists>fault. processClientMessages H disk ord m g = Inl fault) \<longleftrightarrow>
     (getTypeFromMessage (config g) m = ''dataRequest'' \<and> Destination m = None) \<or>
     (getTypeFromMessage (config g) m = ''searchRequest'' \<and> Budget m = None)"
  using assms by (rule command_panics_iff)

theorem client_command_panics_witness:
  "let m = \<lparr>Text = [], Destination = None, File = Some ''f'', Request = Some [1], Keywords = None, Budget = None\<rparr>
   in \<exists>fault. processClientMessages sample_hash (\<lambda>_. Inl []) sorted_list_of_fset m (sample_node ''A'' 1) = Inl fault"
proof -
  let ?m = "\<lparr>Text = [], Destination = None, File = Some ''f'', Request = Some [1], Keywords = None, Budget = None\<rparr>"
  have "getTypeFromMessage (config (sample_node ''A'' 1)) ?m = ''dataRequest''"
    by (simp add: getTypeFromMessage_def sample_node_def NewGossiper_def initial_config_def)
  moreover have "seqID (gossipHandler (sample_node ''A'' 1)) \<noteq> -1" by simp
  ultimately show ?thesis
    unfolding Let_def by (subst client_command_panics [OF sample_node_inv]) simp_all
qed



end
