(* ===== verification/Client.thy ===== *)
theory Client
  imports MainHandler
begin

text \<open>
  \<open>client/clientsender/client.go\<close>: the command line client turns its arguments into a message for the
  node.  The codec of the socket is an argument; a line printed by the client is an effect, the
  message that is nil in the code is \<open>None\<close>.  What the two sides of the socket agree on is proved
  against the handlers of the node.
\<close>

section \<open>From arguments to a message\<close>

definition getInputType :: "string \<Rightarrow> string \<Rightarrow> string \<Rightarrow> string \<Rightarrow> string \<Rightarrow> u64 \<Rightarrow> string" where
  "getInputType msg dest file request keywords budget =
     (if msg \<noteq> '''' \<and> dest = '''' \<and> file = '''' \<and> request = '''' \<and> keywords = '''' then ''rumor''
      else if msg \<noteq> '''' \<and> dest \<noteq> '''' \<and> file = '''' \<and> request = '''' \<and> keywords = '''' then ''private''
      else if msg = '''' \<and> dest = '''' \<and> file \<noteq> '''' \<and> request = '''' \<and> keywords = '''' then ''file''
      else if msg = '''' \<and> file \<noteq> '''' \<and> request \<noteq> '''' \<and> keywords = '''' then ''request''
      else if msg = '''' \<and> dest = '''' \<and> file = '''' \<and> request = '''' \<and> keywords \<noteq> '''' then ''search''
      else ''unknown'')"

definition empty_message :: client_message where
  "empty_message = \<lparr>Text = '''', Destination = None, File = None, Request = None, Keywords = None, Budget = None\<rparr>"

definition convertInputToMessage ::
  "string \<Rightarrow> string \<Rightarrow> string \<Rightarrow> string \<Rightarrow> string \<Rightarrow> u64 \<Rightarrow> client_message option \<times> effect list" where
  "convertInputToMessage msg dest file request keywords budget =
     (let typeMes = getInputType msg dest file request keywords budget; packet = empty_message
      in if typeMes = ''rumor'' then (Some (packet\<lparr>Text := msg\<rparr>), [])
         else if typeMes = ''private'' then (Some (packet\<lparr>Text := msg, Destination := Some dest\<rparr>), [])
         else if typeMes = ''file'' then (Some (packet\<lparr>File := Some file\<rparr>), [])
         else if typeMes = ''request'' then
           (case hex_decode request of
              None \<Rightarrow> (None, [Println ''ERROR (Unable to decode hex hash)''])
            | Some decodeRequest \<Rightarrow>
                (Some (packet\<lparr>Request := Some decodeRequest, File := Some file, Destination := Some dest\<rparr>), []))
         else if typeMes = ''search'' then (Some (packet\<lparr>Keywords := Some keywords, Budget := Some budget\<rparr>), [])
         else (None, [Println ''ERROR (Bad argument combination)'']))"

text \<open>
  What is written to the socket, and what is printed.  \<open>encode\<close> gives the bytes and the error of
  \<open>protobuf.Encode\<close>, \<open>write_conn\<close> the error of the write; after a failed encoding what there is of the
  bytes is written all the same.
\<close>

definition SendMessage ::
  "(client_message \<Rightarrow> bytes \<times> string option) \<Rightarrow> (bytes \<Rightarrow> string option) \<Rightarrow> string \<Rightarrow> string \<Rightarrow> string \<Rightarrow> string \<Rightarrow> string \<Rightarrow> u64 \<Rightarrow> bytes list \<times> effect list" where
  "SendMessage encode write_conn msg dest file request keywords budget =
     (case convertInputToMessage msg dest file request keywords budget of
        (None, out) \<Rightarrow> ([], out)
      | (Some packet, out) \<Rightarrow>
          (let (packetBytes, err) = encode packet; err' = write_conn packetBytes
           in (if err' = None then [packetBytes] else [], out @ log_error err @ log_error err')))"

section \<open>The client and the node agree\<close>

text \<open>The name the node has for each type of input.\<close>

definition node_type :: "string \<Rightarrow> string" where
  "node_type t = (if t = ''request'' then ''dataRequest'' else if t = ''search'' then ''searchRequest'' else t)"

definition valid_input :: "string \<Rightarrow> string \<Rightarrow> string \<Rightarrow> string \<Rightarrow> string \<Rightarrow> u64 \<Rightarrow> bool" where
  "valid_input msg dest file request keywords budget \<longleftrightarrow>
     (let t = getInputType msg dest file request keywords budget
      in t \<noteq> ''unknown'' \<and> (t = ''request'' \<longrightarrow> hex_decode request \<noteq> None))"

lemma getInputType_values:
  "getInputType msg dest file request keywords budget \<in> {''rumor'', ''private'', ''file'', ''request'', ''search'', ''unknown''}"
  unfolding getInputType_def by (simp only: insert_iff split: if_split) simp

lemma getInputType_text:
  "getInputType msg dest file request keywords budget = ''rumor'' \<Longrightarrow> msg \<noteq> ''''"
  "getInputType msg dest file request keywords budget = ''private'' \<Longrightarrow> msg \<noteq> ''''"
  by (auto simp: getInputType_def split: if_splits)

lemma getInputType_cases:
  obtains (rumor) "getInputType msg dest file request keywords budget = ''rumor''" "msg \<noteq> ''''"
  | (priv) "getInputType msg dest file request keywords budget = ''private''" "msg \<noteq> ''''"
  | (share) "getInputType msg dest file request keywords budget = ''file''"
  | (req) "getInputType msg dest file request keywords budget = ''request''"
  | (search) "getInputType msg dest file request keywords budget = ''search''"
  | (unknown) "getInputType msg dest file request keywords budget = ''unknown''"
  using getInputType_values [of msg dest "file" request "keywords" budget] getInputType_text by blast

lemma convert_by_type:
  "getInputType msg dest file request keywords budget = ''rumor'' \<Longrightarrow>
     convertInputToMessage msg dest file request keywords budget = (Some (empty_message\<lparr>Text := msg\<rparr>), [])"
  "getInputType msg dest file request keywords budget = ''private'' \<Longrightarrow>
     convertInputToMessage msg dest file request keywords budget = (Some (empty_message\<lparr>Text := msg, Destination := Some dest\<rparr>), [])"
  "getInputType msg dest file request keywords budget = ''file'' \<Longrightarrow>
     convertInputToMessage msg dest file request keywords budget = (Some (empty_message\<lparr>File := Some file\<rparr>), [])"
  "getInputType msg dest file request keywords budget = ''request'' \<Longrightarrow>
     convertInputToMessage msg dest file request keywords budget =
       (case hex_decode request of None \<Rightarrow> (None, [Println ''ERROR (Unable to decode hex hash)''])
        | Some h \<Rightarrow> (Some (empty_message\<lparr>Request := Some h, File := Some file, Destination := Some dest\<rparr>), []))"
  "getInputType msg dest file request keywords budget = ''search'' \<Longrightarrow>
     convertInputToMessage msg dest file request keywords budget = (Some (empty_message\<lparr>Keywords := Some keywords, Budget := Some budget\<rparr>), [])"
  "getInputType msg dest file request keywords budget = ''unknown'' \<Longrightarrow>
     convertInputToMessage msg dest file request keywords budget = (None, [Println ''ERROR (Bad argument combination)''])"
  by (simp_all add: convertInputToMessage_def Let_def)

lemma empty_message_fields [simp]:
  "Text empty_message = ''''" "Destination empty_message = None" "File empty_message = None"
  "Request empty_message = None" "Keywords empty_message = None" "Budget empty_message = None"
  by (simp_all add: empty_message_def)

lemma converted_type:
  assumes "convertInputToMessage msg dest file request keywords budget = (Some m, out)"
  shows "out = [] \<and> valid_input msg dest file request keywords budget
    \<and> (\<not> simpleMode c \<longrightarrow> getTypeFromMessage c m = node_type (getInputType msg dest file request keywords budget))
    \<and> (Request m \<noteq> None \<longrightarrow> Destination m \<noteq> None) \<and> (Keywords m \<noteq> None \<longrightarrow> Budget m \<noteq> None)"
proof (cases rule: getInputType_cases [of msg dest "file" request "keywords" budget])
  case rumor
  with convert_by_type(1) [OF rumor(1)] assms show ?thesis by (auto simp: valid_input_def node_type_def getTypeFromMessage_def)
next
  case priv
  with convert_by_type(2) [OF priv(1)] assms show ?thesis by (auto simp: valid_input_def node_type_def getTypeFromMessage_def)
next
  case share
  with convert_by_type(3) [OF share] assms show ?thesis by (auto simp: valid_input_def node_type_def getTypeFromMessage_def)
next
  case req
  show ?thesis
  proof (cases "hex_decode request")
    case None
    with convert_by_type(4) [OF req] have "convertInputToMessage msg dest file request keywords budget
        = (None, [Println ''ERROR (Unable to decode hex hash)''])" by (simp only: option.case)
    with assms show ?thesis by simp
  next
    case (Some h)
    with convert_by_type(4) [OF req] assms
    have "m = empty_message\<lparr>Request := Some h, File := Some file, Destination := Some dest\<rparr>" "out = []"
      by (simp_all only: option.case prod.inject option.inject)
    moreover have "valid_input msg dest file request keywords budget"
      unfolding valid_input_def req Let_def Some by simp
    ultimately show ?thesis unfolding req by (simp add: node_type_def getTypeFromMessage_def)
  qed
next
  case search
  with convert_by_type(5) [OF search] assms show ?thesis by (auto simp: valid_input_def node_type_def getTypeFromMessage_def)
next
  case unknown
  with convert_by_type(6) [OF unknown] assms show ?thesis by simp
qed

lemma not_converted:
  assumes "convertInputToMessage msg dest file request keywords budget = (None, out)"
  shows "(\<exists>l. out = [Println l]) \<and> \<not> valid_input msg dest file request keywords budget"
  using assms
  by (cases rule: getInputType_cases [of msg dest "file" request "keywords" budget])
    (auto simp: convert_by_type valid_input_def split: option.splits)

text \<open>
  C36: bad arguments write nothing and print one line; every other command, when the codec gives back
  the message it was given and the socket takes it, is read by the node as what it was meant to be
  and is carried out without a panic.
\<close>

theorem client_command_delivered:
  assumes "\<And>m. convertInputToMessage msg dest file request keywords budget = (Some m, [])
      \<Longrightarrow> snd (encode m) = None \<and> write_conn (fst (encode m)) = None \<and> decode (fst (encode m)) = m"
    and "node_inv g" and "seqID (gossipHandler g) \<noteq> -1"
  shows "if valid_input msg dest file request keywords budget
    then \<exists>bytes m. SendMessage encode write_conn msg dest file request keywords budget = ([bytes], [])
      \<and> receivePacketsFromClient decode bytes = [GoSend (ToClientChannel m)]
      \<and> (\<not> simpleMode (config g) \<longrightarrow>
           getTypeFromMessage (config g) m = node_type (getInputType msg dest file request keywords budget))
      \<and> (\<exists>g' out. processClientMessages H disk ord m g = Inr (g', out))
    else \<exists>line. SendMessage encode write_conn msg dest file request keywords budget = ([], [Println line])"
proof (cases "fst (convertInputToMessage msg dest file request keywords budget)")
  case None
  then obtain out where c: "convertInputToMessage msg dest file request keywords budget = (None, out)"
    by (cases "convertInputToMessage msg dest file request keywords budget") auto
  then show ?thesis using not_converted [OF c] by (auto simp: SendMessage_def)
next
  case (Some m)
  then obtain out where c: "convertInputToMessage msg dest file request keywords budget = (Some m, out)"
    by (cases "convertInputToMessage msg dest file request keywords budget") auto
  note t = converted_type [OF c, of "config g"]
  have d: "snd (encode m) = None" "write_conn (fst (encode m)) = None" "decode (fst (encode m)) = m"
    using assms(1) c t by blast+
  have "\<exists>g' out. processClientMessages H disk ord m g = Inr (g', out)"
  proof (cases "processClientMessages H disk ord m g")
    case (Inl fault)
    then have "getTypeFromMessage (config g) m = ''dataRequest'' \<and> Destination m = None
        \<or> getTypeFromMessage (config g) m = ''searchRequest'' \<and> Budget m = None"
      using command_panics_iff [OF assms(2,3)] by blast
    with t show ?thesis using getTypeFromMessage_fields(3,4) by (metis option.distinct(1))
  next
    case (Inr r) then show ?thesis by (cases r) simp
  qed
  then show ?thesis using t c d by (auto simp: SendMessage_def receivePacketsFromClient_def split: prod.split)
qed

theorem client_command_delivered_witness:
  "let m = empty_message\<lparr>Keywords := Some ''k'', Budget := Some 4\<rparr>
   in \<exists>g' out. processClientMessages sample_hash (\<lambda>_. Inl []) sorted_list_of_fset m (sample_node ''A'' 1) = Inr (g', out)
      \<and> SendMessage (\<lambda>_. ([1], None)) (\<lambda>_. None) '''' '''' '''' '''' ''k'' 4 = ([[1]], [])"
proof -
  let ?m = "empty_message\<lparr>Keywords := Some ''k'', Budget := Some 4\<rparr>"
  have t: "getInputType '''' '''' '''' '''' ''k'' 4 = ''search''" by (simp add: getInputType_def)
  then have "valid_input '''' '''' '''' '''' ''k'' 4" by (simp add: valid_input_def)
  moreover have c: "\<And>m. convertInputToMessage '''' '''' '''' '''' ''k'' 4 = (Some m, [])
      \<Longrightarrow> snd ([1] :: bytes, None :: string option) = None \<and> (None :: string option) = None \<and> ?m = m"
    using convert_by_type(5) [OF t] by simp
  moreover have "seqID (gossipHandler (sample_node ''A'' 1)) \<noteq> -1" by simp
  ultimately obtain bytes m where m: "SendMessage (\<lambda>_. ([1], None)) (\<lambda>_. None) '''' '''' '''' '''' ''k'' 4 = ([bytes], [])"
      "[GoSend (ToClientChannel ?m)] = [GoSend (ToClientChannel m)]"
      "\<exists>g' out. processClientMessages sample_hash (\<lambda>_. Inl []) sorted_list_of_fset m (sample_node ''A'' 1) = Inr (g', out)"
    using client_command_delivered [of "''''" "''''" "''''" "''''" "''k''" 4 "\<lambda>_. ([1], None)" "\<lambda>_. None" "\<lambda>_. ?m" "sample_node ''A'' 1"
        sample_hash "\<lambda>_. Inl []" sorted_list_of_fset, OF _ sample_node_inv]
    unfolding receivePacketsFromClient_def by meson
  then have "m = ?m" "bytes = [1]" by (auto simp: SendMessage_def convert_by_type(5) [OF t])
  with m show ?thesis unfolding Let_def by simp
qed

end
