(* ===== verification/UI.thy ===== *)
theory UI
  imports Client
begin

text \<open>
  \<open>gossiper/uifunctions.go\<close>, the getters of \<open>gossiper.go\<close>, the request handlers of
  \<open>webserver/webserver.go\<close> and the start of the node in \<open>main.go\<close>.  The channels that feed the
  interface are queues with a capacity: a value whose goroutine waits for room is in the queue past
  the capacity.  What \<open>writeJSON\<close> is given is a value of the type \<open>payload\<close>; the router, the
  JSON encoding and the parsing of HTTP forms belong to libraries.
\<close>

section \<open>Channels of the interface\<close>

text \<open>Receiving a number of values; a receive from an empty channel blocks (\<open>None\<close>).\<close>

fun receive_n :: "nat \<Rightarrow> 'a list \<Rightarrow> ('a list \<times> 'a list) option" where
  "receive_n 0 q = Some ([], q)"
| "receive_n (Suc n) [] = None"
| "receive_n (Suc n) (x # q) = (case receive_n n q of None \<Rightarrow> None | Some (xs, rest) \<Rightarrow> Some (x # xs, rest))"

text \<open>
  The code reads \<open>len(channel)\<close> first and then receives that many values; other goroutines may put
  values in or take values out between: \<open>later\<close> is the content at the time of the receives.
\<close>

definition chan_len :: "nat \<Rightarrow> 'a list \<Rightarrow> nat" where
  "chan_len capacity q = min capacity (length q)"

definition GetMessagesList :: "rumor_message list \<Rightarrow> rumor_message list \<Rightarrow> (rumor_message list \<times> rumor_message list) option" where
  "GetMessagesList channel later = (let bufferLength = chan_len latestMessagesBuffer channel in receive_n bufferLength later)"

definition GetFilesList :: "file_gui list \<Rightarrow> file_gui list \<Rightarrow> (file_gui list \<times> file_gui list) option" where
  "GetFilesList channel later = (let bufferLength = chan_len maxChannelSize channel in receive_n bufferLength later)"

definition GetBlockchainList :: "string list \<Rightarrow> string list \<Rightarrow> (string list \<times> string list) option" where
  "GetBlockchainList channel later = (let bufferLength = chan_len maxChannelSize channel in receive_n bufferLength later)"

lemma receive_n_enough: "receive_n n q = (if n \<le> length q then Some (take n q, drop n q) else None)"
  by (induction n q rule: receive_n.induct) auto

record gui_channels =
  latestRumors :: "rumor_message list"
  filesIndexed :: "file_gui list"
  filesDownloaded :: "file_gui list"
  filesSearched :: "file_gui list"
  blockchainLogs :: "string list"

fun deliver_one :: "effect \<Rightarrow> gui_channels \<Rightarrow> gui_channels" where
  "deliver_one (GoSend (ToLatestRumors r)) u = u\<lparr>latestRumors := latestRumors u @ [r]\<rparr>"
| "deliver_one (GoSend (ToFilesIndexed f)) u = u\<lparr>filesIndexed := filesIndexed u @ [f]\<rparr>"
| "deliver_one (GoSend (ToFilesDownloaded f)) u = u\<lparr>filesDownloaded := filesDownloaded u @ [f]\<rparr>"
| "deliver_one (GoSend (ToFilesSearched f)) u = u\<lparr>filesSearched := filesSearched u @ [f]\<rparr>"
| "deliver_one (GoSend (ToBlockchainLogs l)) u = u\<lparr>blockchainLogs := blockchainLogs u @ [l]\<rparr>"
| "deliver_one _ u = u"

definition deliver :: "effect list \<Rightarrow> gui_channels \<Rightarrow> gui_channels" where
  "deliver es u = fold deliver_one es u"

section \<open>Requests of the browser\<close>

datatype payload =
    Files "file_gui list"
  | Logs "string list"
  | Round u32
  | Messages "rumor_message list"
  | Names "string list"
  | Name string

text \<open>\<open>strconv.ParseUint(s, 10, 64)\<close> with its two kinds of errors and the value it gives with each.\<close>

datatype num_error = ErrSyntax | ErrRange

fun parse_digits :: "string \<Rightarrow> u64 \<Rightarrow> num_error option \<times> u64" where
  "parse_digits [] n = (None, n)"
| "parse_digits (c # s) n =
     (if \<not> is_digit c then (Some ErrSyntax, 0)
      else if of_nat ((2 ^ 64 - 1) div 10 + 1) \<le> n then (Some ErrRange, -1)
      else let n = n * 10; n1 = n + of_nat (of_char c - 48)
           in if n1 < n then (Some ErrRange, -1) else parse_digits s n1)"

definition ParseUint :: "string \<Rightarrow> num_error option \<times> u64" where
  "ParseUint s = (if s = [] then (Some ErrSyntax, 0) else parse_digits s 0)"

record web_form =
  form_text :: string
  form_destination :: string
  form_file :: string
  form_request :: string
  form_keywords :: string
  form_budget :: string

definition postMessageHandler ::
  "(client_message \<Rightarrow> bytes \<times> string option) \<Rightarrow> (bytes \<Rightarrow> string option) \<Rightarrow> (num_error \<Rightarrow> string \<Rightarrow> string)
     \<Rightarrow> string + web_form \<Rightarrow> bytes list \<times> effect list" where
  "postMessageHandler encode write_conn err_text request =
     (case request of Inl e \<Rightarrow> ([], log_error (Some e)) | Inr form \<Rightarrow>
      let budget = (if form_budget form = '''' then ''0'' else form_budget form);
          (err, budgetValue) = ParseUint budget;
          (written, out) = SendMessage encode write_conn (form_text form) (form_destination form) (form_file form)
             (form_request form) (form_keywords form) budgetValue
      in (written, (case err of None \<Rightarrow> [] | Some e \<Rightarrow> [Println (err_text e budget)]) @ out))"

definition postNodeHandler :: "(string \<Rightarrow> udp_addr option) \<Rightarrow> string \<Rightarrow> gossiper \<Rightarrow> gossiper" where
  "postNodeHandler resolve peer g =
     (case resolve peer of None \<Rightarrow> g | Some peerAddr \<Rightarrow> g\<lparr>peersData := AddPeer peerAddr (peersData g)\<rparr>)"

text \<open>
  The handlers of the GET requests: what is written, and the channels after.  A handler that never
  returns is \<open>None\<close>, one that panics \<open>Inl\<close>.
\<close>

type_synonym web_reply = "(payload \<times> gui_channels) res option"

definition drain_with :: "('a list \<Rightarrow> payload) \<Rightarrow> ('a list \<Rightarrow> gui_channels) \<Rightarrow> ('a list \<times> 'a list) option \<Rightarrow> web_reply" where
  "drain_with f put r = map_option (\<lambda>(xs, rest). Inr (f xs, put rest)) r"

definition getBlockchainHandler :: "gossiper \<Rightarrow> gui_channels \<Rightarrow> web_reply" where
  "getBlockchainHandler g u = map_option (\<lambda>r. res_bind r (\<lambda>fs. Inr (Files fs, u))) (GetBlockchain (blockchainHandler g))"

definition getBCLogsHandler :: "gui_channels \<Rightarrow> web_reply" where
  "getBCLogsHandler u =
     drain_with Logs (\<lambda>q. u\<lparr>blockchainLogs := q\<rparr>) (GetBlockchainList (blockchainLogs u) (blockchainLogs u))"

definition getRoundHandler :: "gossiper \<Rightarrow> gui_channels \<Rightarrow> web_reply" where
  "getRoundHandler g u = Some (Inr (Round (GetRound g), u))"

definition getSearchHandler :: "gui_channels \<Rightarrow> web_reply" where
  "getSearchHandler u = drain_with Files (\<lambda>q. u\<lparr>filesSearched := q\<rparr>) (GetFilesList (filesSearched u) (filesSearched u))"

definition getDownloadHandler :: "gui_channels \<Rightarrow> web_reply" where
  "getDownloadHandler u = drain_with Files (\<lambda>q. u\<lparr>filesDownloaded := q\<rparr>) (GetFilesList (filesDownloaded u) (filesDownloaded u))"

definition getFileHandler :: "gui_channels \<Rightarrow> web_reply" where
  "getFileHandler u = drain_with Files (\<lambda>q. u\<lparr>filesIndexed := q\<rparr>) (GetFilesList (filesIndexed u) (filesIndexed u))"

definition getMessageHandler :: "gui_channels \<Rightarrow> web_reply" where
  "getMessageHandler u = drain_with Messages (\<lambda>q. u\<lparr>latestRumors := q\<rparr>) (GetMessagesList (latestRumors u) (latestRumors u))"

definition getNodeHandler :: "gossiper \<Rightarrow> gui_channels \<Rightarrow> web_reply" where
  "getNodeHandler g u = Some (Inr (Names (GetArrayStringFromAddresses (known_peers g)), u))"

definition getIDHandler :: "gossiper \<Rightarrow> gui_channels \<Rightarrow> web_reply" where
  "getIDHandler g u = Some (Inr (Name (GetName g), u))"

definition getOriginHandler :: "(string fset \<Rightarrow> string list) \<Rightarrow> gossiper \<Rightarrow> gui_channels \<Rightarrow> web_reply" where
  "getOriginHandler ord g u = Some (Inr (Names (GetOrigins ord (routingHandler g)), u))"

text \<open>The paths \<open>Run\<close> registers for GET; every other path is a static file.\<close>

definition web_get :: "(string fset \<Rightarrow> string list) \<Rightarrow> string \<Rightarrow> gossiper \<Rightarrow> gui_channels \<Rightarrow> web_reply" where
  "web_get ord path g u =
     (if path = ''/message'' then getMessageHandler u
      else if path = ''/node'' then getNodeHandler g u
      else if path = ''/id'' then getIDHandler g u
      else if path = ''/origin'' then getOriginHandler ord g u
      else if path = ''/file'' then getFileHandler u
      else if path = ''/download'' then getDownloadHandler u
      else if path = ''/search'' then getSearchHandler u
      else if path = ''/round'' then getRoundHandler g u
      else if path = ''/bcLogs'' then getBCLogsHandler u
      else if path = ''/blockchain'' then getBlockchainHandler g u
      else None)"

section \<open>What is written to the browser\<close>

text \<open>
  A response: the header map of the handler, the status with the headers as they were when it was
  sent, and the body.  Changes of the map after the status has been sent do not reach the client.
\<close>

record http_response =
  header_map :: "(string, string) fmap"
  status_sent :: "(nat \<times> (string, string) fmap) option"
  body_sent :: bytes

definition new_response :: http_response where
  "new_response = \<lparr>header_map = fmempty, status_sent = None, body_sent = []\<rparr>"

definition WriteHeader :: "nat \<Rightarrow> http_response \<Rightarrow> http_response" where
  "WriteHeader code w = (if status_sent w = None then w\<lparr>status_sent := Some (code, header_map w)\<rparr> else w)"

definition set_header :: "string \<Rightarrow> string \<Rightarrow> http_response \<Rightarrow> http_response" where
  "set_header k v w = w\<lparr>header_map := fmupd k v (header_map w)\<rparr>"

definition write_body :: "bytes \<Rightarrow> http_response \<Rightarrow> http_response" where
  "write_body b w = (let w' = WriteHeader 200 w in w'\<lparr>body_sent := body_sent w' @ b\<rparr>)"

definition writeJSON :: "(payload \<Rightarrow> string + bytes) \<Rightarrow> http_response \<Rightarrow> payload \<Rightarrow> http_response \<times> effect list" where
  "writeJSON marshal w payload =
     (case marshal payload of
        Inl e \<Rightarrow> (w, log_error (Some e))
      | Inr b \<Rightarrow> (write_body b (set_header ''Content-Type'' ''application/json'' (WriteHeader 200 w)), []))"

text \<open>
  The answer to a GET request has status 200 and the payload as its body, but not the content type the
  handler sets: it is set after the status has been sent.
\<close>

lemma json_without_type:
  assumes "marshal payload = Inr b"
  shows "writeJSON marshal new_response payload
     = (new_response\<lparr>header_map := fmupd ''Content-Type'' ''application/json'' fmempty,
          status_sent := Some (200, fmempty), body_sent := b\<rparr>, [])"
  using assms by (simp add: writeJSON_def write_body_def set_header_def WriteHeader_def new_response_def Let_def)

section \<open>Start of the node\<close>

text \<open>The options of \<open>main.go\<close> and their defaults; parsing the command line is the library's.\<close>

record main_options =
  opt_guiPort :: string
  opt_uiPort :: string
  opt_gossipAddr :: string
  opt_name :: string
  opt_peers :: string
  opt_N :: u64
  opt_simple :: bool
  opt_hw3ex2 :: bool
  opt_hw3ex3 :: bool
  opt_hw3ex4 :: bool
  opt_ackAll :: bool
  opt_antiEntropy :: u64
  opt_rtimer :: u64
  opt_hopLimit :: u64
  opt_stubbornTimeout :: u64

definition default_options :: main_options where
  "default_options = \<lparr>opt_guiPort = '''', opt_uiPort = ''8080'', opt_gossipAddr = ''127.0.0.1:5000'',
     opt_name = '''', opt_peers = '''', opt_N = 1, opt_simple = False, opt_hw3ex2 = False, opt_hw3ex3 = False,
     opt_hw3ex4 = False, opt_ackAll = False, opt_antiEntropy = 10, opt_rtimer = 0, opt_hopLimit = 10,
     opt_stubbornTimeout = 5\<rparr>"

text \<open>The flags of the options, and the node that listens at \<open>address\<close> with them.\<close>

definition start_config :: "main_options \<Rightarrow> app_config" where
  "start_config opts =
     SetAppConstants (opt_simple opts) (opt_hw3ex2 opts) (opt_hw3ex3 opts) (opt_hw3ex4 opts) (opt_ackAll opts)
       (opt_hopLimit opts) (opt_stubbornTimeout opts) (opt_rtimer opts) (opt_antiEntropy opts) initial_config"

definition start_node :: "(string \<Rightarrow> udp_addr option) \<Rightarrow> udp_addr \<Rightarrow> main_options \<Rightarrow> gossiper" where
  "start_node resolve address opts =
     NewGossiper resolve (start_config opts) (opt_name opts) address (opt_peers opts) (opt_N opts)"

section \<open>What the interface shows and accepts\<close>

text \<open>
  The lists of the interface are the values sent so far, oldest first and at most one buffer
  full; what arrives meanwhile stays for the next request.  A second reader of the same channel can
  make the first block: it happens exactly when too few values are left.
\<close>

theorem gui_lists_drained:
  "GetMessagesList q (q @ q') = Some (take latestMessagesBuffer q, drop latestMessagesBuffer q @ q')
   \<and> GetFilesList fs (fs @ fs') = Some (take maxChannelSize fs, drop maxChannelSize fs @ fs')
   \<and> GetBlockchainList ls (ls @ ls') = Some (take maxChannelSize ls, drop maxChannelSize ls @ ls')
   \<and> (GetMessagesList q rest = None \<longleftrightarrow> length rest < min latestMessagesBuffer (length q))"
  by (simp add: GetMessagesList_def GetFilesList_def GetBlockchainList_def chan_len_def receive_n_enough Let_def min_def)

text \<open>The value of a string of digits, and what the checks for overflow of \<open>ParseUint\<close> catch.\<close>

abbreviation digits_from :: "nat \<Rightarrow> string \<Rightarrow> nat" where
  "digits_from a s \<equiv> foldl (\<lambda>a c. a * 10 + (of_char c - 48)) a s"

lemma digits_from_ge: "a \<le> digits_from a s"
proof (induction s arbitrary: a)
  case (Cons c s)
  have "a \<le> a * 10 + (of_char c - 48)" by simp
  also have "\<dots> \<le> digits_from (a * 10 + (of_char c - 48)) s" by (rule Cons)
  finally show ?case by simp
qed simp

lemma digit_step:
  fixes n :: u64
  assumes "is_digit c" and "\<not> of_nat ((2 ^ 64 - 1) div 10 + 1) \<le> n"
  shows "unat (n * 10) = unat n * 10"
    and "n * 10 + of_nat (of_char c - 48) < n * 10 \<longleftrightarrow> 2 ^ 64 \<le> unat n * 10 + (of_char c - 48)"
    and "\<not> n * 10 + of_nat (of_char c - 48) < n * 10 \<Longrightarrow>
       unat (n * 10 + of_nat (of_char c - 48)) = unat n * 10 + (of_char c - 48)"
proof -
  have n: "unat n \<le> 1844674407370955161"
    using assms(2) by (simp add: word_le_nat_alt)
  then show u: "unat (n * 10) = unat n * 10"
    by (simp add: unat_word_ariths)
  let ?d = "of_char c - 48 :: nat"
  have d: "?d < 10" using assms(1) unfolding is_digit_def by linarith
  have ud: "unat (of_nat ?d :: u64) = ?d" using d by (simp add: unat_of_nat)
  have s: "unat (n * 10 + of_nat ?d) = (unat n * 10 + ?d) mod 2 ^ 64"
    by (simp only: unat_word_ariths(1) u ud) simp
  have "unat n * 10 + ?d < 2 * 2 ^ 64" using n d by simp
  then show lt: "n * 10 + of_nat ?d < n * 10 \<longleftrightarrow> 2 ^ 64 \<le> unat n * 10 + ?d"
    using d by (simp add: word_less_nat_alt s u) (simp add: mod_if, arith)
  assume "\<not> n * 10 + of_nat ?d < n * 10"
  then show "unat (n * 10 + of_nat ?d) = unat n * 10 + ?d"
    using lt by (simp add: s)
qed

lemma parse_digits_value:
  assumes "\<forall>c \<in> set s. is_digit c"
  shows "parse_digits s n =
    (if digits_from (unat n) s < 2 ^ 64 then (None, of_nat (digits_from (unat n) s)) else (Some ErrRange, -1))"
  using assms
proof (induction s n rule: parse_digits.induct)
  case (1 n)
  then show ?case using unsigned_less [of n, where ?'a = nat] by simp
next
  case (2 c s n)
  let ?v = "unat n * 10 + (of_char c - 48)"
  have ge: "?v \<le> digits_from (unat n) (c # s)" using digits_from_ge [of ?v s] by simp
  show ?case
  proof (cases "of_nat ((2 ^ 64 - 1) div 10 + 1) \<le> n")
    case True
    then have "2 ^ 64 \<le> ?v" by (simp add: word_le_nat_alt)
    with ge True 2(2) show ?thesis by simp
  next
    case False
    have c: "is_digit c" using 2(2) by simp
    note st = digit_step [OF c False]
    show ?thesis
    proof (cases "n * 10 + of_nat (of_char c - 48) < n * 10")
      case True
      then have "2 ^ 64 \<le> ?v" using st(2) by simp
      with ge True False c show ?thesis by simp
    next
      case lt: False
      have "parse_digits (c # s) n = parse_digits s (n * 10 + of_nat (of_char c - 48))"
        using lt False c by (simp add: Let_def)
      also have "\<dots> = (if digits_from ?v s < 2 ^ 64 then (None, of_nat (digits_from ?v s)) else (Some ErrRange, -1))"
        using 2(1) [OF _ False refl refl lt] c 2(2) st(3) [OF lt] by simp
      finally show ?thesis by simp
    qed
  qed
qed

text \<open>
  A decimal numeral is read as its value if it fits in 64 bits and as the greatest 64 bit number,
  with an error, if not; the checks for overflow miss nothing.
\<close>

theorem ParseUint_decimal:
  "ParseUint (dec n) = (if n < 2 ^ 64 then (None, of_nat n) else (Some ErrRange, -1))"
proof -
  have "dec n \<noteq> []" by (subst dec.simps) simp
  moreover have "digits_from 0 (dec n) = n" using undec_dec [of n] by (simp only: undec_def)
  ultimately show ?thesis
    using parse_digits_value [OF dec_digits, of n 0] by (simp add: ParseUint_def)
qed

lemma parse_digits_syntax: "fst (parse_digits s n) = Some ErrSyntax \<Longrightarrow> snd (parse_digits s n) = 0"
  by (induction s n rule: parse_digits.induct) (auto simp: Let_def split: if_splits)

lemma ParseUint_syntax: "fst (ParseUint s) = Some ErrSyntax \<Longrightarrow> snd (ParseUint s) = 0"
  by (simp add: ParseUint_def parse_digits_syntax split: if_splits)

text \<open>
  A search from the browser carries the budget of the form: none or an unreadable one counts as
  not given (zero), a decimal number is its value, or the greatest 64 bit number if it does not fit.
  An error is printed, and the search is sent all the same; the errors of the codec and the socket are
  printed after it.
\<close>

theorem web_search_budget:
  assumes "keys \<noteq> ''''"
    and "form = \<lparr>form_text = '''', form_destination = '''', form_file = '''', form_request = '''', form_keywords = keys,
            form_budget = b\<rparr>"
  shows "postMessageHandler encode write_conn err_text (Inr form) =
     (let (packet, err) = encode (empty_message\<lparr>Keywords := Some keys, Budget := Some (if b = '''' then 0 else snd (ParseUint b))\<rparr>)
      in (if write_conn packet = None then [packet] else [],
          (if b = '''' then [] else case fst (ParseUint b) of None \<Rightarrow> [] | Some e \<Rightarrow> [Println (err_text e b)])
            @ log_error err @ log_error (write_conn packet)))
     \<and> (fst (ParseUint b) = Some ErrSyntax \<longrightarrow> snd (ParseUint b) = 0)
     \<and> (\<forall>n. b = dec n \<longrightarrow> ParseUint b = (if n < 2 ^ 64 then (None, of_nat n) else (Some ErrRange, -1)))"
proof -
  have t: "getInputType '''' '''' '''' '''' keys v = ''search''" for v
    using assms(1) by (simp add: getInputType_def)
  have zero: "ParseUint ''0'' = (None, 0)" by (simp add: ParseUint_def is_digit_def)
  have send: "SendMessage encode write_conn '''' '''' '''' '''' keys v
      = (let (packet, err) = encode (empty_message\<lparr>Keywords := Some keys, Budget := Some v\<rparr>)
         in (if write_conn packet = None then [packet] else [], log_error err @ log_error (write_conn packet)))" for v
    using convert_by_type(5) [OF t] by (simp add: SendMessage_def Let_def)
  show ?thesis
    unfolding assms(2) postMessageHandler_def sum.case web_form.select_convs send
    using zero ParseUint_syntax [of b] by (simp add: Let_def ParseUint_decimal split: prod.split)
qed

theorem web_search_budget_witness:
  "postMessageHandler (\<lambda>_. ([1], None)) (\<lambda>_. None) (\<lambda>_ s. s) (Inr \<lparr>form_text = '''', form_destination = '''', form_file = '''', form_request = '''',
      form_keywords = ''k'', form_budget = ''x''\<rparr>) = ([[1]], [Println ''x''])
   \<and> ParseUint ''x'' = (Some ErrSyntax, 0)"
proof -
  have "ParseUint ''x'' = (Some ErrSyntax, 0)" by (simp add: ParseUint_def is_digit_def)
  with web_search_budget [of "''k''" _ "''x''" "\<lambda>_. ([1], None)" "\<lambda>_. None" "\<lambda>_ s. s", OF _ refl] show ?thesis by simp
qed

text \<open>
  A node starts in a state that satisfies its invariant, with nothing stored, in round 0, with an
  empty chain to show; consensus mode implies the round mode, but neither implies the confirmation
  mode: that flag stays what the command line gave.
\<close>

theorem start_node_ready:
  "let g = start_node resolve address opts
   in node_inv g \<and> GetName g = opt_name opts \<and> GetRound g = 0
      \<and> getBlockchainHandler g u = Some (Inr (Files [], u))
      \<and> hw3ex3Mode (config g) = (opt_hw3ex3 opts \<or> opt_hw3ex4 opts)
      \<and> hw3ex2Mode (config g) = opt_hw3ex2 opts"
proof -
  have "GetBlockchain NewBlockchainHandler = Some (Inr [])"
    by (simp add: GetBlockchain_def GetBlockchain_loop.simps NewBlockchainHandler_def)
  moreover have "node_inv (start_node resolve address opts)"
    unfolding start_node_def Let_def by (rule NewGossiper_inv)
  ultimately show ?thesis
    by (simp add: Let_def start_node_def NewGossiper_def GetName_def GetRound_def getBlockchainHandler_def start_config_def SetAppConstants_def)
      (simp add: NewBlockchainHandler_def)
qed

end
