(* ===== verification/Node.thy ===== *)
theory Node
  imports UI
begin

text \<open>
  A whole node: \<open>Run\<close> of \<open>gossiper.go\<close> starts one goroutine per message loop, and what arrives at a
  node is taken by the loop of its kind.  Here a step of the node is the reaction to one such
  stimulus, with the functions of the libraries in a record.  A node that is started and then meets
  any sequence of stimuli keeps its invariants, and the stimuli that can stop it are the ones listed
  in \<open>hostile\<close>.
\<close>

record environment =
  env_hash :: "bytes \<Rightarrow> bytes"
  env_match :: "string \<Rightarrow> string \<Rightarrow> bool"
  env_order :: "string fset \<Rightarrow> string list"
  env_order64 :: "u64 fset \<Rightarrow> u64 list"
  env_disk :: "string \<Rightarrow> string + bytes"
  env_decode :: "bytes \<Rightarrow> gossip_packet \<times> string option"
  env_now :: int

section \<open>One step\<close>

text \<open>The loop that reads a channel; no loop reads a channel of another name.\<close>

definition run_loop :: "environment \<Rightarrow> string \<Rightarrow> ext_packet \<Rightarrow> gossiper \<Rightarrow> outcome" where
  "run_loop w chan e g =
     (if chan = ''simple'' then processSimpleMessages e g
      else if chan = ''status'' then processStatusMessages e g
      else if chan = ''rumor'' then processRumorMessages (env_order w) e g
      else if chan = ''private'' then processPrivateMessages e g
      else if chan = ''dataRequest'' then processDataRequest e g
      else if chan = ''dataReply'' then processDataReply (env_hash w) e g
      else if chan = ''searchRequest'' then
        processSearchRequest (env_hash w) (env_match w) (env_order w) (env_now w) (env_now w) e g
      else if chan = ''searchReply'' then processSearchReply e g
      else if chan = ''tlcMes'' then processTLCMessage e g
      else if chan = ''tlcAck'' then processTLCAck e g
      else if chan = ''tlcCausal'' then handleTLCMessage (env_order w) e g
      else Inr (g, []))"

text \<open>
  What a node reacts to: a datagram, a packet on a channel, a command, a status packet on the
  channel of its peer, the goroutines for a gossip message, a search result, a point to point
  packet and a notification, and the ticks of two timers with the broadcast at the start of one.
\<close>

datatype stimulus =
    Datagram bytes udp_addr
  | FromChannel string ext_packet
  | FromClient client_message
  | StatusArrives ext_packet
  | GossipArrives ext_packet string u32
  | ResultArrives string search_result
  | Relays gossip_packet hop_field string
  | Notifies ext_packet
  | AntiEntropyTick nat
  | RouteRumorStart
  | RouteRumorTick

fun node_react :: "environment \<Rightarrow> stimulus \<Rightarrow> gossiper \<Rightarrow> outcome" where
  "node_react w (Datagram bytes addr) g = Inr (receivePacketsFromPeers (env_decode w) bytes addr g)"
| "node_react w (FromChannel chan e) g = run_loop w chan e g"
| "node_react w (FromClient m) g = processClientMessages (env_hash w) (env_disk w) (env_order w) m g"
| "node_react w (StatusArrives e) g = handlePeerStatus (env_order w) (env_order w) e g"
| "node_react w (GossipArrives e origin mid) g = handleGossipMessage (env_order w) e origin mid g"
| "node_react w (ResultArrives origin res) g = Inr (handleSearchResult origin res g)"
| "node_react w (Relays p hop dest) g =
     res_bind (forwardPrivateMessage (routingHandler g) hop dest p) (\<lambda>(_, ps). Inr (g, sends ps))"
| "node_react w (Notifies e) g = Inr (run_notifyListeners e g, [])"
| "node_react w (AntiEntropyTick rnd) g = startAntiEntropy (env_order w) rnd g"
| "node_react w RouteRumorStart g = routeRumorStart g"
| "node_react w RouteRumorTick g = routeRumorTick g"

section \<open>What a node relies on\<close>

text \<open>A packet is only put on the channel of its type, so the field its loop reads is there.\<close>

definition on_channel :: "string \<Rightarrow> gossip_packet \<Rightarrow> bool" where
  "on_channel chan p \<longleftrightarrow> chan = getTypeFromGossip p \<or> chan = ''tlcCausal'' \<and> getTypeFromGossip p = ''tlcMes''"

fun possible :: "stimulus \<Rightarrow> bool" where
  "possible (FromChannel chan e) \<longleftrightarrow> on_channel chan (Packet e)"
| "possible (StatusArrives e) \<longleftrightarrow> Status (Packet e) \<noteq> None"
| "possible (Relays p hop dest) \<longleftrightarrow> get_hop hop p \<noteq> None"
| "possible _ \<longleftrightarrow> True"

text \<open>All the numbers for own messages have been given out.\<close>

definition exhausted :: "gossiper \<Rightarrow> bool" where
  "exhausted g \<longleftrightarrow> seqID (gossipHandler g) = -1"

text \<open>
  The packets and commands that can stop a node: gossip under the last number there is, a data
  reply nobody waits for, a confirmation without a vector clock, a status that asks for message 0,
  and a command without a field its type needs; nor can a node that has given out all its numbers
  make another message.
\<close>

definition hostile_packet :: "environment \<Rightarrow> string \<Rightarrow> gossip_packet \<Rightarrow> gossiper \<Rightarrow> bool" where
  "hostile_packet w chan p g \<longleftrightarrow>
     (chan = ''rumor'' \<and> (\<exists>r. Rumor p = Some r \<and> rumor_ID r = -1)) \<or>
     (chan = ''dataReply'' \<and> (\<exists>r d. DataReply p = Some r \<and> drep_Destination r = node_name g \<and> drep_Data r = Some d
        \<and> to_array32 (drep_HashValue r) = env_hash w d
        \<and> reply_key (env_hash w) (drep_HashValue r) (drep_Origin r) |\<notin>| fmdom (hashChannels (fileHandler g)))) \<or>
     (chan = ''tlcCausal'' \<and> (\<exists>t. TLCMessage p = Some t \<and> tlc_VectorClock t = None))"

fun hostile :: "environment \<Rightarrow> stimulus \<Rightarrow> gossiper \<Rightarrow> bool" where
  "hostile w (FromChannel chan e) g \<longleftrightarrow> hostile_packet w chan (Packet e) g"
| "hostile w RouteRumorStart g \<longleftrightarrow> exhausted g"
| "hostile w RouteRumorTick g \<longleftrightarrow> exhausted g"
| "hostile w (FromClient m) g \<longleftrightarrow> exhausted g \<or>
     getTypeFromMessage (config g) m = ''dataRequest'' \<and> Destination m = None \<or>
     getTypeFromMessage (config g) m = ''searchRequest'' \<and> Budget m = None"
| "hostile w (StatusArrives e) g \<longleftrightarrow> (\<exists>st. Status (Packet e) = Some st \<and> (\<exists>s \<in> set (Want st). NextID s = 0))"
| "hostile w (GossipArrives e origin mid) g \<longleftrightarrow> mid = -1"
| "hostile w _ g \<longleftrightarrow> False"

text \<open>The invariants of the components of a node together.\<close>

definition node_wf :: "gossiper \<Rightarrow> bool" where
  "node_wf g \<longleftrightarrow> node_inv g \<and> routing_inv (routingHandler g) \<and> chain_inv (blockchainHandler g)"

inductive node_reaches :: "environment \<Rightarrow> gossiper \<Rightarrow> gossiper \<Rightarrow> bool" for w g0 where
  started: "node_reaches w g0 g0"
| reacts: "node_reaches w g0 g \<Longrightarrow> possible s \<Longrightarrow> \<not> hostile w s g \<Longrightarrow> node_react w s g = Inr (g', out) \<Longrightarrow>
    node_reaches w g0 g'"

section \<open>Every reaction of a node keeps it sound\<close>

definition safe_step :: "outcome \<Rightarrow> gossiper \<Rightarrow> bool" where
  "safe_step r g \<longleftrightarrow> (\<exists>g' out. r = Inr (g', out) \<and> node_wf g' \<and> node_name g' = node_name g \<and> config g' = config g)"

lemma safe_stepI:
  assumes "node_wf g" and "r = Inr (g', out)" and "gossipHandler g' = gossipHandler g" and "node_name g' = node_name g"
    and "config g' = config g" and "routing_inv (routingHandler g')" and "chain_inv (blockchainHandler g')"
  shows "safe_step r g"
  using assms by (auto simp: safe_step_def node_wf_def node_inv_def)

lemma safe_same: "node_wf g \<Longrightarrow> safe_step (Inr (g, out)) g"
  by (auto simp: safe_step_def)

lemma safe_file: "node_wf g \<Longrightarrow> safe_step (Inr (g\<lparr>fileHandler := fh\<rparr>, out)) g"
  by (rule safe_stepI [OF _ refl]) (auto simp: node_wf_def)

lemma gossip_type_fields:
  "getTypeFromGossip p = ''simple'' \<Longrightarrow> \<exists>m. Simple p = Some m"
  "getTypeFromGossip p = ''rumor'' \<Longrightarrow> \<exists>m. Rumor p = Some m"
  "getTypeFromGossip p = ''private'' \<Longrightarrow> \<exists>m. Private p = Some m"
  "getTypeFromGossip p = ''status'' \<Longrightarrow> \<exists>m. Status p = Some m"
  "getTypeFromGossip p = ''dataRequest'' \<Longrightarrow> \<exists>m. DataRequest p = Some m"
  "getTypeFromGossip p = ''dataReply'' \<Longrightarrow> \<exists>m. DataReply p = Some m"
  "getTypeFromGossip p = ''searchRequest'' \<Longrightarrow> \<exists>m. SearchRequest p = Some m"
  "getTypeFromGossip p = ''searchReply'' \<Longrightarrow> \<exists>m. SearchReply p = Some m"
  "getTypeFromGossip p = ''tlcMes'' \<Longrightarrow> \<exists>m. TLCMessage p = Some m"
  "getTypeFromGossip p = ''tlcAck'' \<Longrightarrow> \<exists>m. Ack p = Some m"
  by (simp_all add: getTypeFromGossip_def split: if_splits)

lemma gossip_safe:
  assumes "node_wf g" and "mid \<noteq> -1"
  shows "safe_step (handleGossipMessage ord e origin mid g) g"
proof -
  have inv: "node_inv g" and log: "log_inv (gossipHandler g)"
    using assms(1) by (auto simp: node_wf_def node_inv_def)
  from handleGossipMessage_spec [OF log assms(2), of ord e origin]
  obtain g' out where h: "handleGossipMessage ord e origin mid g = Inr (g', out)"
    "gossipHandler g' = (if origin = node_name g then gossipHandler g else store_put origin mid (Packet e) (gossipHandler g))"
    "routingHandler g' = (if origin = node_name g then routingHandler g else learn (origin, mid, SenderAddr e) (routingHandler g))"
    "node_name g' = node_name g" "config g' = config g" by blast
  have "node_inv g'"
  proof (cases "origin = node_name g")
    case True
    then show ?thesis using inv h(2,4) by (simp add: node_inv_def)
  next
    case False
    then show ?thesis using node_inv_store [OF inv assms(2) False _ h(4)] h(2) by simp
  qed
  moreover have "routing_inv (routingHandler g')"
    using assms(1) h(3) learn_inv by (simp add: node_wf_def)
  moreover have "blockchainHandler g' = blockchainHandler g"
    using h(1) by (auto simp: handleGossipMessage_def Let_def go_simps split: if_splits prod.splits)
  ultimately show ?thesis
    using assms(1) h(1,4,5) by (auto simp: safe_step_def node_wf_def)
qed

lemma rumor_safe:
  assumes "node_wf g" and "seqID (gossipHandler g) \<noteq> -1"
  shows "\<exists>e g' out. createRumorMessage content g = Inr (e, g', out) \<and> node_wf g' \<and> node_name g' = node_name g
    \<and> config g' = config g"
proof -
  have "node_inv g" using assms(1) by (simp add: node_wf_def)
  then obtain e g' out where r: "createRumorMessage content g = Inr (e, g', out)" "node_inv g'"
    using createRumorMessage_spec [OF _ assms(2), of content] by blast
  then have "routingHandler g' = routingHandler g" "blockchainHandler g' = blockchainHandler g" "node_name g' = node_name g"
    "config g' = config g"
    by (auto simp: createRumorMessage_def Let_def go_simps)
  with r assms(1) show ?thesis by (auto simp: node_wf_def)
qed

lemma tlc_safe:
  assumes "node_wf g" and "TLCMessage (Packet e) = Some tlc" and "tlc_VectorClock tlc = Some vc"
  shows "safe_step (handleTLCMessage ord e g) g"
proof -
  obtain mr bh where r: "getMessageOriginalRound (tlc_Origin tlc) (tlc_ID tlc) (tlc_Confirmed tlc) (blockchainHandler g) = (mr, bh)"
    by fastforce
  let ?g1 = "g\<lparr>blockchainHandler := bh\<rparr>"
  have chain1: "chain_inv (blockchainHandler ?g1)"
    using assms(1) getMessageOriginalRound_same(3) [OF r] by (simp add: node_wf_def)
  obtain g2 out where a: "acknowledge tlc mr ?g1 = Inr (g2, out)"
    using acknowledge_spec [OF chain1, of tlc mr] by blast
  have same2: "gossipHandler g2 = gossipHandler g" "routingHandler g2 = routingHandler g" "node_name g2 = node_name g"
    "config g2 = config g"
    using a by (auto simp: acknowledge_def Let_def go_simps split: if_splits)
  have "blockchainHandler g2 = bh \<or> blockchainHandler g2 = saveMessageSeen mr (tlc_Origin tlc) tlc bh"
    using a by (auto simp: acknowledge_def Let_def go_simps split: if_splits)
  then have chain2: "chain_inv (blockchainHandler g2)"
    using chain1 by (auto simp: chain_inv_saves)
  let ?check = "checkForCausalProperty ord (tlc_Origin tlc) (tlc_VectorClock tlc) (tlc_Confirmed tlc) (SenderAddr e) g2"
  let ?g3 = "g2\<lparr>blockchainHandler := markConfirmed (tlc_Origin tlc) (tlc_Confirmed tlc) (blockchainHandler g2)\<rparr>"
  have "?check = Inr (True, ?g3, []) \<or> (\<exists>out3. ?check = Inr (False, g2, out3))"
    by (simp add: checkForCausalProperty_def assms(3))
  then obtain g4 out4 where h: "handleTLCMessage ord e g = Inr (g4, out4)"
    "g4 = g2 \<or> g4 = ?g3\<lparr>blockchainHandler := saveConfirmation mr (tlc_Origin tlc) tlc (blockchainHandler ?g3)\<rparr>"
    by (cases "(hw3ex3Mode (config g) \<or> hw3ex4Mode (config g)) \<and> tlc_Confirmed tlc \<noteq> -1")
      (auto simp: handleTLCMessage_def assms(2) r a Let_def)
  then show ?thesis
    using same2 assms(1) chain2
    by (intro safe_stepI [OF assms(1) h(1)]) (auto simp: chain_inv_saves node_wf_def)
qed

lemma status_safe:
  assumes "node_wf g" and "is_order ord" and "Status (Packet e) = Some st" and "\<forall>s \<in> set (Want st). NextID s \<noteq> 0"
  shows "safe_step (handlePeerStatus ord ord' e g) g"
proof (cases "getPeerStatusForPeer ord (myStatus (gossipHandler g)) (Want st)")
  case None
  then show ?thesis using assms(1) by (auto simp: handlePeerStatus_def assms(3) Let_def intro: safe_same)
next
  case (Some ps)
  have "gossip_inv (gossipHandler g)" using assms(1) by (simp add: node_wf_def node_inv_def log_inv_def)
  then obtain p where "getPacketFromPeerStatus (messageStorage (gossipHandler g)) ps = Inr p"
    using getPacket_no_panic [OF _ assms(2,4) Some] by blast
  then show ?thesis using assms(1) by (simp add: handlePeerStatus_def assms(3) Some Let_def safe_same)
qed

lemma private_safe:
  assumes "node_wf g" and "Private (Packet e) = Some p"
  shows "safe_step (processPrivateMessages e g) g"
proof -
  obtain rh ls where u: "updateRoutingTable (config g) (priv_Destination p) (priv_Text p) (priv_ID p) (SenderAddr e) (routingHandler g) = (rh, ls)"
    by fastforce
  have "rh = learn (priv_Destination p, priv_ID p, SenderAddr e) (routingHandler g)"
    using updateRoutingTable_fst [of "config g" "priv_Destination p" "priv_Text p" "priv_ID p" "SenderAddr e" "routingHandler g"] u
    by simp
  then have "routing_inv rh" using assms(1) learn_inv by (simp add: node_wf_def)
  moreover have "\<exists>out. processPrivateMessages e g = Inr (g\<lparr>routingHandler := rh\<rparr>, out)"
    using u by (cases "priv_Destination p = node_name g") (simp_all add: processPrivateMessages_def assms(2) Let_def)
  then obtain out where h: "processPrivateMessages e g = Inr (g\<lparr>routingHandler := rh\<rparr>, out)" ..
  ultimately show ?thesis
    using assms(1) by (intro safe_stepI [OF assms(1) h]) (auto simp: node_wf_def)
qed

lemma data_reply_safe:
  assumes "node_wf g" and "DataReply (Packet e) = Some r" and "\<not> hostile_packet w ''dataReply'' (Packet e) g"
  shows "safe_step (processDataReply (env_hash w) e g) g"
proof (cases "drep_Destination r = node_name g")
  case False
  then show ?thesis using assms(1) by (simp add: processDataReply_def assms(2) safe_same)
next
  case True
  let ?key = "reply_key (env_hash w) (drep_HashValue r) (drep_Origin r)"
  show ?thesis
  proof (cases "drep_Data r")
    case None
    with True show ?thesis using assms(1) by (simp add: processDataReply_def assms(2) safe_same)
  next
    case (Some d)
    have "fmlookup (hashChannels (fileHandler g)) ?key = None \<Longrightarrow> to_array32 (drep_HashValue r) \<noteq> env_hash w d"
      using assms(2,3) True Some by (auto simp: hostile_packet_def fmlookup_dom_iff)
    then show ?thesis
      using assms(1) True Some
      by (cases "fmlookup (hashChannels (fileHandler g)) ?key")
        (simp_all add: processDataReply_def assms(2) checkHash_def safe_same Let_def)
  qed
qed

lemma search_request_safe:
  assumes "node_wf g" and "SearchRequest (Packet e) = Some r"
  shows "safe_step (processSearchRequest H rx ord now now' e g) g"
proof -
  obtain recent r1 fh where i: "isRecentSearchRequest H now now' r (fileHandler g) = (recent, r1, fh)"
    by (cases "isRecentSearchRequest H now now' r (fileHandler g)") auto
  then obtain out where "processSearchRequest H rx ord now now' e g = Inr (g\<lparr>fileHandler := fh\<rparr>, out)"
    by (cases recent) (auto simp: processSearchRequest_def assms(2) Let_def)
  then show ?thesis using safe_file [OF assms(1)] by simp
qed

text \<open>Every loop, on a packet of its channel that is not hostile.\<close>

lemma loop_safe:
  assumes "node_wf g" and "on_channel chan (Packet e)" and "\<not> hostile_packet w chan (Packet e) g"
  shows "safe_step (run_loop w chan e g) g"
proof -
  let ?p = "Packet e"
  have chan: "getTypeFromGossip ?p = chan \<or> chan = ''tlcCausal'' \<and> getTypeFromGossip ?p = ''tlcMes''"
    using assms(2) by (auto simp: on_channel_def)
  note F = gossip_type_fields [of ?p]
  consider "chan = ''simple''" | "chan = ''status''" | "chan = ''rumor''" | "chan = ''private''" | "chan = ''dataRequest''"
    | "chan = ''dataReply''" | "chan = ''searchRequest''" | "chan = ''searchReply''" | "chan = ''tlcMes''" | "chan = ''tlcAck''"
    | "chan = ''tlcCausal''" | "run_loop w chan e g = Inr (g, [])"
    unfolding run_loop_def by argo
  then show ?thesis
  proof cases
    case 1
    with chan F(1) obtain m where "Simple ?p = Some m" by auto
    then show ?thesis using assms(1) 1 by (simp add: run_loop_def processSimpleMessages_def Let_def safe_same)
  next
    case 2
    with chan F(4) obtain m where "Status ?p = Some m" by auto
    with 2 obtain out where h: "run_loop w chan e g =
        Inr (g\<lparr>statusChannels := finsert (addr_string (SenderAddr e)) (statusChannels g)\<rparr>, out)"
      by (simp add: run_loop_def processStatusMessages_def Let_def)
    show ?thesis using assms(1) by (intro safe_stepI [OF assms(1) h]) (auto simp: node_wf_def)
  next
    case 3
    with chan F(2) obtain m where m: "Rumor ?p = Some m" by auto
    with 3 assms(3) have "rumor_ID m \<noteq> -1" by (simp add: hostile_packet_def)
    with m 3 show ?thesis using gossip_safe [OF assms(1)] by (simp add: run_loop_def processRumorMessages_def)
  next
    case 4
    with chan F(3) obtain m where "Private ?p = Some m" by auto
    with 4 show ?thesis using private_safe [OF assms(1)] by (simp add: run_loop_def)
  next
    case 5
    with chan F(5) obtain m where "DataRequest ?p = Some m" by auto
    with 5 show ?thesis using assms(1) by (simp add: run_loop_def processDataRequest_def Let_def safe_same)
  next
    case 6
    with chan F(6) obtain m where "DataReply ?p = Some m" by auto
    with 6 show ?thesis using data_reply_safe [OF assms(1)] assms(3) by (simp add: run_loop_def)
  next
    case 7
    with chan F(7) obtain m where "SearchRequest ?p = Some m" by auto
    with 7 show ?thesis using search_request_safe [OF assms(1)] by (simp add: run_loop_def)
  next
    case 8
    with chan F(8) obtain m where "SearchReply ?p = Some m" by auto
    with 8 show ?thesis using assms(1) by (simp add: run_loop_def processSearchReply_def safe_same)
  next
    case 9
    with chan F(9) obtain m where "TLCMessage ?p = Some m" by auto
    with 9 show ?thesis using assms(1) by (simp add: run_loop_def processTLCMessage_def Let_def safe_same)
  next
    case 10
    with chan F(10) obtain m where "Ack ?p = Some m" by auto
    with 10 show ?thesis using assms(1) by (simp add: run_loop_def processTLCAck_def safe_same)
  next
    case 11
    moreover have "getTypeFromGossip ?p \<noteq> ''tlcCausal''" by (simp add: getTypeFromGossip_def)
    ultimately obtain m where m: "TLCMessage ?p = Some m" using chan F(9) by auto
    with 11 assms(3) obtain vc where "tlc_VectorClock m = Some vc" by (auto simp: hostile_packet_def)
    with m 11 show ?thesis using tlc_safe [OF assms(1)] by (simp add: run_loop_def)
  next
    case 12
    then show ?thesis using assms(1) by (simp add: safe_same)
  qed
qed

lemma command_safe:
  assumes "node_wf g" and "seqID (gossipHandler g) \<noteq> -1" and "\<not> hostile w (FromClient m) g"
  shows "safe_step (processClientMessages H disk ord m g) g"
proof -
  have inv: "node_inv g" using assms(1) by (simp add: node_wf_def)
  obtain g' out where run: "processClientMessages H disk ord m g = Inr (g', out)"
    using command_panics_iff [OF inv assms(2), of H disk ord m] assms(3)
    by (cases "processClientMessages H disk ord m g") auto
  obtain e g1 out1 where r: "createRumorMessage (Text m) g = Inr (e, g1, out1)" "node_wf g1" "node_name g1 = node_name g"
    "config g1 = config g"
    using rumor_safe [OF assms(1,2), of "Text m"] by blast
  have "g' = g \<or> g' = g1 \<or> (\<exists>fh. g' = g\<lparr>fileHandler := fh\<rparr>)"
    using run r(1)
    by (auto simp: processClientMessages_def Let_def go_simps split: if_splits prod.splits) (metis surj_pair)
  then show ?thesis
    using run r assms(1) safe_file [OF assms(1), of _ out] by (auto simp: safe_step_def)
qed

lemma relay_safe:
  assumes "node_wf g" and "get_hop hop p \<noteq> None"
  shows "safe_step (node_react w (Relays p hop dest) g) g"
proof -
  obtain h where "get_hop hop p = Some h" using assms(2) by blast
  then have "\<exists>p' ps. forwardPrivateMessage (routingHandler g) hop dest p = Inr (p', ps)"
    by (simp add: forwardPrivateMessage_def Let_def split: option.split)
  then obtain p' ps where "forwardPrivateMessage (routingHandler g) hop dest p = Inr (p', ps)" by blast
  then show ?thesis using assms(1) by (simp add: safe_same)
qed

lemma anti_entropy_safe: "node_wf g \<Longrightarrow> safe_step (startAntiEntropy ord rnd g) g"
  by (auto simp: startAntiEntropy_def getRandomPeer_def Let_def safe_same)

lemma notify_safe: "node_wf g \<Longrightarrow> safe_step (Inr (run_notifyListeners e g, [])) g"
  by (cases "Status (Packet e)")
    (auto simp: run_notifyListeners_def safe_step_def node_wf_def node_inv_def log_inv_def gossip_inv_def stored_ids_def)

lemma route_rumor_safe:
  assumes "node_wf g" and "seqID (gossipHandler g) \<noteq> -1"
  shows "safe_step (routeRumorTick g) g"
proof -
  obtain e g' out where "createRumorMessage [] g = Inr (e, g', out)" "node_wf g'" "node_name g' = node_name g"
    "config g' = config g"
    using rumor_safe [OF assms, of "[]"] by blast
  then show ?thesis by (simp add: routeRumorTick_def safe_step_def)
qed

lemma route_start_safe:
  assumes "node_wf g" and "seqID (gossipHandler g) \<noteq> -1"
  shows "safe_step (routeRumorStart g) g"
proof -
  obtain e g' out where "createRumorMessage [] g = Inr (e, g', out)" "node_wf g'" "node_name g' = node_name g"
    "config g' = config g"
    using rumor_safe [OF assms, of "[]"] by blast
  then show ?thesis using assms(1) by (simp add: routeRumorStart_def safe_step_def)
qed

lemma datagram_safe:
  assumes "node_wf g"
  shows "safe_step (Inr (receivePacketsFromPeers decode bytes addr g)) g"
proof -
  have "\<exists>out. receivePacketsFromPeers decode bytes addr g = (g\<lparr>peersData := AddPeer addr (peersData g)\<rparr>, out)"
    by (cases "decode bytes") (simp add: receivePacketsFromPeers_def Let_def)
  then obtain out where "receivePacketsFromPeers decode bytes addr g = (g\<lparr>peersData := AddPeer addr (peersData g)\<rparr>, out)" ..
  then have h: "Inr (receivePacketsFromPeers decode bytes addr g) = Inr (g\<lparr>peersData := AddPeer addr (peersData g)\<rparr>, out)" by simp
  show ?thesis using assms by (intro safe_stepI [OF assms h]) (auto simp: node_wf_def)
qed

lemma result_safe:
  assumes "node_wf g"
  shows "safe_step (Inr (handleSearchResult origin res g)) g"
  using safe_file [OF assms] by (simp add: handleSearchResult_def Let_def split: prod.split)

lemma react_safe:
  assumes "node_wf g" and "is_order (env_order w)" and "possible s" and "\<not> hostile w s g"
  shows "safe_step (node_react w s g) g"
proof (cases s)
  case (Datagram bytes addr)
  then show ?thesis using datagram_safe [OF assms(1)] by simp
next
  case (FromChannel chan e)
  then show ?thesis using loop_safe [OF assms(1)] assms(3,4) by simp
next
  case (FromClient m)
  then show ?thesis using command_safe [OF assms(1)] assms(4) by (simp add: exhausted_def)
next
  case (StatusArrives e)
  then obtain st where "Status (Packet e) = Some st" using assms(3) by auto
  with StatusArrives show ?thesis using status_safe [OF assms(1,2)] assms(4) by simp
next
  case (GossipArrives e origin mid)
  then show ?thesis using gossip_safe [OF assms(1)] assms(4) by simp
next
  case (ResultArrives origin res)
  then show ?thesis using result_safe [OF assms(1)] by simp
next
  case (Relays p hop dest)
  then show ?thesis using relay_safe [OF assms(1)] assms(3) by simp
next
  case (Notifies e)
  then show ?thesis using notify_safe [OF assms(1)] by simp
next
  case (AntiEntropyTick rnd)
  then show ?thesis using anti_entropy_safe [OF assms(1)] by simp
next
  case RouteRumorStart
  then show ?thesis using route_start_safe [OF assms(1)] assms(4) by (simp add: exhausted_def)
next
  case RouteRumorTick
  then show ?thesis using route_rumor_safe [OF assms(1)] assms(4) by (simp add: exhausted_def)
qed

lemma reaches_wf:
  assumes "node_reaches w g0 g" and "node_wf g0" and "is_order (env_order w)"
  shows "node_wf g \<and> node_name g = node_name g0 \<and> config g = config g0"
  using assms(1)
proof induction
  case started
  show ?case using assms(2) by simp
next
  case (reacts g s g' out)
  then have "safe_step (node_react w s g) g" using react_safe assms(3) by blast
  with reacts show ?case by (auto simp: safe_step_def)
qed

lemma start_node_wf: "node_wf (start_node resolve address opts)"
  using NewGossiper_inv NewBlockchainHandler_inv
  by (simp add: node_wf_def start_node_def Let_def) (simp add: NewGossiper_def)

text \<open>
  A node that has been started keeps running and keeps all its invariants, whatever it receives
  from its peers and its client and in whatever order, unless one of the listed stimuli arrives: the
  next reaction always ends without a panic, and afterwards the clock is right for what is stored,
  the own messages are complete, every known origin has a route and the chain is well formed.
\<close>

theorem node_keeps_running:
  assumes "is_order (env_order w)" and "node_reaches w (start_node resolve address opts) g"
    and "possible s" and "\<not> hostile w s g"
  shows "\<exists>g' out. node_react w s g = Inr (g', out) \<and> node_wf g' \<and> node_name g' = opt_name opts \<and> config g' = config g"
proof -
  have r: "node_wf g \<and> node_name g = node_name (start_node resolve address opts)"
    using reaches_wf [OF assms(2) start_node_wf assms(1)] by simp
  then have "safe_step (node_react w s g) g" using react_safe [OF _ assms(1,3,4)] by blast
  with r show ?thesis by (auto simp: safe_step_def start_node_def NewGossiper_def Let_def)
qed

theorem node_keeps_running_witness:
  "let w = \<lparr>env_hash = sample_hash, env_match = (\<lambda>_ _. False), env_order = sorted_list_of_fset, env_order64 = sorted_list_of_fset, env_disk = (\<lambda>_. Inl ''no such file''),
       env_decode = (\<lambda>_. (empty_packet, None)), env_now = 0\<rparr>;
       g = start_node (\<lambda>_. None) (sample_addr 1) default_options;
       e = \<lparr>Packet = empty_packet\<lparr>Rumor := Some \<lparr>rumor_Origin = ''B'', rumor_ID = 1, rumor_Text = ''hi''\<rparr>\<rparr>,
            SenderAddr = sample_addr 2\<rparr>
   in \<exists>g1 out1 g2 out2. node_react w (FromChannel ''rumor'' e) g = Inr (g1, out1)
      \<and> node_react w (FromClient (empty_message\<lparr>Text := ''yo''\<rparr>)) g = Inr (g2, out2) \<and> node_wf g1 \<and> node_wf g2"
proof -
  let ?w = "\<lparr>env_hash = sample_hash, env_match = (\<lambda>_ _. False), env_order = sorted_list_of_fset, env_order64 = sorted_list_of_fset, env_disk = (\<lambda>_. Inl ''no such file''),
       env_decode = (\<lambda>_. (empty_packet, None)), env_now = 0\<rparr>"
  let ?g = "start_node (\<lambda>_. None) (sample_addr 1) default_options"
  let ?e = "\<lparr>Packet = empty_packet\<lparr>Rumor := Some \<lparr>rumor_Origin = ''B'', rumor_ID = 1, rumor_Text = ''hi''\<rparr>\<rparr>,
            SenderAddr = sample_addr 2\<rparr>"
  let ?m = "empty_message\<lparr>Text := ''yo''\<rparr>"
  have w: "is_order (env_order ?w)" using sorted_is_order by simp
  note run = node_keeps_running [OF w, of "\<lambda>_. None" "sample_addr 1" default_options, OF node_reaches.started]
  have "possible (FromChannel ''rumor'' ?e)" "\<not> hostile ?w (FromChannel ''rumor'' ?e) ?g"
    by (simp_all add: on_channel_def getTypeFromGossip_def hostile_packet_def)
  note a = run [OF this]
  have "\<not> exhausted ?g" by (simp add: exhausted_def start_node_def NewGossiper_def) (simp add: NewGossipHandler_def)
  then have "possible (FromClient ?m)" "\<not> hostile ?w (FromClient ?m) ?g"
    by (simp_all add: getTypeFromMessage_def)
  then have "\<exists>g' out. node_react ?w (FromClient ?m) ?g = Inr (g', out) \<and> node_wf g'" using run by blast
  with a show ?thesis unfolding Let_def by blast
qed

end
