(* ===== verification/Downloads.thy ===== *)
theory Downloads
  imports Sharing
begin

text \<open>
  The goroutines of \<open>gossiper/filesharing.go\<close> and of a new search result, one event at a time.  Between
  two events such a goroutine waits in \<open>downloadDataFromPeer\<close>; its local state is the piece it asks
  for and what it will do with it.  Run on the events of whole conversations, these steps do what
  \<open>downloadFileChunks\<close> and \<open>fetchMetafile\<close> of \<open>Sharing\<close> do; and they do not panic as long as the
  metafile has room for the chunks and no chunk is longer than a chunk may be.
\<close>

section \<open>Composition with effects\<close>

definition with_out :: "effect list \<Rightarrow> ('a \<times> gossiper \<times> effect list) res \<Rightarrow> ('a \<times> gossiper \<times> effect list) res" where
  "with_out out r = res_bind r (\<lambda>(a, g, out'). Inr (a, g, out @ out'))"

definition eff_bind ::
  "('a \<times> gossiper \<times> effect list) res \<Rightarrow> ('a \<Rightarrow> gossiper \<Rightarrow> ('b \<times> gossiper \<times> effect list) res) \<Rightarrow> ('b \<times> gossiper \<times> effect list) res" where
  "eff_bind r f = res_bind r (\<lambda>(a, g, out). with_out out (f a g))"

lemma with_out_simps [simp]:
  "with_out out (Inl e) = Inl e" "with_out out (Inr (a, g, out')) = Inr (a, g, out @ out')" "with_out [] r = r"
  "with_out xs (with_out ys r) = with_out (xs @ ys) r"
  by (auto simp: with_out_def res_bind_assoc case_prod_beta) (cases r; auto)+

lemma eff_bind_simps [simp]:
  "eff_bind (Inl e) f = Inl e" "eff_bind (Inr (a, g, out)) f = with_out out (f a g)"
  "eff_bind (with_out out r) f = with_out out (eff_bind r f)"
  by (simp_all add: eff_bind_def) (cases r; auto)

lemma eff_bind_assoc: "eff_bind (eff_bind r f) h = eff_bind r (\<lambda>a g. eff_bind (f a g) h)"
  by (cases r) auto

lemma eff_bind_cong: "(\<And>a g out. r = Inr (a, g, out) \<Longrightarrow> f a g = h a g) \<Longrightarrow> eff_bind r f = eff_bind r h"
  by (cases r) auto

lemma eff_bind_eq_Inr:
  "eff_bind r f = Inr (b, g', out) \<longleftrightarrow> (\<exists>a g o1 o2. r = Inr (a, g, o1) \<and> f a g = Inr (b, g', o2) \<and> out = o1 @ o2)"
  by (cases r) (auto simp: with_out_def go_simps)

section \<open>One piece\<close>

record piece =
  pc_file :: string
  pc_peer :: string
  pc_hash :: bytes
  pc_num :: u64
  pc_packet :: gossip_packet

text \<open>\<open>downloadDataFromPeer\<close> up to its loop: the channel of the reply and the first request.\<close>

definition startPiece ::
  "(bytes \<Rightarrow> bytes) \<Rightarrow> string \<Rightarrow> string \<Rightarrow> bytes \<Rightarrow> u64 \<Rightarrow> gossiper \<Rightarrow> (piece \<times> gossiper \<times> effect list) res" where
  "startPiece H fileName peer hash seqNum g =
     (let fh = fileHandler g;
          g1 = g\<lparr>fileHandler := fh\<lparr>hashChannels := fst (LoadOrStore (reply_key H hash peer) [] (hashChannels fh))\<rparr>\<rparr>;
          printed = (if hw2 (config g) then printDownloadMessage fileName peer seqNum else [])
      in res_bind (forwardPrivateMessage (routingHandler g1) HopDataRequest peer (data_request_packet g peer hash))
           (\<lambda>(p, ps). Inr (\<lparr>pc_file = fileName, pc_peer = peer, pc_hash = hash, pc_num = seqNum, pc_packet = p\<rparr>, g1,
              printed @ sends ps)))"

text \<open>One turn of the loop: it goes on with the piece, or ends with what the function returns.\<close>

fun pieceStep :: "download_event \<Rightarrow> piece \<Rightarrow> gossiper \<Rightarrow> ((piece + bool) \<times> gossiper \<times> effect list) res" where
  "pieceStep (ReplyArrives r) pc g =
     Inr (Inr True, set_store (fst (LoadOrStore (hex_encode (pc_hash pc)) (data_of r) (hashDataMap (fileHandler g)))) g, [])"
| "pieceStep StopTick pc g = Inr (Inr False, g, [])"
| "pieceStep RequestTick pc g =
     res_bind (forwardPrivateMessage (routingHandler g) HopDataRequest (pc_peer pc) (pc_packet pc)) (\<lambda>(p, ps).
       Inr (Inl (pc\<lparr>pc_packet := p\<rparr>), g,
         (if hw2 (config g) then printDownloadMessage (pc_file pc) (pc_peer pc) (pc_num pc) else []) @ sends ps))"

section \<open>The goroutines\<close>

text \<open>What stays the same while the chunks of a file are fetched.\<close>

record transfer =
  tr_key :: string
  tr_file :: string
  tr_dest :: string
  tr_metafile :: bytes
  tr_count :: u64

text \<open>
  A goroutine waits for the metafile of a search result, for the metafile of a file, or for chunk \<open>i\<close>
  of a file, with the peers to try after this one, the chunks after this one and the chunks so far.
\<close>

datatype download =
    Fetching piece string string "u64 list"
  | ForMetafile piece string string bytes
  | ForChunk piece transfer "string list" nat "nat list" chunk_state

type_synonym download_outcome = "(download option \<times> gossiper \<times> effect list) res"

definition ends :: "outcome \<Rightarrow> download_outcome" where
  "ends r = res_bind r (\<lambda>(g, out). Inr (None, g, out))"

lemma ends_simps [simp]: "ends (Inl e) = Inl e" "ends (Inr (g, out)) = Inr (None, g, out)"
  by (simp_all add: ends_def)

text \<open>The loop over the chunks from one of them on, up to the next piece to wait for.\<close>

definition ask ::
  "(bytes \<Rightarrow> bytes) \<Rightarrow> transfer \<Rightarrow> bytes \<Rightarrow> string \<Rightarrow> string list \<Rightarrow> nat \<Rightarrow> nat list \<Rightarrow> chunk_state \<Rightarrow> gossiper \<Rightarrow> download_outcome" where
  "ask H tr hash peer peers i is st g =
     eff_bind (startPiece H (tr_file tr) peer hash (of_nat i + 1) g) (\<lambda>pc g1. Inr (Some (ForChunk pc tr peers i is st), g1, []))"

fun nextChunk ::
  "(bytes \<Rightarrow> bytes) \<Rightarrow> transfer \<Rightarrow> nat list \<Rightarrow> chunk_state \<Rightarrow> gossiper \<Rightarrow> download_outcome" where
  "nextChunk H tr [] st g = ends (finishDownload (tr_key tr) (tr_file tr) (tr_count tr) st g)"
| "nextChunk H tr (i # is) st g =
     res_bind (metafile_hash (tr_metafile tr) i) (\<lambda>hash.
       case fmlookup (hashDataMap (fileHandler g)) (hex_encode hash) of
         Some chunk \<Rightarrow> res_bind (copy_chunk i chunk st) (\<lambda>st'. nextChunk H tr is st' g)
       | None \<Rightarrow>
           (case peers_with_chunk (tr_dest tr) hash g of
              [] \<Rightarrow> nextChunk H tr is st g
            | peer # peers \<Rightarrow> ask H tr hash peer peers i is st g))"

text \<open>After the metafile is in the store.\<close>

definition startTransfer ::
  "(bytes \<Rightarrow> bytes) \<Rightarrow> (u64 fset \<Rightarrow> u64 list) \<Rightarrow> string \<Rightarrow> string \<Rightarrow> bytes \<Rightarrow> bytes \<Rightarrow> gossiper \<Rightarrow> download_outcome" where
  "startTransfer H ord64 fileName dest metaHash metafile g =
     res_bind (openMetadata H ord64 fileName metaHash metafile g) (\<lambda>(fm, g1).
       if FileSize fm \<noteq> 0 then
         Inr (None, g1, if FileName fm \<noteq> fileName then [CopyFile (FileName fm) fileName] else [])
       else
         nextChunk H \<lparr>tr_key = file_key H metaHash fileName, tr_file = fileName, tr_dest = dest, tr_metafile = metafile,
             tr_count = ChunkCount fm\<rparr>
           [0..<unat (ChunkCount fm)] (replicate (unat (ChunkCount fm * of_nat fileChunk)) 0, 0, 0) g1)"

definition startDownload ::
  "(bytes \<Rightarrow> bytes) \<Rightarrow> (u64 fset \<Rightarrow> u64 list) \<Rightarrow> string \<Rightarrow> string \<Rightarrow> bytes \<Rightarrow> gossiper \<Rightarrow> download_outcome" where
  "startDownload H ord64 fileName dest metaHash g =
     (case fmlookup (hashDataMap (fileHandler g)) (hex_encode metaHash) of
        Some metafile \<Rightarrow> startTransfer H ord64 fileName dest metaHash metafile g
      | None \<Rightarrow>
          if dest = [] then Inr (None, g, [])
          else eff_bind (startPiece H fileName dest metaHash 0 g) (\<lambda>pc g1. Inr (Some (ForMetafile pc fileName dest metaHash), g1, [])))"

definition startFetch ::
  "(bytes \<Rightarrow> bytes) \<Rightarrow> (string fset \<Rightarrow> string list) \<Rightarrow> (u64 fset \<Rightarrow> u64 list) \<Rightarrow> string \<Rightarrow> string \<Rightarrow> u64 list \<Rightarrow> gossiper
     \<Rightarrow> download_outcome" where
  "startFetch H ord ord64 key origin chunkMap g =
     res_bind (of_option NilAssertion (fmlookup (filesMetadata (fileHandler g)) key)) (\<lambda>fMeta.
       case fmlookup (hashDataMap (fileHandler g)) (hex_encode (MetafileHash fMeta)) of
         Some _ \<Rightarrow> res_bind (metafileArrived ord ord64 key origin chunkMap g) (\<lambda>g'. Inr (None, g', []))
       | None \<Rightarrow> eff_bind (startPiece H (FileName fMeta) origin (MetafileHash fMeta) 0 g)
                    (\<lambda>pc g1. Inr (Some (Fetching pc key origin chunkMap), g1, [])))"

text \<open>What follows when the piece has come, or has not.\<close>

fun resume ::
  "(bytes \<Rightarrow> bytes) \<Rightarrow> (string fset \<Rightarrow> string list) \<Rightarrow> (u64 fset \<Rightarrow> u64 list) \<Rightarrow> bool \<Rightarrow> download \<Rightarrow> gossiper
     \<Rightarrow> download_outcome" where
  "resume H ord ord64 got (Fetching pc key origin chunkMap) g =
     (if got then res_bind (metafileArrived ord ord64 key origin chunkMap g) (\<lambda>g'. Inr (None, g', [])) else Inr (None, g, []))"
| "resume H ord ord64 got (ForMetafile pc fileName dest metaHash) g =
     (if got then
        res_bind (of_option NilAssertion (fmlookup (hashDataMap (fileHandler g)) (hex_encode metaHash))) (\<lambda>metafile.
          startTransfer H ord64 fileName dest metaHash metafile g)
      else Inr (None, g, []))"
| "resume H ord ord64 got (ForChunk pc tr peers i is st) g =
     (if got then
        res_bind (chunkDownloaded ord ord64 (tr_key tr) (tr_dest tr) (pc_peer pc) (pc_hash pc) (of_nat i + 1) g) (\<lambda>g1.
        res_bind (case fmlookup (hashDataMap (fileHandler g1)) (hex_encode (pc_hash pc)) of
                    None \<Rightarrow> Inr st | Some chunk \<Rightarrow> copy_chunk i chunk st) (\<lambda>st'.
          nextChunk H tr is st' g1))
      else
        (case peers of
           [] \<Rightarrow> nextChunk H tr is st g
         | peer # peers' \<Rightarrow> ask H tr (pc_hash pc) peer peers' i is st g))"

fun piece_of :: "download \<Rightarrow> piece" where
  "piece_of (Fetching pc key origin chunkMap) = pc"
| "piece_of (ForMetafile pc fileName dest metaHash) = pc"
| "piece_of (ForChunk pc tr peers i is st) = pc"

fun with_piece :: "piece \<Rightarrow> download \<Rightarrow> download" where
  "with_piece pc (Fetching _ key origin chunkMap) = Fetching pc key origin chunkMap"
| "with_piece pc (ForMetafile _ fileName dest metaHash) = ForMetafile pc fileName dest metaHash"
| "with_piece pc (ForChunk _ tr peers i is st) = ForChunk pc tr peers i is st"

definition downloadStep ::
  "(bytes \<Rightarrow> bytes) \<Rightarrow> (string fset \<Rightarrow> string list) \<Rightarrow> (u64 fset \<Rightarrow> u64 list) \<Rightarrow> download_event \<Rightarrow> download \<Rightarrow> gossiper
     \<Rightarrow> download_outcome" where
  "downloadStep H ord ord64 ev d g =
     eff_bind (pieceStep ev (piece_of d) g) (\<lambda>r g1.
       case r of Inl pc \<Rightarrow> Inr (Some (with_piece pc d), g1, []) | Inr got \<Rightarrow> resume H ord ord64 got d g1)"

text \<open>A goroutine on a list of events: where it is afterwards, if it has not ended.\<close>

fun downloadRun ::
  "(bytes \<Rightarrow> bytes) \<Rightarrow> (string fset \<Rightarrow> string list) \<Rightarrow> (u64 fset \<Rightarrow> u64 list) \<Rightarrow> download_event list \<Rightarrow> download option \<Rightarrow> gossiper
     \<Rightarrow> download_outcome" where
  "downloadRun H ord ord64 evs None g = Inr (None, g, [])"
| "downloadRun H ord ord64 [] (Some d) g = Inr (Some d, g, [])"
| "downloadRun H ord ord64 (ev # evs) (Some d) g = eff_bind (downloadStep H ord ord64 ev d g) (downloadRun H ord ord64 evs)"

section \<open>Steps and whole conversations\<close>

text \<open>A conversation about a piece ends with the reply or with the timer that stops it.\<close>

definition whole_script :: "download_event list \<Rightarrow> bool" where
  "whole_script evs \<longleftrightarrow> (\<exists>k ev. evs = replicate k RequestTick @ [ev] \<and> ev \<noteq> RequestTick)"

fun pieceRun :: "download_event list \<Rightarrow> piece \<Rightarrow> gossiper \<Rightarrow> (bool option \<times> gossiper \<times> effect list) res" where
  "pieceRun [] pc g = Inr (None, g, [])"
| "pieceRun (ev # evs) pc g = eff_bind (pieceStep ev pc g) (\<lambda>r g1.
     case r of Inl pc' \<Rightarrow> pieceRun evs pc' g1 | Inr got \<Rightarrow> Inr (Some got, g1, []))"

lemma download_loop_steps:
  "download_loop fileName peer hash n p evs g
     = pieceRun evs \<lparr>pc_file = fileName, pc_peer = peer, pc_hash = hash, pc_num = n, pc_packet = p\<rparr> g"
proof (induction evs arbitrary: p)
  case (Cons ev evs)
  show ?case
  proof (cases ev)
    case RequestTick
    show ?thesis
    proof (cases "forwardPrivateMessage (routingHandler g) HopDataRequest peer p")
      case (Inr r)
      obtain p' ps where "r = (p', ps)" by fastforce
      with RequestTick Inr show ?thesis by (simp add: Cons.IH with_out_def)
    qed (simp add: RequestTick)
  qed simp_all
qed simp

lemma downloadDataFromPeer_steps:
  "downloadDataFromPeer H fileName peer hash n evs g = eff_bind (startPiece H fileName peer hash n g) (pieceRun evs)"
proof -
  let ?g = "g\<lparr>fileHandler := (fileHandler g)\<lparr>hashChannels := fst (LoadOrStore (reply_key H hash peer) [] (hashChannels (fileHandler g)))\<rparr>\<rparr>"
  show ?thesis
    by (cases "forwardPrivateMessage (routingHandler ?g) HopDataRequest peer (data_request_packet g peer hash)")
      (auto simp: downloadDataFromPeer_def startPiece_def Let_def download_loop_steps with_out_def)
qed

lemma startPiece_fields:
  assumes "startPiece H fileName peer hash n g = Inr (pc, g1, out)"
  shows "pc_peer pc = peer" "pc_hash pc = hash"
  using assms by (auto simp: startPiece_def Let_def go_simps)

lemma piece_of_with [simp]: "piece_of (with_piece pc d) = pc" "with_piece pc (with_piece pc' d) = with_piece pc d"
  by (cases d; simp)+

lemma resume_packet: "resume H ord ord64 got (with_piece (piece_of d\<lparr>pc_packet := p\<rparr>) d) g = resume H ord ord64 got d g"
  by (cases d) (simp_all split: list.split)

lemma run_piece:
  assumes "whole_script evs"
  shows "downloadRun H ord ord64 (evs @ later) (Some d) g
     = eff_bind (pieceRun evs (piece_of d) g) (\<lambda>r g1. eff_bind (resume H ord ord64 (r = Some True) d g1) (downloadRun H ord ord64 later))"
proof -
  obtain k ev where evs: "evs = replicate k RequestTick @ [ev]" "ev \<noteq> RequestTick"
    using assms by (auto simp: whole_script_def)
  have "downloadRun H ord ord64 ((replicate k RequestTick @ [ev]) @ later) (Some d) g
     = eff_bind (pieceRun (replicate k RequestTick @ [ev]) (piece_of d) g)
         (\<lambda>r g1. eff_bind (resume H ord ord64 (r = Some True) d g1) (downloadRun H ord ord64 later))"
  proof (induction k arbitrary: d)
    case 0
    with evs(2) show ?case by (cases ev) (simp_all add: downloadStep_def)
  next
    case (Suc k)
    show ?case
    proof (cases "forwardPrivateMessage (routingHandler g) HopDataRequest (pc_peer (piece_of d)) (pc_packet (piece_of d))")
      case (Inr r)
      obtain p ps where r: "r = (p, ps)" by fastforce
      show ?thesis
        using Suc.IH [of "with_piece (piece_of d\<lparr>pc_packet := p\<rparr>) d"] Inr r by (simp add: downloadStep_def resume_packet)
    qed (simp add: downloadStep_def)
  qed
  then show ?thesis by (simp add: evs(1))
qed

text \<open>Whether a goroutine that goes on with some events comes to its end.\<close>

definition finished ::
  "(bytes \<Rightarrow> bytes) \<Rightarrow> (string fset \<Rightarrow> string list) \<Rightarrow> (u64 fset \<Rightarrow> u64 list) \<Rightarrow> download_event list \<Rightarrow> download_outcome
     \<Rightarrow> (bool \<times> gossiper \<times> effect list) res" where
  "finished H ord ord64 evs m = eff_bind (eff_bind m (downloadRun H ord ord64 evs)) (\<lambda>d g. Inr (d = None, g, []))"

lemma finished_simps [simp]:
  "finished H ord ord64 evs (Inl e) = Inl e" "finished H ord ord64 evs (with_out out m) = with_out out (finished H ord ord64 evs m)"
  "finished H ord ord64 evs (Inr (None, g, out)) = Inr (True, g, out)"
  "finished H ord ord64 [] (Inr (Some d, g, out)) = Inr (False, g, out)"
  by (simp_all add: finished_def)

lemma finished_bind: "finished H ord ord64 evs (res_bind r f) = res_bind r (\<lambda>x. finished H ord ord64 evs (f x))"
  by (cases r) simp_all

lemma finished_eff_bind: "finished H ord ord64 evs (eff_bind r f) = eff_bind r (\<lambda>a g. finished H ord ord64 evs (f a g))"
  by (cases r) auto

lemma finished_piece:
  assumes "whole_script evs"
  shows "finished H ord ord64 (evs @ later) (Inr (Some d, g, []))
    = eff_bind (pieceRun evs (piece_of d) g) (\<lambda>r g1. finished H ord ord64 later (resume H ord ord64 (r = Some True) d g1))"
  by (simp add: finished_def run_piece [OF assms] eff_bind_assoc)

lemma whole_run:
  assumes "whole_script evs" and "pieceRun evs pc g = Inr (r, g', out)"
  shows "r \<noteq> None"
proof -
  obtain k ev where evs: "evs = replicate k RequestTick @ [ev]" "ev \<noteq> RequestTick"
    using assms(1) by (auto simp: whole_script_def)
  have "pieceRun (replicate k RequestTick @ [ev]) pc g = Inr (r, g', out) \<Longrightarrow> r \<noteq> None"
  proof (induction k arbitrary: pc out)
    case 0
    then show ?case using evs(2) by (cases ev) auto
  next
    case (Suc k)
    then show ?case by (fastforce simp: eff_bind_eq_Inr go_simps)
  qed
  then show ?thesis using assms(2) evs(1) by simp
qed

definition chunkThere ::
  "(bytes \<Rightarrow> bytes) \<Rightarrow> transfer \<Rightarrow> bytes \<Rightarrow> nat \<Rightarrow> nat list \<Rightarrow> chunk_state \<Rightarrow> bool \<Rightarrow> gossiper \<Rightarrow> download_outcome" where
  "chunkThere H tr hash i is st got g =
     res_bind (case fmlookup (hashDataMap (fileHandler g)) (hex_encode hash) of
                 None \<Rightarrow> Inr st | Some chunk \<Rightarrow> if got then copy_chunk i chunk st else Inr st) (\<lambda>st'. nextChunk H tr is st' g)"

lemma chunkThere_False [simp]: "chunkThere H tr hash i is st False g = nextChunk H tr is st g"
  by (simp add: chunkThere_def split: option.split)

lemma chunkThere_True:
  "chunkThere H tr hash i is st True = (\<lambda>g. res_bind (case fmlookup (hashDataMap (fileHandler g)) (hex_encode hash) of
                 None \<Rightarrow> Inr st | Some chunk \<Rightarrow> copy_chunk i chunk st) (\<lambda>st'. nextChunk H tr is st' g))"
  by (rule ext) (simp add: chunkThere_def split: option.split)

lemma ask_script:
  assumes "whole_script evs"
  shows "finished H ord ord64 (evs @ later) (ask H tr hash peer peers i is st g)
    = eff_bind (downloadDataFromPeer H (tr_file tr) peer hash (of_nat i + 1) evs g) (\<lambda>r g1.
        finished H ord ord64 later
          (if r = Some True
           then res_bind (chunkDownloaded ord ord64 (tr_key tr) (tr_dest tr) peer hash (of_nat i + 1) g1) (chunkThere H tr hash i is st True)
           else case peers of [] \<Rightarrow> nextChunk H tr is st g1 | peer # peers' \<Rightarrow> ask H tr hash peer peers' i is st g1))"
proof -
  have "finished H ord ord64 (evs @ later) (ask H tr hash peer peers i is st g)
    = eff_bind (startPiece H (tr_file tr) peer hash (of_nat i + 1) g)
        (\<lambda>pc g1. finished H ord ord64 (evs @ later) (Inr (Some (ForChunk pc tr peers i is st), g1, [])))"
    by (simp add: ask_def finished_eff_bind)
  also have "\<dots> = eff_bind (startPiece H (tr_file tr) peer hash (of_nat i + 1) g) (\<lambda>pc g1. eff_bind (pieceRun evs pc g1) (\<lambda>r g1.
        finished H ord ord64 later
          (if r = Some True
           then res_bind (chunkDownloaded ord ord64 (tr_key tr) (tr_dest tr) peer hash (of_nat i + 1) g1) (chunkThere H tr hash i is st True)
           else case peers of [] \<Rightarrow> nextChunk H tr is st g1 | peer # peers' \<Rightarrow> ask H tr hash peer peers' i is st g1)))"
  proof (rule eff_bind_cong)
    fix pc g1 out
    assume "startPiece H (tr_file tr) peer hash (of_nat i + 1) g = Inr (pc, g1, out)"
    note pc = startPiece_fields [OF this]
    show "finished H ord ord64 (evs @ later) (Inr (Some (ForChunk pc tr peers i is st), g1, [])) = eff_bind (pieceRun evs pc g1) (\<lambda>r g1.
        finished H ord ord64 later
          (if r = Some True
           then res_bind (chunkDownloaded ord ord64 (tr_key tr) (tr_dest tr) peer hash (of_nat i + 1) g1) (chunkThere H tr hash i is st True)
           else case peers of [] \<Rightarrow> nextChunk H tr is st g1 | peer # peers' \<Rightarrow> ask H tr hash peer peers' i is st g1))"
      unfolding finished_piece [OF assms] chunkThere_True by (cases peers) (simp_all add: pc cong: if_cong)
  qed
  finally show ?thesis by (simp add: downloadDataFromPeer_steps eff_bind_assoc)
qed

lemma ask_first:
  assumes evs: "whole_script evs"
    and others: "\<And>peer' peers' g1. peers = peer' # peers' \<Longrightarrow>
      finished H ord ord64 (concat rest) (ask H tr hash peer' peers' i is st g1)
       = res_bind (try_peers H ord ord64 (tr_key tr) (tr_file tr) (tr_dest tr) hash (of_nat i + 1) peers rest g1)
          (\<lambda>(found, scripts', g1, out).
            if found = None then Inr (False, g1, out)
            else with_out out (finished H ord ord64 (concat scripts') (chunkThere H tr hash i is st (found = Some True) g1)))"
  shows "finished H ord ord64 (concat (evs # rest)) (ask H tr hash peer peers i is st g)
     = res_bind (try_peers H ord ord64 (tr_key tr) (tr_file tr) (tr_dest tr) hash (of_nat i + 1) (peer # peers) (evs # rest) g)
        (\<lambda>(found, scripts', g1, out).
          if found = None then Inr (False, g1, out)
          else with_out out (finished H ord ord64 (concat scripts') (chunkThere H tr hash i is st (found = Some True) g1)))"
proof (cases "downloadDataFromPeer H (tr_file tr) peer hash (of_nat i + 1) evs g")
  case (Inl e)
  then show ?thesis by (simp add: ask_script [OF evs])
next
  case (Inr r)
  obtain got g1 out where r: "r = (got, g1, out)" by (cases r)
  note d = Inr [unfolded r]
  have "got \<noteq> None"
    using d whole_run [OF evs] by (fastforce simp: downloadDataFromPeer_steps eff_bind_eq_Inr)
  then obtain b where b: "got = Some b" by blast
  show ?thesis
  proof (cases b)
    case True
    then show ?thesis
      using d b by (cases "chunkDownloaded ord ord64 (tr_key tr) (tr_dest tr) peer hash (of_nat i + 1) g1") (simp_all add: ask_script [OF evs])
  next
    case False
    show ?thesis
    proof (cases peers)
      case Nil
      then show ?thesis using d b False by (simp add: ask_script [OF evs])
    next
      case (Cons peer' peers')
      show ?thesis
        using d b False others [OF Cons, of g1]
        by (cases "try_peers H ord ord64 (tr_key tr) (tr_file tr) (tr_dest tr) hash (of_nat i + 1) peers rest g1")
          (auto simp: ask_script [OF evs] Cons)
    qed
  qed
qed

lemma ask_peers:
  "list_all whole_script scripts \<Longrightarrow>
   finished H ord ord64 (concat scripts) (ask H tr hash peer peers i is st g)
     = res_bind (try_peers H ord ord64 (tr_key tr) (tr_file tr) (tr_dest tr) hash (of_nat i + 1) (peer # peers) scripts g)
        (\<lambda>(found, scripts', g1, out).
          if found = None then Inr (False, g1, out)
          else with_out out (finished H ord ord64 (concat scripts') (chunkThere H tr hash i is st (found = Some True) g1)))"
proof (induction scripts arbitrary: peer peers g)
  case Nil
  then show ?case
    by (cases "startPiece H (tr_file tr) peer hash (of_nat i + 1) g") (auto simp: ask_def downloadDataFromPeer_steps)
next
  case (Cons evs rest)
  show ?case by (rule ask_first) (use Cons in simp_all)
qed

lemma try_peers_scripts:
  assumes "try_peers H ord ord64 key f dest hash n peers scripts g = Inr (found, scripts', g', out)" and "list_all P scripts"
  shows "list_all P scripts'"
  using assms
  by (induction H ord ord64 key f dest hash n peers scripts g arbitrary: found out rule: try_peers.induct)
    (auto simp: go_simps split: option.splits bool.splits)

lemma nextChunk_scripts:
  "list_all whole_script scripts \<Longrightarrow>
   finished H ord ord64 (concat scripts) (nextChunk H tr is st g)
     = eff_bind (chunk_loop H ord ord64 (tr_key tr) (tr_file tr) (tr_dest tr) (tr_metafile tr) is scripts g st)
        (\<lambda>r g1. case r of None \<Rightarrow> Inr (False, g1, [])
           | Some st' \<Rightarrow> res_bind (finishDownload (tr_key tr) (tr_file tr) (tr_count tr) st' g1) (\<lambda>(g2, out). Inr (True, g2, out)))"
proof (induction "is" arbitrary: st scripts g)
  case Nil
  show ?case
    by (cases "finishDownload (tr_key tr) (tr_file tr) (tr_count tr) st g") auto
next
  case (Cons i "is")
  show ?case
  proof (cases "metafile_hash (tr_metafile tr) i")
    case (Inr hash)
    let ?next = "\<lambda>(found, scripts', g1, out).
        if found = None then Inr (None, g1, out)
        else
          res_bind (case fmlookup (hashDataMap (fileHandler g1)) (hex_encode hash) of
                      None \<Rightarrow> Inr st
                    | Some chunk \<Rightarrow> if found = Some True then copy_chunk i chunk st else Inr st)
            (\<lambda>st'. res_bind (chunk_loop H ord ord64 (tr_key tr) (tr_file tr) (tr_dest tr) (tr_metafile tr) is scripts' g1 st')
              (\<lambda>(r, g2, out'). Inr (r, g2, out @ out')))"
    have goes: "eff_bind (?next (found, scripts', g1, out)) k
        = with_out out (finished H ord ord64 (concat scripts') (chunkThere H tr hash i is st (found = Some True) g1))"
      if "found \<noteq> None" "list_all whole_script scripts'"
        "k = (\<lambda>r g1. case r of None \<Rightarrow> Inr (False, g1, [])
           | Some st' \<Rightarrow> res_bind (finishDownload (tr_key tr) (tr_file tr) (tr_count tr) st' g1) (\<lambda>(g2, out). Inr (True, g2, out)))"
      for found scripts' g1 out k
    proof -
      from that(1) obtain a where a: "found = Some a" by blast
      have "eff_bind (res_bind x (\<lambda>st'. with_out out (chunk_loop H ord ord64 (tr_key tr) (tr_file tr) (tr_dest tr) (tr_metafile tr) is scripts' g1 st'))) k
          = with_out out (finished H ord ord64 (concat scripts') (res_bind x (\<lambda>st'. nextChunk H tr is st' g1)))" for x :: "chunk_state res"
        using Cons.IH [OF that(2), folded that(3)] by (cases x) simp_all
      then show ?thesis
        by (simp add: a chunkThere_def with_out_def [symmetric] split: option.split)
    qed
    show ?thesis
    proof (cases "fmlookup (hashDataMap (fileHandler g)) (hex_encode hash)")
      case (Some chunk)
      then show ?thesis using Inr goes [of "Some True" scripts _ g "[]"] Cons.prems by (simp add: chunkThere_def)
    next
      case None
      show ?thesis
      proof (cases "peers_with_chunk (tr_dest tr) hash g")
        case Nil
        then show ?thesis using Inr None goes [of "Some False" scripts _ g "[]"] Cons.prems by simp
      next
        case other: (Cons peer peers)
        show ?thesis
        proof (cases "try_peers H ord ord64 (tr_key tr) (tr_file tr) (tr_dest tr) hash (of_nat i + 1) (peer # peers) scripts g")
          case (Inl e)
          then show ?thesis using Inr None other ask_peers [OF Cons.prems] by simp
        next
          case (Inr t)
          obtain found scripts' g1 out where t: "t = (found, scripts', g1, out)" by (cases t)
          have "list_all whole_script scripts'" using try_peers_scripts Inr t Cons.prems by blast
          from goes [OF _ this refl, of found g1 out] show ?thesis
            using \<open>metafile_hash (tr_metafile tr) i = Inr hash\<close> Inr t None other ask_peers [OF Cons.prems] by simp
        qed
      qed
    qed
  qed simp
qed

lemma startTransfer_scripts:
  assumes "list_all whole_script scripts"
  shows "finished H ord ord64 (concat scripts) (startTransfer H ord64 fileName dest metaHash metafile g)
    = downloadWithMetafile H ord ord64 fileName dest metaHash metafile scripts g"
proof (cases "openMetadata H ord64 fileName metaHash metafile g")
  case (Inr r)
  obtain fm g1 where r: "r = (fm, g1)" by fastforce
  show ?thesis
  proof (cases "FileSize fm = 0")
    case True
    let ?loop = "chunk_loop H ord ord64 (file_key H metaHash fileName) fileName dest metafile [0..<unat (ChunkCount fm)] scripts g1
                        (replicate (unat (ChunkCount fm * of_nat fileChunk)) 0, 0, 0)"
    show ?thesis
    proof (cases ?loop)
      case (Inr l)
      obtain st g2 out where l: "l = (st, g2, out)" by (cases l)
      have "with_out out (res_bind m (\<lambda>(g2, out). Inr (True, g2, out))) = res_bind m (\<lambda>(g3, out'). Inr (True, g3, out @ out'))" for m :: outcome
        by (cases m) auto
      with True \<open>openMetadata _ _ _ _ _ _ = _\<close> r Inr l show ?thesis
        by (cases st) (simp_all add: startTransfer_def downloadWithMetafile_def Let_def nextChunk_scripts [OF assms])
    qed (use True Inr r in \<open>simp add: startTransfer_def downloadWithMetafile_def Let_def nextChunk_scripts [OF assms]\<close>)
  qed (simp add: Inr r startTransfer_def downloadWithMetafile_def Let_def)
qed (simp add: startTransfer_def downloadWithMetafile_def Let_def)

lemma fetch_script:
  assumes "whole_script evs"
  shows "finished H ord ord64 evs (startFetch H ord ord64 key origin chunkMap g) = fetchMetafile H ord ord64 key origin chunkMap evs g"
proof (cases "fmlookup (filesMetadata (fileHandler g)) key")
  case (Some fMeta)
  have arrived: "finished H ord ord64 xs (res_bind (metafileArrived ord ord64 key origin chunkMap g) (\<lambda>g'. Inr (None, g', [])))
      = res_bind (metafileArrived ord ord64 key origin chunkMap g) (\<lambda>g'. Inr (True, g', []))" for xs g
    by (simp add: finished_bind)
  show ?thesis
  proof (cases "fmlookup (hashDataMap (fileHandler g)) (hex_encode (MetafileHash fMeta))")
    case None
    let ?d = "downloadDataFromPeer H (FileName fMeta) origin (MetafileHash fMeta) 0 evs g"
    have steps: "finished H ord ord64 evs (startFetch H ord ord64 key origin chunkMap g)
      = eff_bind ?d (\<lambda>r g1. finished H ord ord64 [] (if r = Some True then
           res_bind (metafileArrived ord ord64 key origin chunkMap g1) (\<lambda>g'. Inr (None, g', [])) else Inr (None, g1, [])))"
      using finished_piece [OF assms, of H ord ord64 "[]" "Fetching _ key origin chunkMap"]
      by (simp add: startFetch_def Some None finished_eff_bind downloadDataFromPeer_steps eff_bind_assoc)
    show ?thesis
    proof (cases ?d)
      case (Inr r)
      obtain got g1 out where r: "r = (got, g1, out)" by (cases r)
      have "got \<noteq> None"
        using Inr r whole_run [OF assms] by (fastforce simp: downloadDataFromPeer_steps eff_bind_eq_Inr)
      then obtain b where "got = Some b" by blast
      with steps Inr r show ?thesis
        by (cases b; cases "metafileArrived ord ord64 key origin chunkMap g1")
          (simp_all add: fetchMetafile_def Some None downloadMetafile_def finished_bind)
    qed (use steps in \<open>simp add: fetchMetafile_def Some None downloadMetafile_def\<close>)
  qed (simp add: startFetch_def fetchMetafile_def Some arrived)
qed (simp add: startFetch_def fetchMetafile_def)



section \<open>Downloads come to an end\<close>

text \<open>What is still ahead of a download: the metafile, then the chunks, and for a chunk the peers to try.\<close>

fun download_rank :: "download \<Rightarrow> nat \<times> nat \<times> nat" where
  "download_rank (Fetching pc key origin chunkMap) = (0, 0, 0)"
| "download_rank (ForMetafile pc fileName dest metaHash) = (2, 0, 0)"
| "download_rank (ForChunk pc tr peers i is st) = (1, length is, length peers)"

definition download_order :: "(download \<times> download) set" where
  "download_order = inv_image (less_than <*lex*> less_than <*lex*> less_than) download_rank"

lemma ask_rank: "ask H tr hash peer peers i is st g = Inr (Some d, g', out) \<Longrightarrow> download_rank d = (1, length is, length peers)"
  by (auto simp: ask_def eff_bind_eq_Inr)

lemma nextChunk_rank:
  "nextChunk H tr is st g = Inr (Some d, g', out) \<Longrightarrow> \<exists>m n. download_rank d = (1, m, n) \<and> m < length is"
proof (induction "is" arbitrary: st)
  case Nil
  then show ?case by (auto simp: ends_def go_simps)
next
  case (Cons i "is")
  obtain hash where hash: "metafile_hash (tr_metafile tr) i = Inr hash" using Cons.prems by (auto simp: go_simps)
  consider st' where "nextChunk H tr is st' g = Inr (Some d, g', out)"
    | peer peers where "ask H tr hash peer peers i is st g = Inr (Some d, g', out)"
  proof (cases "fmlookup (hashDataMap (fileHandler g)) (hex_encode hash)")
    case None
    then show thesis using Cons.prems hash that by (cases "peers_with_chunk (tr_dest tr) hash g") simp_all
  next
    case (Some chunk)
    then show thesis using Cons.prems hash that(1) by (cases "copy_chunk i chunk st") simp_all
  qed
  then show ?case
  proof cases
    case 1
    from Cons.IH [OF this] show ?thesis by auto
  next
    case 2
    from ask_rank [OF this] show ?thesis by simp
  qed
qed

lemma startTransfer_rank:
  "startTransfer H ord64 fileName dest metaHash metafile g = Inr (Some d, g', out) \<Longrightarrow> \<exists>m n. download_rank d = (1, m, n)"
  by (auto simp: startTransfer_def go_simps split: if_splits dest!: nextChunk_rank)

lemma resume_rank:
  assumes "resume H ord ord64 got d g = Inr (Some d', g', out)"
  shows "(d', d) \<in> download_order"
proof (cases d)
  case (Fetching pc key origin chunkMap)
  with assms show ?thesis by (auto simp: go_simps split: if_splits)
next
  case (ForMetafile pc fileName dest metaHash)
  with assms show ?thesis by (auto simp: go_simps download_order_def split: if_splits dest!: startTransfer_rank)
next
  case (ForChunk pc tr peers i "is" st)
  with assms show ?thesis
    by (auto simp: go_simps download_order_def split: if_splits option.splits list.splits dest!: nextChunk_rank ask_rank)
qed

text \<open>
  C33: a download does not wait for ever: a tick repeats the request and changes nothing of what is
  ahead, and every reply and every expired timer brings the download forward in a well-founded order:
  from the metafile to the chunks, from a chunk to later ones, from a peer to the next one to try.  So
  it ends after finitely many of them, in whatever state the other goroutines leave the node.
\<close>

theorem download_progresses:
  "wf download_order
    \<and> (downloadStep H ord ord64 ev d g = Inr (Some d', g', out) \<longrightarrow>
        (if ev = RequestTick then \<exists>pc. d' = with_piece pc d \<and> download_rank d' = download_rank d else (d', d) \<in> download_order))"
proof
  show "wf download_order" by (auto simp: download_order_def)
  have tick: "download_rank (with_piece pc d) = download_rank d" for pc by (cases d) simp_all
  show "downloadStep H ord ord64 ev d g = Inr (Some d', g', out) \<longrightarrow>
        (if ev = RequestTick then \<exists>pc. d' = with_piece pc d \<and> download_rank d' = download_rank d else (d', d) \<in> download_order)"
    using tick by (cases ev) (auto simp: downloadStep_def eff_bind_eq_Inr go_simps with_out_def dest: resume_rank)
qed

theorem download_progresses_witness:
  "let pc = \<lparr>pc_file = ''f'', pc_peer = ''B'', pc_hash = [1], pc_num = 1, pc_packet = empty_packet\<rparr>;
       tr = \<lparr>tr_key = ''k'', tr_file = ''f'', tr_dest = [], tr_metafile = [1], tr_count = 1\<rparr>;
       d = ForChunk pc tr [''C''] 0 [] ([], 0, 0)
   in \<exists>d' g' out. downloadStep sample_hash sorted_list_of_fset sorted_list_of_fset StopTick d (sample_node ''A'' 1) = Inr (Some d', g', out)
      \<and> (d', d) \<in> download_order"
proof -
  let ?pc = "\<lparr>pc_file = ''f'', pc_peer = ''B'', pc_hash = [1], pc_num = 1, pc_packet = empty_packet\<rparr>"
  let ?tr = "\<lparr>tr_key = ''k'', tr_file = ''f'', tr_dest = [], tr_metafile = [1], tr_count = 1\<rparr>"
  let ?d = "ForChunk ?pc ?tr [''C''] 0 [] ([], 0, 0)" and ?g = "sample_node ''A'' 1"
  have "get_hop HopDataRequest (data_request_packet ?g ''C'' [1]) \<noteq> None" by (simp add: data_request_packet_def)
  then obtain p ps where "forwardPrivateMessage (routingHandler ?g) HopDataRequest ''C'' (data_request_packet ?g ''C'' [1]) = Inr (p, ps)"
    by (rule forward_total)
  then obtain pc g1 out where "startPiece sample_hash ''f'' ''C'' [1] 1 ?g = Inr (pc, g1, out)"
    by (simp add: startPiece_def Let_def)
  then have "downloadStep sample_hash sorted_list_of_fset sorted_list_of_fset StopTick ?d ?g
      = Inr (Some (ForChunk pc ?tr [] 0 [] ([], 0, 0)), g1, out)"
    by (simp add: downloadStep_def ask_def)
  with download_progresses [of sample_hash sorted_list_of_fset sorted_list_of_fset StopTick ?d ?g] show ?thesis
    unfolding Let_def by force
qed

section \<open>Downloads that do not panic\<close>

text \<open>Nothing but the file handler changes, and the files known keep their names and hashes.\<close>

definition keeps_files :: "gossiper \<Rightarrow> gossiper \<Rightarrow> bool" where
  "keeps_files g g' \<longleftrightarrow> (\<forall>k x. fmlookup (meta_names g) k = Some x \<longrightarrow> fmlookup (meta_names g') k = Some x)"

definition file_frame :: "gossiper \<Rightarrow> gossiper \<Rightarrow> bool" where
  "file_frame g g' \<longleftrightarrow> (\<exists>fh. g' = g\<lparr>fileHandler := fh\<rparr>) \<and> keeps_files g g'"

lemma keeps_files_refl [simp]: "keeps_files g g"
  by (simp add: keeps_files_def)

lemma keeps_files_trans: "keeps_files g h \<Longrightarrow> keeps_files h k \<Longrightarrow> keeps_files g k"
  by (simp add: keeps_files_def)

lemma file_frame_refl [simp]: "file_frame g g"
  by (auto simp: file_frame_def intro: exI [of _ "fileHandler g"])

lemma file_frame_trans: "file_frame g h \<Longrightarrow> file_frame h k \<Longrightarrow> file_frame g k"
  using keeps_files_trans by (fastforce simp: file_frame_def)

lemma file_frame_same: "meta_names g' = meta_names g \<Longrightarrow> g' = g\<lparr>fileHandler := fh\<rparr> \<Longrightarrow> file_frame g g'"
  by (auto simp: file_frame_def keeps_files_def)

definition is_request :: "gossip_packet \<Rightarrow> bool" where
  "is_request p \<longleftrightarrow> (\<exists>r. p = empty_packet\<lparr>DataRequest := Some r\<rparr>)"

lemma is_request_packet [simp]: "is_request (empty_packet\<lparr>DataRequest := Some r\<rparr>)"
  using is_request_def by blast

text \<open>All a download does outside: requests for data, lines, files and notes to the interface.\<close>

fun download_effect :: "effect \<Rightarrow> bool" where
  "download_effect (SendPacket p a) \<longleftrightarrow> is_request p"
| "download_effect (Go t) \<longleftrightarrow> False"
| "download_effect (GoSend v) \<longleftrightarrow> (\<exists>f. v = ToFilesDownloaded f)"
| "download_effect _ \<longleftrightarrow> True"

text \<open>A request can be sent again, whatever became of it.\<close>

definition piece_ok :: "piece \<Rightarrow> bool" where
  "piece_ok pc \<longleftrightarrow> is_request (pc_packet pc)"

text \<open>The buffer has room for every chunk, and the chunks so far fit into what is counted of it.\<close>

definition transfer_ok :: "transfer \<Rightarrow> nat list \<Rightarrow> chunk_state \<Rightarrow> bool" where
  "transfer_ok tr is = (\<lambda>(buf, counter, sz).
     32 * unat (tr_count tr) \<le> length (tr_metafile tr) \<and> (\<forall>i \<in> set is. i < unat (tr_count tr))
     \<and> length buf = unat (tr_count tr) * fileChunk \<and> sz \<le> counter * fileChunk)"

definition known_file :: "string \<Rightarrow> gossiper \<Rightarrow> bool" where
  "known_file key g \<longleftrightarrow> key |\<in>| fmdom (meta_names g)"

fun download_ok :: "gossiper \<Rightarrow> download \<Rightarrow> bool" where
  "download_ok g (Fetching pc key origin chunkMap) \<longleftrightarrow>
     piece_ok pc \<and> (\<exists>nm. fmlookup (meta_names g) key = Some (nm, pc_hash pc))"
| "download_ok g (ForMetafile pc fileName dest metaHash) \<longleftrightarrow> piece_ok pc \<and> pc_hash pc = metaHash"
| "download_ok g (ForChunk pc tr peers i is st) \<longleftrightarrow>
     piece_ok pc \<and> known_file (tr_key tr) g \<and> transfer_ok tr (i # is) st
     \<and> metafile_hash (tr_metafile tr) i = Inr (pc_hash pc)"

lemma download_ok_keeps: "download_ok g d \<Longrightarrow> keeps_files g g' \<Longrightarrow> download_ok g' d"
  by (cases d) (auto simp: keeps_files_def known_file_def fmlookup_dom_iff)

text \<open>
  What a download can panic on: a chunk longer than a chunk may be, a metafile too short for the
  chunks its file is said to have, and chunk numbers the metafile does not have.  The two bounds on
  the length of a metafile keep the code's arithmetic from wrapping around.
\<close>

definition long_chunk :: "bytes \<Rightarrow> (string, bytes) fmap \<Rightarrow> bool" where
  "long_chunk metafile store \<longleftrightarrow> (\<exists>i hash chunk. metafile_hash metafile i = Inr hash
     \<and> fmlookup store (hex_encode hash) = Some chunk \<and> fileChunk < length chunk)"

definition too_short :: "string \<Rightarrow> bytes \<Rightarrow> gossiper \<Rightarrow> bool" where
  "too_short key metafile g \<longleftrightarrow>
     (\<exists>m. fmlookup (filesMetadata (fileHandler g)) key = Some m \<and> length metafile < 32 * unat (ChunkCount m))"

definition bad_transfer :: "(bytes \<Rightarrow> bytes) \<Rightarrow> string \<Rightarrow> bytes \<Rightarrow> bytes \<Rightarrow> gossiper \<Rightarrow> bool" where
  "bad_transfer H fileName metaHash metafile g \<longleftrightarrow>
     too_short (file_key H metaHash fileName) metafile g \<or> long_chunk metafile (hashDataMap (fileHandler g)) \<or> 2 ^ 56 \<le> length metafile"

definition bad_fetch :: "string \<Rightarrow> u64 list \<Rightarrow> bytes \<Rightarrow> gossiper \<Rightarrow> bool" where
  "bad_fetch key chunkMap metafile g \<longleftrightarrow>
     too_short key metafile g \<or> (\<exists>e \<in> set chunkMap. e = 0 \<or> length metafile < 32 * unat e) \<or> 2 ^ 64 \<le> length metafile"

definition bad_start :: "(bytes \<Rightarrow> bytes) \<Rightarrow> string \<Rightarrow> bytes \<Rightarrow> gossiper \<Rightarrow> bool" where
  "bad_start H fileName metaHash g \<longleftrightarrow>
     (\<exists>metafile. fmlookup (hashDataMap (fileHandler g)) (hex_encode metaHash) = Some metafile \<and> bad_transfer H fileName metaHash metafile g)"

definition bad_result :: "string \<Rightarrow> u64 list \<Rightarrow> gossiper \<Rightarrow> bool" where
  "bad_result key chunkMap g \<longleftrightarrow> (\<exists>m metafile. fmlookup (filesMetadata (fileHandler g)) key = Some m
     \<and> fmlookup (hashDataMap (fileHandler g)) (hex_encode (MetafileHash m)) = Some metafile \<and> bad_fetch key chunkMap metafile g)"

text \<open>The same once the event has been taken into account.\<close>

fun bad_event :: "(bytes \<Rightarrow> bytes) \<Rightarrow> download_event \<Rightarrow> download \<Rightarrow> gossiper \<Rightarrow> bool" where
  "bad_event H RequestTick d g \<longleftrightarrow> False"
| "bad_event H StopTick (ForChunk pc tr peers i is st) g \<longleftrightarrow> long_chunk (tr_metafile tr) (hashDataMap (fileHandler g))"
| "bad_event H StopTick d g \<longleftrightarrow> False"
| "bad_event H (ReplyArrives r) d g \<longleftrightarrow>
     (let g1 = set_store (chunk_keep (pc_hash (piece_of d)) (data_of r) (hashDataMap (fileHandler g))) g
      in case d of
           Fetching pc key origin chunkMap \<Rightarrow> bad_result key chunkMap g1
         | ForMetafile pc fileName dest metaHash \<Rightarrow> bad_start H fileName metaHash g1
         | ForChunk pc tr peers i is st \<Rightarrow> long_chunk (tr_metafile tr) (hashDataMap (fileHandler g1)))"

definition fine_download :: "download_outcome \<Rightarrow> gossiper \<Rightarrow> bool" where
  "fine_download r g \<longleftrightarrow> (\<exists>d g' out. r = Inr (d, g', out) \<and> file_frame g g' \<and> list_all download_effect out
     \<and> (\<forall>d'. d = Some d' \<longrightarrow> download_ok g' d'))"

lemma fine_download_frame: "fine_download r h \<Longrightarrow> file_frame g h \<Longrightarrow> fine_download r g"
  unfolding fine_download_def using file_frame_trans by blast

lemma fine_download_out: "fine_download r g \<Longrightarrow> list_all download_effect out \<Longrightarrow> fine_download (with_out out r) g"
  by (fastforce simp: fine_download_def)

lemma forward_request:
  assumes "is_request p"
  shows "\<exists>p' ps. forwardPrivateMessage rh HopDataRequest dest p = Inr (p', ps) \<and> is_request p'
    \<and> list_all download_effect (sends ps)"
proof -
  obtain r where "p = empty_packet\<lparr>DataRequest := Some r\<rparr>" using assms by (auto simp: is_request_def)
  then show ?thesis by (auto simp: forwardPrivateMessage_def Let_def sends_def split: option.split)
qed

lemma download_effect_print [simp]: "list_all download_effect (printDownloadMessage f d n)"
  by (simp add: printDownloadMessage_def)

lemma startPiece_fine:
  "\<exists>pc g1 out. startPiece H fileName peer hash n g = Inr (pc, g1, out) \<and> file_frame g g1 \<and> list_all download_effect out
    \<and> piece_ok pc \<and> pc_hash pc = hash \<and> pc_peer pc = peer \<and> meta_names g1 = meta_names g"
proof -
  let ?fh = "(fileHandler g)\<lparr>hashChannels := fst (LoadOrStore (reply_key H hash peer) [] (hashChannels (fileHandler g)))\<rparr>"
  have names: "meta_names (g\<lparr>fileHandler := ?fh\<rparr>) = meta_names g" by (simp add: meta_names_def)
  have "is_request (data_request_packet g peer hash)" by (simp add: data_request_packet_def)
  then obtain p ps where "forwardPrivateMessage (routingHandler g) HopDataRequest peer (data_request_packet g peer hash) = Inr (p, ps)"
    "is_request p" "list_all download_effect (sends ps)"
    using forward_request by blast
  with names file_frame_same [OF names refl] show ?thesis by (simp add: startPiece_def Let_def piece_ok_def)
qed

lemma fine_ask:
  assumes "known_file (tr_key tr) g" and "transfer_ok tr (i # is) st" and "metafile_hash (tr_metafile tr) i = Inr hash"
  shows "fine_download (ask H tr hash peer peers i is st g) g"
  using startPiece_fine [of H "tr_file tr" peer hash "of_nat i + 1" g] assms
  by (auto simp: ask_def fine_download_def known_file_def)

lemma copy_chunk_ok:
  assumes "transfer_ok tr (i # is) st" and "length chunk \<le> fileChunk"
  shows "\<exists>st'. copy_chunk i chunk st = Inr st' \<and> transfer_ok tr is st'"
proof -
  obtain buf counter sz where st: "st = (buf, counter, sz)" by (cases st)
  have i: "i < unat (tr_count tr)" "length buf = unat (tr_count tr) * fileChunk" using assms(1) st by (auto simp: transfer_ok_def)
  then have "Suc i * fileChunk \<le> length buf" using mult_le_mono1 [of "Suc i" "unat (tr_count tr)" fileChunk] by simp
  then have "i * fileChunk + length chunk \<le> length buf" using assms(2) by simp
  with assms st show ?thesis
    by (auto simp: copy_chunk_def transfer_ok_def go_slice_def length_overwrite)
qed

lemma transfer_ok_tail: "transfer_ok tr (i # is) st \<Longrightarrow> transfer_ok tr is st"
  by (auto simp: transfer_ok_def)

lemma transfer_ok_hash:
  assumes "transfer_ok tr (i # is) st"
  obtains hash where "metafile_hash (tr_metafile tr) i = Inr hash"
proof -
  have "32 * Suc i \<le> length (tr_metafile tr)" using assms by (auto simp: transfer_ok_def split: prod.splits)
  then show thesis using that metafile_hash_ok by blast
qed

lemma set_meta_names:
  "known_file key g \<Longrightarrow> \<exists>m. fmlookup (filesMetadata (fileHandler g)) key = Some m"
  by (auto simp: known_file_def meta_names_def)

lemma file_frame_meta:
  assumes "fmlookup (filesMetadata (fileHandler g)) key = Some m" "FileName m' = FileName m" "MetafileHash m' = MetafileHash m"
  shows "file_frame g (set_meta key m' g)"
  by (rule file_frame_same [OF meta_names_set [OF assms]]) (simp add: set_meta_def)

lemma finish_fine:
  assumes "known_file key g" and "length buf = unat c * fileChunk" and "sz \<le> counter * fileChunk"
  shows "fine_download (ends (finishDownload key fileName c (buf, counter, sz) g)) g"
proof -
  obtain m where m: "fmlookup (filesMetadata (fileHandler g)) key = Some m" using set_meta_names [OF assms(1)] by blast
  from file_frame_meta [OF m, of "m\<lparr>FileSize := int sz\<rparr>"] m assms(2,3) show ?thesis
    by (auto simp: finishDownload_def fine_download_def go_slice_def Let_def)
qed

lemma nextChunk_fine:
  assumes "\<not> long_chunk (tr_metafile tr) (hashDataMap (fileHandler g))" and "known_file (tr_key tr) g"
  shows "transfer_ok tr is st \<Longrightarrow> fine_download (nextChunk H tr is st g) g"
proof (induction "is" arbitrary: st)
  case Nil
  then show ?case using finish_fine [OF assms(2)] by (cases st) (simp add: transfer_ok_def)
next
  case (Cons i "is")
  obtain hash where hash: "metafile_hash (tr_metafile tr) i = Inr hash" using transfer_ok_hash [OF Cons.prems] .
  show ?case
  proof (cases "fmlookup (hashDataMap (fileHandler g)) (hex_encode hash)")
    case (Some chunk)
    then have "length chunk \<le> fileChunk" using assms(1) hash by (auto simp: long_chunk_def not_less)
    then obtain st' where "copy_chunk i chunk st = Inr st'" "transfer_ok tr is st'" using copy_chunk_ok [OF Cons.prems] by blast
    then show ?thesis using Cons.IH hash Some by simp
  next
    case None
    then show ?thesis
      using hash Cons.IH [OF transfer_ok_tail [OF Cons.prems]] fine_ask [OF assms(2) Cons.prems hash]
      by (simp split: list.split)
  qed
qed

lemma chunk_count_bounds:
  assumes "n < 2 ^ 56" and "32 * unat (c :: u64) \<le> n"
  shows "unat (c * of_nat fileChunk) = unat c * fileChunk"
proof -
  have "unat (of_nat fileChunk :: u64) = fileChunk" by (simp add: fileChunk_def)
  moreover have "unat c * fileChunk < 2 ^ 64" using assms by (simp add: fileChunk_def)
  ultimately show ?thesis by (simp add: unat_word_ariths(2))
qed

lemma updateChunkMap_total:
  assumes "is_order ord64" and "32 * unat (ChunkCount m) \<le> length metafile"
  obtains cm where "updateChunkMap ord64 fh m metafile = Inr (m\<lparr>ChunkMap := cm\<rparr>)"
proof -
  have "\<forall>i \<in> set [0..<unat (ChunkCount m)]. 32 * Suc i \<le> length metafile" using assms(2) by auto
  from updateChunkMap_loop_spec [OF assms(1) this, of "hashDataMap fh" "ChunkMap m"] that show thesis
    by (auto simp: updateChunkMap_def)
qed

lemma metafile_size: "32 * unat (of_nat (length metafile div 32) :: u64) \<le> length (metafile :: bytes)"
proof -
  have "unat (of_nat (length metafile div 32) :: u64) \<le> length metafile div 32" by (simp add: unat_of_nat)
  then show ?thesis by arith
qed

lemma openMetadata_fine:
  assumes "is_order ord64" and "\<not> too_short (file_key H metaHash fileName) metafile g"
  shows "\<exists>m g1. openMetadata H ord64 fileName metaHash metafile g = Inr (m, g1) \<and> file_frame g g1
    \<and> known_file (file_key H metaHash fileName) g1 \<and> 32 * unat (ChunkCount m) \<le> length metafile
    \<and> hashDataMap (fileHandler g1) = hashDataMap (fileHandler g)"
proof -
  let ?key = "file_key H metaHash fileName"
  let ?new = "\<lparr>FileName = fileName, MetafileHash = metaHash, ChunkCount = of_nat (length metafile div 32), ChunkMap = [], FileSize = 0\<rparr>"
  obtain metas m b where l: "LoadOrStore ?key ?new (filesMetadata (fileHandler g)) = (metas, m, b)" by (metis surj_pair)
  have m: "32 * unat (ChunkCount m) \<le> length metafile"
    using l assms(2) metafile_size by (auto simp: LoadOrStore_def too_short_def not_less split: option.splits)
  obtain cm where cm: "updateChunkMap ord64 (fileHandler g) m metafile = Inr (m\<lparr>ChunkMap := cm\<rparr>)"
    using updateChunkMap_total [OF assms(1) m] .
  let ?g1 = "g\<lparr>fileHandler := (fileHandler g)\<lparr>filesMetadata := fmupd ?key (m\<lparr>ChunkMap := cm\<rparr>) metas\<rparr>\<rparr>"
  have "file_frame g ?g1"
    using l by (auto simp: file_frame_def keeps_files_def meta_names_def LoadOrStore_def split: option.splits)
  moreover have "known_file ?key ?g1" by (simp add: known_file_def meta_names_def)
  ultimately show ?thesis using l cm m by (simp add: openMetadata_def Let_def)
qed

lemma startTransfer_fine:
  assumes "is_order ord64" and "\<not> bad_transfer H fileName metaHash metafile g"
  shows "fine_download (startTransfer H ord64 fileName dest metaHash metafile g) g"
proof -
  let ?key = "file_key H metaHash fileName"
  have bad: "\<not> too_short ?key metafile g" "\<not> long_chunk metafile (hashDataMap (fileHandler g))" "length metafile < 2 ^ 56"
    using assms(2) by (simp_all add: bad_transfer_def)
  obtain m g1 where o: "openMetadata H ord64 fileName metaHash metafile g = Inr (m, g1)" "file_frame g g1" "known_file ?key g1"
    "32 * unat (ChunkCount m) \<le> length metafile" "hashDataMap (fileHandler g1) = hashDataMap (fileHandler g)"
    using openMetadata_fine [OF assms(1) bad(1)] by blast
  show ?thesis
  proof (cases "FileSize m = 0")
    case False
    then show ?thesis using o by (simp add: startTransfer_def fine_download_def)
  next
    case True
    let ?tr = "\<lparr>tr_key = ?key, tr_file = fileName, tr_dest = dest, tr_metafile = metafile, tr_count = ChunkCount m\<rparr>"
    let ?st = "(replicate (unat (ChunkCount m * of_nat fileChunk)) 0, 0, 0)"
    have "transfer_ok ?tr [0..<unat (ChunkCount m)] ?st"
      using o(4) chunk_count_bounds [OF bad(3) o(4)] by (simp add: transfer_ok_def)
    from nextChunk_fine [OF _ _ this, of g1 H] o(3,5) bad(2) have "fine_download (nextChunk H ?tr [0..<unat (ChunkCount m)] ?st g1) g1"
      by simp
    from fine_download_frame [OF this o(2)] True o(1) show ?thesis by (simp add: startTransfer_def)
  qed
qed

lemma start_fine:
  assumes "is_order ord64" and "\<not> bad_start H fileName metaHash g"
  shows "fine_download (startDownload H ord64 fileName dest metaHash g) g"
proof (cases "fmlookup (hashDataMap (fileHandler g)) (hex_encode metaHash)")
  case (Some metafile)
  then have "\<not> bad_transfer H fileName metaHash metafile g" using assms(2) by (auto simp: bad_start_def)
  from startTransfer_fine [OF assms(1) this] Some show ?thesis by (simp add: startDownload_def)
next
  case None
  then show ?thesis
    using startPiece_fine [of H fileName dest metaHash 0 g] by (auto simp: startDownload_def fine_download_def)
qed

lemma owner_map_total:
  assumes "length metafile < 2 ^ 64" and "\<forall>e \<in> set cm. e \<noteq> 0 \<and> 32 * unat e \<le> length metafile"
  shows "\<exists>owners. updateChunkOwnerMap ord peer cm metafile fh = Inr (fh\<lparr>chunkOwners := owners\<rparr>)"
proof -
  have "\<exists>o'. updateChunkOwner_loop ord peer metafile cm owners = Inr o'" for owners
    using assms(2)
  proof (induction cm arbitrary: owners)
    case (Cons e cm)
    then have "1 \<le> e" "32 * unat e \<le> length metafile" by (simp_all add: word_le_nat_alt Suc_leI unat_gt_0)
    from slice_chunk [OF this assms(1)] Cons show ?case by simp
  qed simp
  then obtain owners' where "updateChunkOwner_loop ord peer metafile cm (chunkOwners fh) = Inr owners'" by blast
  then show ?thesis by (auto simp: updateChunkOwnerMap_def)
qed

lemma arrived_fine:
  assumes "is_order ord64" and "fmlookup (filesMetadata (fileHandler g)) key = Some m"
    and "fmlookup (hashDataMap (fileHandler g)) (hex_encode (MetafileHash m)) = Some metafile"
    and "\<not> bad_fetch key chunkMap metafile g"
  shows "fine_download (res_bind (metafileArrived ord ord64 key origin chunkMap g) (\<lambda>g'. Inr (None, g', []))) g"
proof -
  have bad: "32 * unat (ChunkCount m) \<le> length metafile" "\<forall>e \<in> set chunkMap. e \<noteq> 0 \<and> 32 * unat e \<le> length metafile" "length metafile < 2 ^ 64"
    using assms(2,4) by (auto simp: bad_fetch_def too_short_def not_less)
  obtain owners where o: "updateChunkOwnerMap ord origin chunkMap metafile (fileHandler g) = Inr ((fileHandler g)\<lparr>chunkOwners := owners\<rparr>)"
    using owner_map_total [OF bad(3,2)] by blast
  obtain cm where cm: "updateChunkMap ord64 ((fileHandler g)\<lparr>chunkOwners := owners\<rparr>) m metafile = Inr (m\<lparr>ChunkMap := cm\<rparr>)"
    using updateChunkMap_total [OF assms(1) bad(1)] .
  have "file_frame g (g\<lparr>fileHandler := (fileHandler g)\<lparr>chunkOwners := owners, filesMetadata := fmupd key (m\<lparr>ChunkMap := cm\<rparr>) (filesMetadata (fileHandler g))\<rparr>\<rparr>)"
    using assms(2) by (auto simp: file_frame_def keeps_files_def meta_names_def)
  with o cm assms(2,3) show ?thesis by (simp add: metafileArrived_def fine_download_def Let_def)
qed

lemma start_fetch_fine:
  assumes "is_order ord64" and "known_file key g" and "\<not> bad_result key chunkMap g"
  shows "fine_download (startFetch H ord ord64 key origin chunkMap g) g"
proof -
  obtain m where m: "fmlookup (filesMetadata (fileHandler g)) key = Some m" using set_meta_names [OF assms(2)] by blast
  show ?thesis
  proof (cases "fmlookup (hashDataMap (fileHandler g)) (hex_encode (MetafileHash m))")
    case (Some metafile)
    then have "\<not> bad_fetch key chunkMap metafile g" using assms(3) m by (auto simp: bad_result_def)
    from arrived_fine [OF assms(1) m Some this, of ord origin] m Some show ?thesis by (simp add: startFetch_def)
  next
    case None
    have "fmlookup (meta_names g) key = Some (FileName m, MetafileHash m)" using m by (simp add: meta_names_def)
    with startPiece_fine [of H "FileName m" origin "MetafileHash m" 0 g] m None show ?thesis
      by (auto simp: startFetch_def fine_download_def)
  qed
qed

lemma chunk_downloaded_fine:
  assumes "known_file key g"
  shows "\<exists>g'. chunkDownloaded ord ord64 key dest peer hash n g = Inr g' \<and> file_frame g g'
    \<and> hashDataMap (fileHandler g') = hashDataMap (fileHandler g)"
proof -
  obtain m where m: "fmlookup (filesMetadata (fileHandler g)) key = Some m" using set_meta_names [OF assms] by blast
  have "file_frame g (set_meta key (m\<lparr>ChunkMap := cm\<rparr>) (set_owners owners g))" for cm owners
    using m by (auto simp: file_frame_def keeps_files_def meta_names_def set_meta_def set_owners_def)
  moreover have "set_meta key m' (set_owners (chunkOwners (fileHandler g)) g) = set_meta key m' g" for m'
    by (simp add: set_meta_def set_owners_def)
  ultimately have "file_frame g (set_meta key (m\<lparr>ChunkMap := cm\<rparr>) (set_owners owners g))"
    "file_frame g (set_meta key (m\<lparr>ChunkMap := cm\<rparr>) g)" for cm owners
    by metis+
  with m show ?thesis by (simp add: chunkDownloaded_def set_owners_def set_meta_def)
qed

lemma keep_present: "\<exists>d'. fmlookup (chunk_keep h d store) (hex_encode h) = Some d'"
  by (auto simp: chunk_keep_def LoadOrStore_def split: option.split)

lemma reply_fine:
  assumes "is_order ord64" and "download_ok g d" and "g = set_store (chunk_keep (pc_hash (piece_of d)) x store) g0"
    and "case d of Fetching pc key origin chunkMap \<Rightarrow> \<not> bad_result key chunkMap g
           | ForMetafile pc fileName dest metaHash \<Rightarrow> \<not> bad_start H fileName metaHash g
           | ForChunk pc tr peers i is st \<Rightarrow> \<not> long_chunk (tr_metafile tr) (hashDataMap (fileHandler g))"
  shows "fine_download (resume H ord ord64 True d g) g"
proof -
  obtain data where data: "fmlookup (hashDataMap (fileHandler g)) (hex_encode (pc_hash (piece_of d))) = Some data"
    using keep_present assms(3) by (fastforce simp: set_store_def)
  show ?thesis
  proof (cases d)
    case (Fetching pc key origin chunkMap)
    then obtain m where m: "fmlookup (filesMetadata (fileHandler g)) key = Some m" "MetafileHash m = pc_hash pc"
      using assms(2) by (auto simp: meta_names_def)
    with data Fetching assms(4) have "\<not> bad_fetch key chunkMap data g" by (auto simp: bad_result_def)
    from arrived_fine [OF assms(1) m(1) _ this, of ord origin] data m Fetching show ?thesis by simp
  next
    case (ForMetafile pc fileName dest metaHash)
    with data assms(2,4) have "\<not> bad_transfer H fileName metaHash data g" by (auto simp: bad_start_def)
    from startTransfer_fine [OF assms(1) this] data ForMetafile assms(2) show ?thesis by simp
  next
    case (ForChunk pc tr peers i "is" st)
    have ok: "known_file (tr_key tr) g" "transfer_ok tr (i # is) st" "metafile_hash (tr_metafile tr) i = Inr (pc_hash pc)"
      using assms(2) ForChunk by simp_all
    obtain g' where g': "chunkDownloaded ord ord64 (tr_key tr) (tr_dest tr) (pc_peer pc) (pc_hash pc) (of_nat i + 1) g = Inr g'"
      "file_frame g g'" "hashDataMap (fileHandler g') = hashDataMap (fileHandler g)"
      using chunk_downloaded_fine [OF ok(1)] by blast
    have long: "\<not> long_chunk (tr_metafile tr) (hashDataMap (fileHandler g'))" using assms(4) ForChunk g'(3) by simp
    with data g'(3) ok(3) ForChunk have "length data \<le> fileChunk" by (auto simp: long_chunk_def not_less)
    then obtain st' where st': "copy_chunk i data st = Inr st'" "transfer_ok tr is st'" using copy_chunk_ok [OF ok(2)] by blast
    have "known_file (tr_key tr) g'" using ok(1) g'(2) by (auto simp: file_frame_def keeps_files_def known_file_def fmlookup_dom_iff)
    from fine_download_frame [OF nextChunk_fine [OF long this st'(2)] g'(2)] show ?thesis
      using g'(1,3) st'(1) data ForChunk by simp
  qed
qed

text \<open>
  Every step of a download that is waiting ends without a panic, unless the event is a bad one, and
  leaves a download that can go on.
\<close>

lemma step_fine:
  assumes "is_order ord64" and "download_ok g d" and "\<not> bad_event H ev d g"
  shows "fine_download (downloadStep H ord ord64 ev d g) g"
proof (cases ev)
  case (ReplyArrives r)
  let ?g1 = "set_store (chunk_keep (pc_hash (piece_of d)) (data_of r) (hashDataMap (fileHandler g))) g"
  have f: "file_frame g ?g1" by (rule file_frame_same [OF meta_names_simps(1) set_store_def])
  then have ok: "download_ok ?g1 d" using download_ok_keeps [OF assms(2)] by (simp add: file_frame_def)
  have "case d of Fetching pc key origin chunkMap \<Rightarrow> \<not> bad_result key chunkMap ?g1
           | ForMetafile pc fileName dest metaHash \<Rightarrow> \<not> bad_start H fileName metaHash ?g1
           | ForChunk pc tr peers i is st \<Rightarrow> \<not> long_chunk (tr_metafile tr) (hashDataMap (fileHandler ?g1))"
    using assms(3) ReplyArrives by (simp add: Let_def split: download.splits)
  from fine_download_frame [OF reply_fine [OF assms(1) ok refl this] f, of ord] ReplyArrives show ?thesis
    by (simp add: downloadStep_def chunk_keep_def)
next
  case RequestTick
  have "piece_ok (piece_of d)" using assms(2) by (cases d) simp_all
  then obtain p ps where f: "forwardPrivateMessage (routingHandler g) HopDataRequest (pc_peer (piece_of d)) (pc_packet (piece_of d)) = Inr (p, ps)"
    "is_request p" "list_all download_effect (sends ps)" using forward_request unfolding piece_ok_def by blast
  have "download_ok g (with_piece (piece_of d\<lparr>pc_packet := p\<rparr>) d)"
    using assms(2) f(2) by (cases d) (simp_all add: piece_ok_def)
  with f RequestTick show ?thesis by (simp add: downloadStep_def fine_download_def)
next
  case StopTick
  have "fine_download (resume H ord ord64 False d g) g"
  proof (cases d)
    case (ForChunk pc tr peers i "is" st)
    then have ok: "known_file (tr_key tr) g" "transfer_ok tr (i # is) st" "metafile_hash (tr_metafile tr) i = Inr (pc_hash pc)"
      using assms(2) by simp_all
    have "\<not> long_chunk (tr_metafile tr) (hashDataMap (fileHandler g))" using assms(3) StopTick ForChunk by simp
    from nextChunk_fine [OF this ok(1) transfer_ok_tail [OF ok(2)]] fine_ask [OF ok] ForChunk show ?thesis
      by (simp split: list.split)
  qed (simp_all add: fine_download_def)
  then show ?thesis using StopTick by (simp add: downloadStep_def)
qed

text \<open>
  The bound on chunks is needed: the last chunk of a file, sent with more bytes than a chunk has,
  ends the process with a slice out of range.
\<close>

theorem long_chunk_stops:
  assumes "download_ok g (ForChunk pc tr peers i is st)" and "Suc i = unat (tr_count tr)"
    and "fmlookup (hashDataMap (fileHandler g)) (hex_encode (pc_hash pc)) = None" and "fileChunk < length (data_of r)"
  shows "downloadStep H ord ord64 (ReplyArrives r) (ForChunk pc tr peers i is st) g = Inl OutOfRange"
proof -
  obtain buf counter sz where st: "st = (buf, counter, sz)" by (cases st)
  let ?g = "set_store (fmupd (hex_encode (pc_hash pc)) (data_of r) (hashDataMap (fileHandler g))) g"
  have "known_file (tr_key tr) ?g" using assms(1) by (simp add: known_file_def)
  then obtain g' where "chunkDownloaded ord ord64 (tr_key tr) (tr_dest tr) (pc_peer pc) (pc_hash pc) (of_nat i + 1) ?g = Inr g'"
    "hashDataMap (fileHandler g') = hashDataMap (fileHandler ?g)" using chunk_downloaded_fine by blast
  moreover have "length buf = i * fileChunk + fileChunk"
    using assms(1) by (simp add: st transfer_ok_def flip: assms(2))
  then have "copy_chunk i (data_of r) st = Inl OutOfRange" using assms(4) by (simp add: st copy_chunk_def go_slice_def)
  ultimately show ?thesis
    using assms(3) by (simp add: downloadStep_def LoadOrStore_absent) (simp add: set_store_def)
qed

end
