(* ===== verification/Jobs.thy ===== *)
theory Jobs
  imports Node Downloads
begin

text \<open>
  The work the handlers of a node leave behind: values on channels for the loops, goroutines that
  run once, and goroutines that wait for a packet or a timer.  What can stop a node in one run of a
  piece of work, and the proof that a handler only leaves work whose packets have the fields it
  reads.  Mongering and searching goroutines keep a node sound.
\<close>

section \<open>Work that is left\<close>

datatype job =
    Reacts stimulus
  | Mongers ext_packet string u32
  | Mongering monger
  | Broadcasts ext_packet "udp_addr list"
  | SearchForward ext_packet
  | SearchStart ext_packet bool
  | Searching searcher
  | Publishes file_metadata
  | ClientBlock ext_packet
  | Confirming confirmer
  | InRound block_round
  | Fetches string string "u64 list"
  | Downloads string string bytes
  | Downloading download
  | Delivers string data_reply

text \<open>
  The work an effect leaves.  \<open>Delivers\<close> is the goroutine that puts a data reply on the channel of a
  download.
\<close>

fun jobs_of_task :: "task \<Rightarrow> job list" where
  "jobs_of_task (StartRumorMongering e origin mid) = [Mongers e origin mid]"
| "jobs_of_task (ForwardPrivate p hop dest) = [Reacts (Relays p hop dest)]"
| "jobs_of_task (HandleGossipMessage e origin mid) = [Reacts (GossipArrives e origin mid)]"
| "jobs_of_task (BroadcastToPeers e peers) = [Broadcasts e peers]"
| "jobs_of_task (HandleSearchResult origin res) = [Reacts (ResultArrives origin res)]"
| "jobs_of_task (SearchFilesWithTimeout e increment) = [SearchStart e increment]"
| "jobs_of_task (ForwardSearchRequest e) = [SearchForward e]"
| "jobs_of_task (CreateAndPublishTxBlock fm) = [Publishes fm]"
| "jobs_of_task (NotifyListeners e) = [Reacts (Notifies e)]"
| "jobs_of_task (FetchMetafile key origin chunkMap) = [Fetches key origin chunkMap]"
| "jobs_of_task (DownloadFileChunks f dest h) = [Downloads f dest h]"
| "jobs_of_task (HandlePeerStatus peer) = []"

fun jobs_of_send :: "chan_send \<Rightarrow> job list" where
  "jobs_of_send (ToPacketChannel chan e) = (if chan = ''clientBlock'' then [ClientBlock e] else [Reacts (FromChannel chan e)])"
| "jobs_of_send (ToClientChannel m) = [Reacts (FromClient m)]"
| "jobs_of_send (ToStatusChannel peer e) = [Reacts (StatusArrives e)]"
| "jobs_of_send (ToHashChannel key r) = [Delivers key r]"
| "jobs_of_send _ = []"

fun jobs_of_effect :: "effect \<Rightarrow> job list" where
  "jobs_of_effect (Go t) = jobs_of_task t"
| "jobs_of_effect (GoSend v) = jobs_of_send v"
| "jobs_of_effect _ = []"

definition jobs_of :: "effect list \<Rightarrow> job list" where
  "jobs_of out = concat (map jobs_of_effect out)"

lemma jobs_of_simps [simp]:
  "jobs_of [] = []" "jobs_of (e # es) = jobs_of_effect e @ jobs_of es" "jobs_of (xs @ ys) = jobs_of xs @ jobs_of ys"
  by (simp_all add: jobs_of_def)

text \<open>What chance, time and other goroutines decide in one run of a piece of work.\<close>

record choice =
  ch_peer :: nat
  ch_peers :: "nat \<Rightarrow> nat"
  ch_coin :: int
  ch_status :: bool
  ch_event :: confirm_event
  ch_fitness :: float32
  ch_download :: download_event

type_synonym job_outcome = "(job list \<times> gossiper \<times> effect list) res"

definition keep_job :: "('a \<Rightarrow> job) \<Rightarrow> ('a option \<times> gossiper \<times> effect list) res \<Rightarrow> job_outcome" where
  "keep_job j r = res_bind r (\<lambda>(x, g, out). Inr (case x of None \<Rightarrow> [] | Some y \<Rightarrow> [j y], g, out))"

text \<open>One run: the work it turns into, the node and the effects.\<close>

fun run_job :: "environment \<Rightarrow> choice \<Rightarrow> job \<Rightarrow> gossiper \<Rightarrow> job_outcome" where
  "run_job w c (Reacts s) g = res_bind (node_react w s g) (\<lambda>(g', out). Inr ([], g', out))"
| "run_job w c (Mongers e origin mid) g =
     res_bind (startRumorMongering (ch_peer c) e origin mid g) (\<lambda>(g', m, out).
       Inr (case m of None \<Rightarrow> [] | Some m' \<Rightarrow> [Mongering m'], g', out))"
| "run_job w c (Mongering m) g =
     res_bind (wakeRumorMongering (ch_status c) (ch_coin c) (ch_peer c) m g) (\<lambda>(g', m', out).
       Inr (case m' of None \<Rightarrow> [] | Some m'' \<Rightarrow> [Mongering m''], g', out))"
| "run_job w c (Broadcasts e peers) g = Inr ([], g, broadcastToPeers e peers)"
| "run_job w c (SearchForward e) g = Inr ([], g, forwardSearchRequestWithBudget (ch_peers c) e g)"
| "run_job w c (SearchStart e increment) g =
     (let (s, out) = searchFilesWithTimeout (ch_peers c) e increment g
      in Inr (case s of None \<Rightarrow> [] | Some s' \<Rightarrow> [Searching s'], g, out))"
| "run_job w c (Searching s) g =
     res_bind (searchTick (env_match w) (env_order w) (ch_peers c) s g) (\<lambda>(s', out).
       Inr (case s' of None \<Rightarrow> [] | Some s'' \<Rightarrow> [Searching s''], g, out))"
| "run_job w c (Publishes fm) g =
     res_bind (createAndPublishTxBlock (env_order w) (ch_fitness c) fm g) (\<lambda>(s, g', out).
       Inr (case s of None \<Rightarrow> [] | Some s' \<Rightarrow> [Confirming s'], g', out))"
| "run_job w c (ClientBlock e) g =
     res_bind (processClientBlocks (env_hash w) (env_order w) e g) (\<lambda>(r, g', out).
       Inr (case r of None \<Rightarrow> [] | Some r' \<Rightarrow> [InRound r'], g', out))"
| "run_job w c (Confirming s) g =
     res_bind (confirmStep (env_order w) (ch_event c) s g) (\<lambda>(s', g', out).
       Inr (case s' of None \<Rightarrow> [] | Some s'' \<Rightarrow> [Confirming s''], g', out))"
| "run_job w c (InRound (InTlc s)) g =
     res_bind (confirmStep (env_order w) (ch_event c) s g) (\<lambda>(s', g', out).
       Inr (case s' of None \<Rightarrow> [] | Some s'' \<Rightarrow> [InRound (InTlc s'')], g', out))"
| "run_job w c (InRound (InQsc q)) g =
     res_bind (qscStep (env_hash w) (env_order w) (ch_event c) q g) (\<lambda>(q', g', out).
       Inr (case q' of None \<Rightarrow> [] | Some q'' \<Rightarrow> [InRound (InQsc q'')], g', out))"
| "run_job w c (Fetches key origin chunkMap) g =
     keep_job Downloading (startFetch (env_hash w) (env_order w) (env_order64 w) key origin chunkMap g)"
| "run_job w c (Downloads fileName dest metaHash) g =
     keep_job Downloading (startDownload (env_hash w) (env_order64 w) fileName dest metaHash g)"
| "run_job w c (Downloading d) g =
     keep_job Downloading (downloadStep (env_hash w) (env_order w) (env_order64 w) (ch_download c) d g)"
| "run_job w c (Delivers key r) g = Inr ([], g, [])"

text \<open>
  A mongering goroutine sees a status only if one was passed on to it, the next block waits until
  the round of the one before is over, and a download gets a reply only from a goroutine that delivers
  it on its channel.  (That goroutine ends with a step of its own, so the model also has runs in
  which one reply is taken several times.)
\<close>

fun enabled :: "environment \<Rightarrow> choice \<Rightarrow> job \<Rightarrow> job list \<Rightarrow> gossiper \<Rightarrow> bool" where
  "enabled w c (Mongering m) others g \<longleftrightarrow> (ch_status c \<longrightarrow> status_pending m g)"
| "enabled w c (ClientBlock e) others g \<longleftrightarrow> (\<forall>r. InRound r \<notin> set others)"
| "enabled w c (Downloading d) others g \<longleftrightarrow> (\<forall>r. ch_download c = ReplyArrives r \<longrightarrow>
     Delivers (reply_key (env_hash w) (pc_hash (piece_of d)) (pc_peer (piece_of d))) r \<in> set others)"
| "enabled w c j others g \<longleftrightarrow> True"

section \<open>What can stop a node\<close>

text \<open>A file known from a search whose chunk count is greater than its metafile has room for.\<close>

definition short_metafile :: "file_handler \<Rightarrow> bool" where
  "short_metafile fh \<longleftrightarrow> (\<exists>k m metafile. fmlookup (filesMetadata fh) k = Some m
     \<and> chunk_fetch (hashDataMap fh) (MetafileHash m) = Some metafile \<and> length metafile < 32 * unat (ChunkCount m))"

text \<open>At least \<open>k\<close> numbers for own messages are left.\<close>

definition spare :: "nat \<Rightarrow> gossiper \<Rightarrow> bool" where
  "spare k g \<longleftrightarrow> unat (seqID (gossipHandler g)) + k < 2 ^ 32"

text \<open>
  The decision that follows round \<open>s\<close> panics if no message of this round was seen; and the chain is
  no longer one if the hash of the block that is committed is taken.
\<close>

definition bad_decision :: "(bytes \<Rightarrow> bytes) \<Rightarrow> (string fset \<Rightarrow> string list) \<Rightarrow> u32 \<Rightarrow> blockchain_handler \<Rightarrow> bool" where
  "bad_decision H ord s bh \<longleftrightarrow> fmlookup (confirmations bh) (s + 2) \<noteq> None \<and>
     (fmlookup (messageSeen bh) s = None \<or>
      (case fmlookup (confirmations bh) s of
         None \<Rightarrow> False
       | Some conf \<Rightarrow>
           (let h = BlockPublish_Hash H ((tlc_TxBlock (getTLCWithHighestFitness ord conf))\<lparr>PrevHash := topBlockchainHash bh\<rparr>)
            in h = zero_hash \<or> fmlookup (committedHistory bh) h \<noteq> None)))"

text \<open>
  Besides the hostile stimuli: such a file while a search runs, such a decision, what a download can
  panic on, and the end of the numbers.  A round of the consensus creates five messages at most.
\<close>

fun hostile_job :: "environment \<Rightarrow> choice \<Rightarrow> job \<Rightarrow> gossiper \<Rightarrow> bool" where
  "hostile_job w c (Reacts s) g \<longleftrightarrow> hostile w s g"
| "hostile_job w c (Searching s) g \<longleftrightarrow> short_metafile (fileHandler g)"
| "hostile_job w c (Publishes fm) g \<longleftrightarrow> exhausted g"
| "hostile_job w c (ClientBlock e) g \<longleftrightarrow>
     (if hw3ex4Mode (config g) then \<not> spare 5 g \<or> bad_decision (env_hash w) (env_order w) (round_of g) (blockchainHandler g)
      else exhausted g)"
| "hostile_job w c (Confirming s) g \<longleftrightarrow> exhausted g"
| "hostile_job w c (InRound (InTlc s)) g \<longleftrightarrow> exhausted g"
| "hostile_job w c (InRound (InQsc q)) g \<longleftrightarrow>
     \<not> spare 5 g \<or> bad_decision (env_hash w) (env_order w) (q_round q) (blockchainHandler g)"
| "hostile_job w c (Fetches key origin chunkMap) g \<longleftrightarrow> bad_result key chunkMap g"
| "hostile_job w c (Downloads fileName dest metaHash) g \<longleftrightarrow> bad_start (env_hash w) fileName metaHash g"
| "hostile_job w c (Downloading d) g \<longleftrightarrow> bad_event (env_hash w) (ch_download c) d g"
| "hostile_job w c _ g \<longleftrightarrow> False"

text \<open>
  What the work that is left satisfies: always, or in the state \<open>g\<close>.  A goroutine of the consensus has
  left the rounds for which the confirmations are there; a download knows its file.
\<close>

fun job_ok :: "job \<Rightarrow> bool" where
  "job_ok (Reacts s) \<longleftrightarrow> possible s"
| "job_ok (ClientBlock e) \<longleftrightarrow> TLCMessage (Packet e) \<noteq> None"
| "job_ok (Fetches key origin chunkMap) \<longleftrightarrow> False"
| "job_ok (Downloading d) \<longleftrightarrow> False"
| "job_ok (InRound (InQsc q)) \<longleftrightarrow> False"
| "job_ok _ \<longleftrightarrow> True"

definition qsc_ok :: "qsc_state \<Rightarrow> gossiper \<Rightarrow> bool" where
  "qsc_ok q g \<longleftrightarrow> q_left q \<le> 2 \<and>
     (\<forall>i < 2 - q_left q. fmlookup (confirmations (blockchainHandler g)) (q_round q + of_nat i) \<noteq> None)"

fun job_sound :: "gossiper \<Rightarrow> job \<Rightarrow> bool" where
  "job_sound g (Fetches key origin chunkMap) \<longleftrightarrow> known_file key g"
| "job_sound g (Downloading d) \<longleftrightarrow> download_ok g d"
| "job_sound g (InRound (InQsc q)) \<longleftrightarrow> qsc_ok q g"
| "job_sound g j \<longleftrightarrow> job_ok j"

lemma job_ok_sound: "job_ok j \<Longrightarrow> job_sound g j"
  by (cases "(g, j)" rule: job_sound.cases) auto

section \<open>Work begets sound work\<close>

abbreviation sound_jobs :: "effect list \<Rightarrow> bool" where
  "sound_jobs out \<equiv> list_all job_ok (jobs_of out)"

lemma jobs_of_lists [simp]:
  "jobs_of (map Println ls) = []" "jobs_of (sends ps) = []" "jobs_of (log_error err) = []"
  "jobs_of (map (\<lambda>(p, a). SendPacket p a) ps) = []"
  by (induction ls) (auto simp: sends_def jobs_of_def log_error_def split: option.split)

lemma jobs_of_prints [simp]:
  "jobs_of (printPeers c ps) = []" "jobs_of (printStatusMessage c a want ps) = []" "jobs_of (printPeerMessage c e ps) = []"
  "jobs_of (printClientMessage c m ps) = []" "jobs_of (printDownloadMessage f d n) = []"
  "jobs_of (printSearchMatchMessage c k res) = []"
  by (auto simp: printPeers_def printStatusMessage_def printPeerMessage_def printClientMessage_def printDownloadMessage_def
      printSearchMatchMessage_def Let_def)

lemma jobs_of_indexFile [simp]: "sound_jobs (snd (indexFile H disk c f fh))"
  by (auto simp: indexFile_def Let_def split: sum.split prod.split)

lemma rumor_jobs: "createRumorMessage t g = Inr (e, g', out) \<Longrightarrow> sound_jobs out"
  by (auto simp: createRumorMessage_def Let_def go_simps)

lemma gossip_jobs: "handleGossipMessage ord e origin mid g = Inr (g', out) \<Longrightarrow> sound_jobs out"
  by (auto simp: handleGossipMessage_def Let_def go_simps split: if_splits prod.splits)

lemma tlc_jobs:
  assumes "handleTLCMessage ord e g = Inr (g', out)" and "getTypeFromGossip (Packet e) = ''tlcMes''"
  shows "sound_jobs out"
proof -
  have "sound_jobs o1" if "acknowledge tlc r h = Inr (h', o1)" for tlc r h h' o1
    using that by (auto simp: acknowledge_def Let_def go_simps ack_packet_def split: if_splits)
  moreover have "sound_jobs o2" if "checkForCausalProperty ord k vc i a h = Inr (b, h', o2)" for k vc i a h b h' o2
    using that by (auto simp: checkForCausalProperty_def go_simps split: if_splits)
  moreover obtain tlc r bh where "TLCMessage (Packet e) = Some tlc"
    "getMessageOriginalRound (tlc_Origin tlc) (tlc_ID tlc) (tlc_Confirmed tlc) (blockchainHandler g) = (r, bh)"
    using assms(1) by (cases "TLCMessage (Packet e)") (simp_all add: handleTLCMessage_def, metis surj_pair)
  ultimately show ?thesis
    using assms by (auto simp: handleTLCMessage_def Let_def go_simps on_channel_def split: if_splits)
qed

lemma jobs_of_results [simp]:
  "jobs_of (map (\<lambda>res. Go (HandleSearchResult k res)) rs) = map (\<lambda>res. Reacts (ResultArrives k res)) rs"
  by (induction rs) auto

lemma point_jobs:
  "processTLCAck e g = Inr (g', out) \<Longrightarrow> sound_jobs out"
  "processSimpleMessages e g = Inr (g', out) \<Longrightarrow> sound_jobs out"
  "processStatusMessages e g = Inr (g', out) \<Longrightarrow> sound_jobs out"
  "processDataRequest e g = Inr (g', out) \<Longrightarrow> sound_jobs out"
  "processDataReply H e g = Inr (g', out) \<Longrightarrow> sound_jobs out"
  "processSearchReply e g = Inr (g', out) \<Longrightarrow> sound_jobs out"
  by (auto simp: processTLCAck_def processSimpleMessages_def processStatusMessages_def
      processDataRequest_def processDataReply_def processSearchReply_def Let_def go_simps list_all_iff
      split: if_splits option.splits prod.splits)

lemma private_jobs:
  assumes "processPrivateMessages e g = Inr (g', out)"
  shows "sound_jobs out"
proof -
  obtain p where p: "Private (Packet e) = Some p" using assms by (auto simp: processPrivateMessages_def go_simps)
  obtain rh ls where "updateRoutingTable (config g) (priv_Destination p) (priv_Text p) (priv_ID p) (SenderAddr e) (routingHandler g) = (rh, ls)"
    by fastforce
  with assms p show ?thesis by (auto simp: processPrivateMessages_def Let_def split: if_splits)
qed

lemma search_jobs:
  assumes "processSearchRequest H rx ord now now' e g = Inr (g', out)"
  shows "sound_jobs out"
proof -
  obtain r where r: "SearchRequest (Packet e) = Some r" using assms by (auto simp: processSearchRequest_def go_simps)
  obtain recent r1 fh where "isRecentSearchRequest H now now' r (fileHandler g) = (recent, r1, fh)"
    by (cases "isRecentSearchRequest H now now' r (fileHandler g)") auto
  with assms r show ?thesis by (cases recent) (auto simp: processSearchRequest_def Let_def)
qed

lemma loop_jobs:
  assumes "on_channel chan (Packet e)" and "run_loop w chan e g = Inr (g', out)"
  shows "sound_jobs out"
proof -
  have "sound_jobs o1" if "processTLCMessage e g = Inr (h, o1)" "getTypeFromGossip (Packet e) = ''tlcMes''" for h o1
    using that by (auto simp: processTLCMessage_def Let_def go_simps on_channel_def)
  moreover have "sound_jobs o1" if "processRumorMessages ord e g = Inr (h, o1)" for ord h o1
    using that by (auto simp: processRumorMessages_def go_simps dest: gossip_jobs)
  moreover have "chan = ''tlcMes'' \<Longrightarrow> getTypeFromGossip (Packet e) = ''tlcMes''"
    "chan = ''tlcCausal'' \<Longrightarrow> getTypeFromGossip (Packet e) = ''tlcMes''"
    using assms(1) by (auto simp: on_channel_def getTypeFromGossip_def split: if_splits)
  ultimately show ?thesis
    using assms(2) point_jobs private_jobs search_jobs tlc_jobs unfolding run_loop_def
    by (simp split: if_splits)
qed

lemma command_jobs:
  assumes "processClientMessages H disk ord m g = Inr (g', out)"
  shows "sound_jobs out"
proof (cases "getTypeFromMessage (config g) m = ''file''")
  case True
  then obtain f where "File m = Some f" using getTypeFromMessage_fields(2) by blast
  with True have "out = snd (indexFile H disk (config g) f (fileHandler g))"
    using assms by (auto simp: processClientMessages_def Let_def case_prod_beta)
  then show ?thesis by simp
next
  case False
  then show ?thesis
    using assms by (auto simp: processClientMessages_def Let_def go_simps split: if_splits dest: rumor_jobs)
qed

lemma other_react_jobs:
  assumes "possible s" and "\<And>origin res. s \<noteq> ResultArrives origin res" and "node_react w s g = Inr (g', out)"
  shows "sound_jobs out"
proof (cases s)
  case (Datagram bytes addr)
  obtain p err where d: "env_decode w bytes = (p, err)" by fastforce
  have "getTypeFromGossip p \<noteq> ''clientBlock''" by (simp add: getTypeFromGossip_def)
  then show ?thesis
    using assms Datagram d
    by (auto simp: receivePacketsFromPeers_def on_channel_def Let_def split: option.splits if_splits)
next
  case (FromChannel chan e)
  then show ?thesis using assms loop_jobs by simp
next
  case (FromClient m)
  then show ?thesis using assms command_jobs by simp
next
  case (StatusArrives e)
  then show ?thesis using assms by (auto simp: handlePeerStatus_def Let_def go_simps split: option.splits if_splits)
next
  case (GossipArrives e origin mid)
  then show ?thesis using assms gossip_jobs by simp
next
  case (Relays p hop dest)
  then show ?thesis using assms by (auto simp: go_simps)
next
  case (AntiEntropyTick rnd)
  then show ?thesis using assms by (auto simp: startAntiEntropy_def Let_def go_simps split: if_splits)
next
  case RouteRumorStart
  then show ?thesis using assms by (auto simp: routeRumorStart_def go_simps dest: rumor_jobs split: if_splits)
next
  case RouteRumorTick
  then show ?thesis using assms by (auto simp: routeRumorTick_def go_simps dest: rumor_jobs)
qed (use assms in auto)

lemma react_jobs:
  assumes "possible s" and "node_react w s g = Inr (g', out)"
  shows "list_all (job_sound g') (jobs_of out)"
proof (cases "\<exists>origin res. s = ResultArrives origin res")
  case True
  then obtain origin res where r: "handleSearchResult origin res g = (g', out)" using assms(2) by auto
  then show ?thesis
    by (auto simp: handleSearchResult_def LoadOrStore_def known_file_def meta_names_def Let_def split: option.splits)
next
  case False
  have "sound_jobs out" by (rule other_react_jobs [OF assms(1) _ assms(2)]) (use False in auto)
  then show ?thesis by (auto simp: list_all_iff job_ok_sound)
qed

section \<open>Every piece of work keeps the node sound\<close>

text \<open>Confirmations may be added for a round, but the rounds that have some stay.\<close>

abbreviation confirmed_rounds :: "gossiper \<Rightarrow> u32 fset" where
  "confirmed_rounds g \<equiv> fmdom (confirmations (blockchainHandler g))"

definition wf_keeps :: "gossiper \<Rightarrow> gossiper \<Rightarrow> bool" where
  "wf_keeps g g' \<longleftrightarrow> node_wf g' \<and> node_name g' = node_name g \<and> config g' = config g
     \<and> confirmed_rounds g |\<subseteq>| confirmed_rounds g' \<and> keeps_files g g'"

lemma keeps_files_same [simp]: "fileHandler g' = fileHandler g \<Longrightarrow> keeps_files g g'"
  by (simp add: keeps_files_def meta_names_def)

lemma keeps_files_known: "known_file key g \<Longrightarrow> keeps_files g g' \<Longrightarrow> known_file key g'"
  by (auto simp: keeps_files_def known_file_def fmlookup_dom_iff)

lemma qsc_ok_keeps: "qsc_ok q g \<Longrightarrow> wf_keeps g g' \<Longrightarrow> qsc_ok q g'"
  by (fastforce simp: qsc_ok_def wf_keeps_def fmlookup_dom_iff fsubset_iff)

lemma job_sound_keeps: "job_sound g j \<Longrightarrow> wf_keeps g g' \<Longrightarrow> job_sound g' j"
  using qsc_ok_keeps download_ok_keeps keeps_files_known
  by (cases "(g, j)" rule: job_sound.cases) (auto simp: wf_keeps_def)

text \<open>A run that ends well: it leaves sound work and a sound node.\<close>

definition good_run :: "job_outcome \<Rightarrow> gossiper \<Rightarrow> bool" where
  "good_run r g \<longleftrightarrow> (\<exists>js g' out. r = Inr (js, g', out) \<and> wf_keeps g g' \<and> list_all (job_sound g') (js @ jobs_of out))"

lemma sound_jobs_sound: "sound_jobs out \<Longrightarrow> list_all (job_sound g) (jobs_of out)"
  by (auto simp: list_all_iff job_ok_sound)

lemma good_runI: "r = Inr (js, g', out) \<Longrightarrow> wf_keeps g g' \<Longrightarrow> list_all (job_sound g') js \<Longrightarrow> sound_jobs out \<Longrightarrow> good_run r g"
  by (auto simp: good_run_def sound_jobs_sound)

lemma wf_keeps_refl [simp]: "wf_keeps g g \<longleftrightarrow> node_wf g"
  by (simp add: wf_keeps_def)

lemma wf_keeps_trans: "wf_keeps g h \<Longrightarrow> wf_keeps h k \<Longrightarrow> wf_keeps g k"
  using keeps_files_trans by (auto simp: wf_keeps_def)

lemma node_wf_channels [simp]:
  "node_wf (g\<lparr>gossipHandler := (gossipHandler g)\<lparr>mongeringChannels := ch\<rparr>\<rparr>) = node_wf g"
  by (simp add: node_wf_def node_inv_def log_inv_def gossip_inv_def stored_ids_def)

lemma send_rumor_keeps:
  assumes "node_wf g" and "sendRumorWithTimeout e origin mid peer g = (g', out)"
  shows "wf_keeps g g' \<and> sound_jobs out"
  using assms by (auto simp: sendRumorWithTimeout_def Let_def wf_keeps_def)

lemma monger_run:
  assumes "node_wf g"
  shows "good_run (run_job w c (Mongers e origin mid) g) g" "good_run (run_job w c (Mongering m) g) g"
proof -
  show "good_run (run_job w c (Mongers e origin mid) g) g"
  proof (cases "DifferenceString (known_peers g) [SenderAddr e] = []")
    case True
    then show ?thesis using assms by (simp add: startRumorMongering_def Let_def good_run_def)
  next
    case False
    then obtain a where a: "getRandomPeer (ch_peer c) (DifferenceString (known_peers g) [SenderAddr e]) = Inr a"
      using getRandomPeer_ok by blast
    obtain g' out where s: "sendRumorWithTimeout e origin mid a g = (g', out)" by fastforce
    from send_rumor_keeps [OF assms s] show ?thesis
      using False a s by (auto simp: startRumorMongering_def Let_def intro!: good_runI)
  qed
  let ?g1 = "g\<lparr>gossipHandler := (gossipHandler g)\<lparr>mongeringChannels :=
      deleteListenerForStatus (mg_origin m) (mg_id m) (addr_string (mg_peer m)) (mongeringChannels (gossipHandler g))\<rparr>\<rparr>"
  have g1: "wf_keeps g ?g1" "node_wf ?g1" using assms by (simp_all add: wf_keeps_def)
  show "good_run (run_job w c (Mongering m) g) g"
  proof (cases "(if ch_status c then ch_coin c mod 2 else 0) = 0 \<and> DifferenceString (known_peers ?g1) [mg_peer m] \<noteq> []")
    case False
    then show ?thesis using g1 by (auto simp: wakeRumorMongering_def Let_def good_run_def)
  next
    case True
    then obtain a where a: "getRandomPeer (ch_peer c) (DifferenceString (known_peers ?g1) [mg_peer m]) = Inr a"
      using getRandomPeer_ok by blast
    obtain g' out where s: "sendRumorWithTimeout (mg_packet m) (mg_origin m) (mg_id m) a ?g1 = (g', out)" by fastforce
    from send_rumor_keeps [OF g1(2) s] have "wf_keeps g g'" "sound_jobs out" using wf_keeps_trans [OF g1(1)] by auto
    then show ?thesis
      using True a s by (auto simp: wakeRumorMongering_def Let_def good_run_def sound_jobs_sound split: if_splits)
  qed
qed

lemma file_matches_total:
  assumes "\<not> short_metafile fh" and "fmlookup (filesMetadata fh) k = Some m"
  shows "\<exists>b. file_matches rx ks fh m = Inr b"
proof (cases "chunk_fetch (hashDataMap fh) (MetafileHash m)")
  case None
  then show ?thesis by (auto simp: file_matches_def checkAllChunksLocation_def chunk_fetch_def)
next
  case (Some metafile)
  then have "32 * unat (ChunkCount m) \<le> length metafile"
    using assms by (auto simp: short_metafile_def not_less)
  then have "\<forall>i \<in> set [0..<unat (ChunkCount m)]. 32 * Suc i \<le> length metafile" by auto
  from all_located_spec [OF this, of fh] Some show ?thesis
    by (auto simp: file_matches_def checkAllChunksLocation_def chunk_fetch_def)
qed

lemma threshold_total:
  assumes "is_order ord" and "\<not> short_metafile fh"
  shows "\<exists>b. isFileMatchThresholdReached rx ord ks fh = Inr b"
proof -
  have "\<forall>m \<in> set (map_values ord (filesMetadata fh)). \<exists>b. file_matches rx ks fh m = Inr b"
    using file_matches_total [OF assms(2)] by (auto simp: map_values_set [OF assms(1)])
  from count_matches_spec [OF this, of 0] show ?thesis
    by (simp add: isFileMatchThresholdReached_def matchThreshold_def)
qed

lemma search_run:
  assumes "node_wf g"
  shows "good_run (run_job w c (Broadcasts e peers) g) g" "good_run (run_job w c (SearchForward e) g) g"
    "good_run (run_job w c (SearchStart e increment) g) g"
    "is_order (env_order w) \<Longrightarrow> \<not> short_metafile (fileHandler g) \<Longrightarrow> good_run (run_job w c (Searching s) g) g"
proof -
  have fwd: "jobs_of (forwardSearchRequestWithBudget rnd e h) = []" for rnd e and h :: gossiper
    by (simp add: forwardSearchRequestWithBudget_def Let_def split: option.split)
  have "jobs_of (broadcastToPeers e peers) = []"
    by (induction peers) (simp_all add: broadcastToPeers_def)
  then show "good_run (run_job w c (Broadcasts e peers) g) g" "good_run (run_job w c (SearchForward e) g) g"
    "good_run (run_job w c (SearchStart e increment) g) g"
    using assms by (auto simp: good_run_def fwd searchFilesWithTimeout_def Let_def split: option.split)
  assume "is_order (env_order w)" and "\<not> short_metafile (fileHandler g)"
  then obtain b where b: "isFileMatchThresholdReached (env_match w) (env_order w) (sr_keywords s) (fileHandler g) = Inr b"
    using threshold_total by blast
  show "good_run (run_job w c (Searching s) g) g"
    using assms b by (cases b) (auto simp: good_run_def searchTick_def fwd Let_def)
qed

text \<open>Downloads leave nothing but themselves.\<close>

lemma download_effect_jobs: "list_all download_effect out \<Longrightarrow> jobs_of out = []"
proof (induction out)
  case (Cons e out)
  have "jobs_of_effect e = []" if "download_effect e" using that by (cases e) auto
  with Cons show ?case by simp
qed simp

lemma file_frame_keeps: "node_wf g \<Longrightarrow> file_frame g g' \<Longrightarrow> wf_keeps g g'"
proof -
  assume wf: "node_wf g" and f: "file_frame g g'"
  then obtain fh where "g' = g\<lparr>fileHandler := fh\<rparr>" "keeps_files g g'" by (auto simp only: file_frame_def)
  with wf show "wf_keeps g g'" by (simp add: wf_keeps_def node_wf_def node_inv_def)
qed

lemma fine_download_good:
  assumes "node_wf g" and "fine_download r g"
  shows "good_run (keep_job Downloading r) g"
proof -
  obtain d g' out where r: "r = Inr (d, g', out)" "file_frame g g'" "list_all download_effect out"
    "\<forall>d'. d = Some d' \<longrightarrow> download_ok g' d'" using assms(2) by (auto simp: fine_download_def)
  with file_frame_keeps [OF assms(1)] download_effect_jobs show ?thesis
    by (cases d) (auto simp: good_run_def keep_job_def)
qed

lemma download_run_good:
  assumes "node_wf g" and "is_order (env_order64 w)"
  shows "known_file key g \<Longrightarrow> \<not> bad_result key chunkMap g \<Longrightarrow> good_run (run_job w c (Fetches key origin chunkMap) g) g"
    "\<not> bad_start (env_hash w) f h g \<Longrightarrow> good_run (run_job w c (Downloads f dest h) g) g"
    "download_ok g d \<Longrightarrow> \<not> bad_event (env_hash w) (ch_download c) d g \<Longrightarrow> good_run (run_job w c (Downloading d) g) g"
    "good_run (run_job w c (Delivers key r) g) g"
  using fine_download_good [OF assms(1)] start_fetch_fine [OF assms(2)] start_fine [OF assms(2)] step_fine [OF assms(2)] assms(1)
  by (auto simp: good_run_def)

fun is_download :: "job \<Rightarrow> bool" where
  "is_download (Fetches key origin chunkMap) \<longleftrightarrow> True"
| "is_download (Downloads fileName dest metaHash) \<longleftrightarrow> True"
| "is_download (Downloading d) \<longleftrightarrow> True"
| "is_download j \<longleftrightarrow> False"

lemma download_job_frame:
  assumes "is_download j" and "is_order (env_order64 w)" and "job_sound g j" and "\<not> hostile_job w c j g"
    and "run_job w c j g = Inr (js, g', out)"
  shows "file_frame g g' \<and> list_all download_effect out \<and> (\<forall>j' \<in> set js. \<exists>d. j' = Downloading d)"
proof -
  have "\<exists>r. run_job w c j g = keep_job Downloading r \<and> fine_download r g"
    using assms(1,3,4) start_fetch_fine [OF assms(2)] start_fine [OF assms(2)] step_fine [OF assms(2)]
    by (cases j) auto
  then obtain d where "Inr (d, g', out) = (Inr (d, g', out) :: download_outcome)" "file_frame g g'" "list_all download_effect out"
    "js = (case d of None \<Rightarrow> [] | Some d' \<Rightarrow> [Downloading d'])"
    using assms(5) by (auto simp: fine_download_def keep_job_def)
  then show ?thesis by (auto split: option.splits)
qed

end
