(* ===== verification/Rounds.thy ===== *)
theory Rounds
  imports Jobs
begin

text \<open>
  Goroutines that wait for confirmations, and the rounds of the threshold clock and of the consensus
  built on it: every step ends without a panic and keeps a node sound.
\<close>

section \<open>Frames\<close>

lemma spare_exhausted: "\<not> exhausted g \<longleftrightarrow> spare 1 g"
proof -
  have "unat (-1 :: u32) = 2 ^ 32 - 1" by (simp add: unsigned_minus_1_eq_mask mask_eq_exp_minus_1)
  then have "seqID (gossipHandler g) = -1 \<longleftrightarrow> unat (seqID (gossipHandler g)) = 2 ^ 32 - 1"
    by (metis word_unat_eq_iff)
  moreover have "unat (seqID (gossipHandler g)) < 2 ^ 32" using unsigned_less [of "seqID (gossipHandler g)", where ?'a = nat] by simp
  ultimately show ?thesis by (auto simp: spare_def exhausted_def)
qed

lemma spare_mono: "spare k g \<Longrightarrow> j \<le> k \<Longrightarrow> spare j g"
  by (simp add: spare_def)

text \<open>
  A step that creates at most \<open>k\<close> messages and changes nothing of the chain but the round.
\<close>

definition round_frame :: "nat \<Rightarrow> gossiper \<Rightarrow> gossiper \<Rightarrow> bool" where
  "round_frame k g g' \<longleftrightarrow> wf_keeps g g' \<and> (\<exists>t. blockchainHandler g' = (blockchainHandler g)\<lparr>myTime := t\<rparr>)
     \<and> unat (seqID (gossipHandler g')) \<le> unat (seqID (gossipHandler g)) + k"

lemma round_frame_refl: "node_wf g \<Longrightarrow> round_frame k g g"
  by (auto simp: round_frame_def intro: exI [of _ "round_of g"])

lemma round_frame_trans:
  assumes "round_frame j g h" and "round_frame k h g'"
  shows "round_frame (j + k) g g'"
proof -
  obtain t t' where "blockchainHandler h = (blockchainHandler g)\<lparr>myTime := t\<rparr>" "blockchainHandler g' = (blockchainHandler h)\<lparr>myTime := t'\<rparr>"
    using assms by (auto simp: round_frame_def)
  then have "blockchainHandler g' = (blockchainHandler g)\<lparr>myTime := t'\<rparr>" by simp
  then show ?thesis using assms wf_keeps_trans by (auto simp: round_frame_def)
qed

lemma round_frame_spare: "round_frame j g h \<Longrightarrow> spare (j + k) g \<Longrightarrow> spare k h"
  by (simp add: round_frame_def spare_def)

lemma round_frame_keeps: "round_frame k g g' \<Longrightarrow> wf_keeps g g'"
  by (simp add: round_frame_def)

lemma round_frame_chain:
  assumes "round_frame k g g'"
  shows "confirmations (blockchainHandler g') = confirmations (blockchainHandler g)"
    and "messageSeen (blockchainHandler g') = messageSeen (blockchainHandler g)"
    and "bad_decision H ord s (blockchainHandler g') = bad_decision H ord s (blockchainHandler g)"
proof -
  obtain t where t: "blockchainHandler g' = (blockchainHandler g)\<lparr>myTime := t\<rparr>" using assms by (auto simp: round_frame_def)
  show "confirmations (blockchainHandler g') = confirmations (blockchainHandler g)"
    "messageSeen (blockchainHandler g') = messageSeen (blockchainHandler g)"
    "bad_decision H ord s (blockchainHandler g') = bad_decision H ord s (blockchainHandler g)"
    by (simp_all add: t bad_decision_def split: option.split)
qed

lemma node_wf_blockchain:
  "node_wf (g\<lparr>blockchainHandler := bh\<rparr>) \<longleftrightarrow> node_inv g \<and> routing_inv (routingHandler g) \<and> chain_inv bh"
  by (simp add: node_wf_def)

lemma chain_inv_time [simp]: "chain_inv (bh\<lparr>myTime := t\<rparr>) = chain_inv bh"
  by (simp add: chain_inv_def)

text \<open>A message of the node's own.\<close>

lemma own_message_frame:
  assumes "node_wf g" and "node_inv g'" and "g' = g\<lparr>gossipHandler := gossipHandler g'\<rparr>"
    and "seqID (gossipHandler g') = seqID (gossipHandler g) + 1"
  shows "round_frame 1 g g'"
proof -
  have "routingHandler g' = routingHandler g" and bh: "blockchainHandler g' = blockchainHandler g" and "node_name g' = node_name g"
    "config g' = config g" "fileHandler g' = fileHandler g"
    using arg_cong [OF assms(3), of routingHandler] arg_cong [OF assms(3), of blockchainHandler] arg_cong [OF assms(3), of fileHandler]
      arg_cong [OF assms(3), of node_name] arg_cong [OF assms(3), of config] by simp_all
  moreover have "unat (seqID (gossipHandler g')) \<le> unat (seqID (gossipHandler g)) + 1"
    unfolding assms(4) using unat_plus_if_size [of "seqID (gossipHandler g)" 1] by (simp split: if_splits)
  moreover have "\<exists>t. blockchainHandler g' = (blockchainHandler g)\<lparr>myTime := t\<rparr>"
    using bh by (intro exI [of _ "round_of g"]) simp
  ultimately show ?thesis using assms(1,2) by (simp add: round_frame_def wf_keeps_def node_wf_def)
qed

section \<open>Confirmations and rounds\<close>

lemma send_confirmed_jobs [simp]: "sound_jobs (sendGossipWithConfirmation ord c e tlc ws)"
  by (auto simp: sendGossipWithConfirmation_def printConfirmMessage_def Let_def)

lemma confirm_keeps:
  assumes "node_wf g" and "spare 1 g"
  shows "\<exists>tlc' g' out. confirm_message ord tlc ws g = Inr (tlc', g', out) \<and> round_frame 1 g g' \<and> sound_jobs out"
proof -
  have "node_inv g" "seqID (gossipHandler g) \<noteq> -1"
    using assms spare_exhausted [of g] by (simp_all add: node_wf_def exhausted_def)
  from confirm_message_spec [OF this, of ord tlc ws] obtain e tlc' g' out where
    c: "confirm_message ord tlc ws g = Inr (tlc', g', out)" "node_inv g'" "g' = g\<lparr>gossipHandler := gossipHandler g'\<rparr>"
      "seqID (gossipHandler g') = seqID (gossipHandler g) + 1" by blast
  moreover have "sound_jobs out" using c(1) by (auto simp: confirm_message_def go_simps)
  ultimately show ?thesis using own_message_frame [OF assms(1)] by blast
qed

lemma majority_keeps:
  assumes "node_wf g" and "spare 1 g"
  shows "\<exists>over g' out. checkForConfirmationsMajority ord tlc delivered g = Inr (over, g', out) \<and> round_frame 1 g g' \<and> sound_jobs out"
proof -
  let ?g1 = "g\<lparr>blockchainHandler := (blockchainHandler g)\<lparr>myTime := round_of g + 1\<rparr>\<rparr>"
  have g1: "round_frame 0 g ?g1" "node_wf ?g1" "spare 1 ?g1"
    using assms by (auto simp: round_frame_def wf_keeps_def node_wf_def spare_def)
  show ?thesis
  proof (cases "\<exists>conf. fmlookup (confirmations (blockchainHandler g)) (round_of g) = Some conf \<and> majority g (map_len conf)")
    case False
    then have "checkForConfirmationsMajority ord tlc delivered g = Inr (False, g, [])"
      by (auto simp: checkForConfirmationsMajority_def Let_def split: option.split)
    then show ?thesis using round_frame_refl [OF assms(1)] by auto
  next
    case True
    then obtain conf where conf: "fmlookup (confirmations (blockchainHandler g)) (round_of g) = Some conf" "majority g (map_len conf)"
      by blast
    have pr: "sound_jobs (printRoundMessage ord (config g) (round_of g + 1) conf)"
      by (auto simp: printRoundMessage_def Let_def)
    obtain tlc' g' out where "confirm_message ord tlc (fmdom (getIDForConfirmations conf)) ?g1 = Inr (tlc', g', out)"
      "round_frame 1 ?g1 g'" "sound_jobs out"
      using confirm_keeps [OF g1(2,3)] by blast
    with conf pr show ?thesis
      using round_frame_trans [OF g1(1), of 1 g'] round_frame_trans [OF g1(1) round_frame_refl [OF g1(2)], of 1]
      by (cases delivered) (auto simp: checkForConfirmationsMajority_def Let_def)
  qed
qed

lemma gossip_confirmation_keeps:
  assumes "node_wf g" and "wait \<longrightarrow> spare 1 g" and "TLCMessage (Packet e) = Some tlc"
  shows "\<exists>s g' out. gossipWithConfirmation ord e wait g = Inr (s, g', out) \<and> round_frame 1 g g' \<and> sound_jobs out"
proof (cases wait)
  case True
  then have "spare 1 g" using assms(2) by simp
  from majority_keeps [OF assms(1) this]
  obtain over g' out where "checkForConfirmationsMajority ord tlc False g = Inr (over, g', out)" "round_frame 1 g g'" "sound_jobs out"
    by blast
  with True assms(3) show ?thesis by (cases over) (auto simp: gossipWithConfirmation_def Let_def)
next
  case False
  with assms(1,3) round_frame_refl show ?thesis by (auto simp: gossipWithConfirmation_def Let_def)
qed

lemma saveConfirmation_rounds: "fmdom (confirmations bh) |\<subseteq>| fmdom (confirmations (saveConfirmation r k tlc bh))"
  by (auto simp: saveConfirmation_def LoadOrStore_def Let_def split: option.split)

text \<open>A step that ends the wait leaves the confirmations as they are.\<close>

lemma confirm_step_keeps:
  assumes "node_wf g" and "spare 1 g"
  shows "\<exists>s' g' out. confirmStep ord ev s g = Inr (s', g', out) \<and> wf_keeps g g' \<and> sound_jobs out
    \<and> (s' = None \<longrightarrow> round_frame 1 g g')"
proof (cases ev)
  case (AckArrives ack)
  let ?ws = "finsert (priv_Origin ack) (cf_witnesses s)"
  obtain tlc' g' out where c: "confirm_message ord (cf_tlc s) ?ws g = Inr (tlc', g', out)" "round_frame 1 g g'" "sound_jobs out"
    using confirm_keeps [OF assms] by blast
  let ?g2 = "g'\<lparr>blockchainHandler := saveConfirmation (round_of g') (tlc_Origin tlc') tlc' (blockchainHandler g')\<rparr>"
  have "wf_keeps g' ?g2"
    using round_frame_keeps [OF c(2)] saveConfirmation_rounds by (simp add: wf_keeps_def node_wf_def chain_inv_saves)
  then have "wf_keeps g ?g2" using wf_keeps_trans round_frame_keeps [OF c(2)] by blast
  with c round_frame_keeps [OF c(2)] assms(1) AckArrives show ?thesis by (auto simp: Let_def)
next
  case ConfirmNotified
  obtain over g' out where "checkForConfirmationsMajority ord (cf_tlc s) (cf_delivered s) g = Inr (over, g', out)"
    "round_frame 1 g g'" "sound_jobs out"
    using majority_keeps [OF assms] by blast
  with assms(1) ConfirmNotified round_frame_keeps show ?thesis by auto
next
  case StubbornTick
  with assms(1) show ?thesis by auto
qed

lemma publish_keeps:
  assumes "node_wf g" and "\<not> exhausted g"
  shows "good_run (run_job w c (Publishes fm) g) g"
proof -
  have inv: "node_inv g" "seqID (gossipHandler g) \<noteq> -1" using assms by (simp_all add: node_wf_def exhausted_def)
  let ?block = "\<lparr>PrevHash = previousBlockHash (blockchainHandler g),
    Transaction = \<lparr>tx_Name = FileName fm, tx_Size = FileSize fm, tx_MetafileHash = MetafileHash fm\<rparr>\<rparr>"
  from createTLCMessage_spec [OF inv, of "env_order w" ?block "-1" "ch_fitness c"] obtain e g1 tlc where
    t: "createTLCMessage (env_order w) ?block (-1) (ch_fitness c) g = Inr (e, g1)" "node_inv g1" "TLCMessage (Packet e) = Some tlc"
      "g1 = g\<lparr>gossipHandler := gossipHandler g1\<rparr>" "seqID (gossipHandler g1) = seqID (gossipHandler g) + 1" by blast
  note g1 = round_frame_keeps [OF own_message_frame [OF assms(1) t(2,4,5)]]
  then have wf: "node_wf g1" by (simp add: wf_keeps_def)
  show ?thesis
  proof (cases "hw3ex2Mode (config g) \<and> \<not> hw3ex3Mode (config g) \<and> \<not> hw3ex4Mode (config g)")
    case True
    obtain s g' out where s: "gossipWithConfirmation (env_order w) e False g1 = Inr (s, g', out)" "round_frame 1 g1 g'" "sound_jobs out"
      using gossip_confirmation_keeps [OF wf _ t(3), of False "env_order w"] by auto
    then have "wf_keeps g g'" using wf_keeps_trans [OF g1] round_frame_keeps by blast
    with True t(1) s show ?thesis
      by (cases s) (auto simp: good_run_def createAndPublishTxBlock_def Let_def sound_jobs_sound)
  next
    case False
    then show ?thesis
      using t(1,3) g1 by (auto simp: good_run_def createAndPublishTxBlock_def Let_def)
  qed
qed

section \<open>Rounds of the consensus\<close>

lemma own_create_keeps:
  assumes "node_wf g" and "spare 1 g"
  shows "\<exists>e g' tlc. createTLCMessage ord block conf fit g = Inr (e, g') \<and> round_frame 1 g g' \<and> TLCMessage (Packet e) = Some tlc"
proof -
  have "node_inv g" "seqID (gossipHandler g) \<noteq> -1"
    using assms spare_exhausted [of g] by (simp_all add: node_wf_def exhausted_def)
  from createTLCMessage_spec [OF this, of ord block conf fit] obtain e g' tlc where
    c: "createTLCMessage ord block conf fit g = Inr (e, g')" "node_inv g'" "TLCMessage (Packet e) = Some tlc"
      "g' = g\<lparr>gossipHandler := gossipHandler g'\<rparr>" "seqID (gossipHandler g') = seqID (gossipHandler g) + 1" by blast
  then show ?thesis using own_message_frame [OF assms(1)] by blast
qed

text \<open>
  The decision: with the confirmations of the first two rounds at hand, and unless it is a bad one, it
  is made, and the chain stays a chain.
\<close>

lemma qscDecide_keeps:
  assumes "node_wf g" and "fmlookup (confirmations (blockchainHandler g)) s = Some confS"
    and "fmlookup (confirmations (blockchainHandler g)) (s + 1) = Some confS1"
    and "\<not> bad_decision H ord s (blockchainHandler g)"
  shows "\<exists>g' out. qscDecide H ord s highest g = Inr (g', out) \<and> wf_keeps g g' \<and> sound_jobs out"
proof (cases "fmlookup (confirmations (blockchainHandler g)) (s + 2)")
  case None
  then show ?thesis using assms(1) by (simp add: qscDecide_def Let_def)
next
  case (Some confS2)
  let ?bh = "blockchainHandler g" and ?best = "getTLCWithHighestFitness ord confS"
  let ?b = "(tlc_TxBlock ?best)\<lparr>PrevHash := topBlockchainHash ?bh\<rparr>"
  have inv: "chain_inv ?bh" using assms(1) by (simp add: node_wf_def)
  obtain seen where seen: "fmlookup (messageSeen ?bh) s = Some seen"
    and hash: "BlockPublish_Hash H ?b \<noteq> zero_hash" "fmlookup (committedHistory ?bh) (BlockPublish_Hash H ?b) = None"
    using assms(2,4) Some by (auto simp: bad_decision_def Let_def)
  obtain r where r: "checkIfConsensusReached H ord confS confS1 s ?bh = Inr r"
    using seen by (cases "checkIfConsensusReached H ord confS confS1 s ?bh")
      (auto simp: checkIfConsensusReached_def Let_def split: if_splits)
  have adopt: "chain_inv (snd (adopt_block H m ?bh))" "fmdom (confirmations (snd (adopt_block H m ?bh))) = fmdom (confirmations ?bh)" for m
    using inv by (simp_all add: adopt_block_def Let_def chain_inv_def)
  show ?thesis
  proof (cases r)
    case None
    then show ?thesis
      using r Some assms(1-3) adopt
      by (auto simp: qscDecide_def case_prod_beta Let_def wf_keeps_def node_wf_blockchain node_wf_def node_inv_blockchain)
  next
    case (Some m)
    then have m: "m = ?best"
      using r seen by (auto simp: checkIfConsensusReached_def getTLCWithHighestFitness_def Let_def split: if_splits)
    obtain bh' where c: "commit_block H m ?bh = (?b, bh')" by (simp add: commit_block_def Let_def m)
    obtain bs where bs: "chain (committedHistory ?bh) (topBlockchainHash ?bh) bs" using inv by (auto simp: chain_inv_def)
    have ch: "chain_inv bh'" "chain (committedHistory bh') (topBlockchainHash bh') (?b # bs)"
      using commit_block_inv [OF inv bs c hash(2,1)] by simp_all
    have same: "confirmations bh' = confirmations ?bh" using c by (auto simp: commit_block_def Let_def)
    obtain names where "consensus_names (committedHistory bh') (topBlockchainHash bh') [] = Some (Inr names)"
      using consensus_names_chain [OF ch(2)] by blast
    then show ?thesis
      using r Some \<open>fmlookup _ (s + 2) = Some confS2\<close> assms(1-3) c ch(1) same
      by (auto simp: qscDecide_def printConsensusMessage_def Let_def wf_keeps_def node_wf_def node_inv_blockchain)
  qed
qed

lemma two_rounds: "i < 2 - left \<longleftrightarrow> left \<le> 1 \<and> i = 0 \<or> left = 0 \<and> i = 1" for i left :: nat
  by arith

lemma qscAdvance_keeps:
  assumes "left \<le> 2" and "node_wf g" and "spare (2 * left) g"
    and "\<forall>i < 2 - left. fmlookup (confirmations (blockchainHandler g)) (s + of_nat i) \<noteq> None"
    and "\<not> bad_decision H ord s (blockchainHandler g)"
  shows "\<exists>q g' out. qscAdvance H ord left s highest g = Inr (q, g', out) \<and> wf_keeps g g' \<and> sound_jobs out
    \<and> (\<forall>q'. q = Some q' \<longrightarrow> qsc_ok q' g')"
  using assms
proof (induction left arbitrary: g highest)
  case 0
  then obtain confS confS1 where "fmlookup (confirmations (blockchainHandler g)) s = Some confS"
    "fmlookup (confirmations (blockchainHandler g)) (s + 1) = Some confS1"
    using 0(4) [rule_format, of 0] 0(4) [rule_format, of 1] by auto
  from qscDecide_keeps [OF 0(2) this 0(5), of highest] show ?case by auto
next
  case (Suc left)
  let ?r = "s + of_nat (1 - left)"
  show ?case
  proof (cases "fmlookup (confirmations (blockchainHandler g)) ?r")
    case None
    then show ?thesis using Suc.prems(2) by (simp add: qscNext_def)
  next
    case (Some conf)
    let ?highest = "getTLCWithHighestFitness ord conf"
    have one: "spare 1 g" using spare_mono [OF Suc.prems(3)] by simp
    obtain e g1 tlc where c: "createTLCMessage ord (tlc_TxBlock ?highest) (-1) (tlc_Fitness ?highest) g = Inr (e, g1)"
      "round_frame 1 g g1" "TLCMessage (Packet e) = Some tlc"
      using own_create_keeps [OF Suc.prems(2) one, of ord "tlc_TxBlock ?highest" "-1" "tlc_Fitness ?highest"] by blast
    have g1: "node_wf g1" "spare (1 + 2 * left) g1"
      using c(2) round_frame_spare [OF c(2), of "1 + 2 * left"] Suc.prems(3) by (simp_all add: round_frame_def wf_keeps_def)
    have "spare 1 g1" using spare_mono [OF g1(2)] by simp
    then obtain cf g2 out2 where t: "tlcRound ord e g1 = Inr (cf, g2, out2)" "round_frame 1 g1 g2" "sound_jobs out2"
      using gossip_confirmation_keeps [OF g1(1) _ c(3), of True ord] unfolding tlcRound_def by blast
    have fr: "round_frame 2 g g2" using round_frame_trans [OF c(2) t(2)] by (simp add: numeral_2_eq_2)
    have g2: "node_wf g2" "spare (2 * left) g2" "wf_keeps g g2"
      using t(2) round_frame_spare [OF t(2) g1(2)] round_frame_keeps [OF fr] by (simp_all add: round_frame_def wf_keeps_def)
    have "left = 0 \<longrightarrow> fmlookup (confirmations (blockchainHandler g)) s \<noteq> None"
      using Suc.prems(4) [rule_format, of 0] by auto
    then have confs: "\<forall>i < 2 - left. fmlookup (confirmations (blockchainHandler g2)) (s + of_nat i) \<noteq> None"
      using Some Suc.prems(1) unfolding round_frame_chain [OF fr] two_rounds by (cases left) auto
    show ?thesis
    proof (cases cf)
      case (Some cf')
      then show ?thesis
        using c t confs g2(3) Suc.prems(1) \<open>fmlookup _ ?r = Some conf\<close>
        by (simp add: qscNext_def qsc_ok_def Let_def)
    next
      case None
      have "\<not> bad_decision H ord s (blockchainHandler g2)" using Suc.prems(5) round_frame_chain(3) [OF fr] by simp
      then obtain q g' out where "qscAdvance H ord left s ?highest g2 = Inr (q, g', out)" "wf_keeps g2 g'" "sound_jobs out"
        "\<forall>q'. q = Some q' \<longrightarrow> qsc_ok q' g'"
        using Suc.IH [OF _ g2(1,2) confs] Suc.prems(1) by (metis Suc_leD)
      then show ?thesis
        using c t None wf_keeps_trans [OF g2(3)] \<open>fmlookup _ ?r = Some conf\<close> by (simp add: qscNext_def Let_def)
    qed
  qed
qed

lemma qscRound_keeps:
  assumes "node_wf g" and "spare 5 g" and "TLCMessage (Packet e) = Some tlc" and "\<not> bad_decision H ord (round_of g) (blockchainHandler g)"
  shows "\<exists>q g' out. qscRound H ord e g = Inr (q, g', out) \<and> wf_keeps g g' \<and> sound_jobs out \<and> (\<forall>q'. q = Some q' \<longrightarrow> qsc_ok q' g')"
proof -
  have "spare 1 g" using spare_mono [OF assms(2)] by simp
  then obtain cf g1 out where t: "tlcRound ord e g = Inr (cf, g1, out)" "round_frame 1 g g1" "sound_jobs out"
    using gossip_confirmation_keeps [OF assms(1) _ assms(3), of True ord] unfolding tlcRound_def by blast
  have g1: "node_wf g1" "spare (2 * 2) g1" "wf_keeps g g1"
    using t(2) round_frame_spare [OF t(2), of 4] assms(2) by (simp_all add: round_frame_def wf_keeps_def)
  show ?thesis
  proof (cases cf)
    case (Some cf')
    with t g1(3) show ?thesis by (simp add: qscRound_def qsc_ok_def Let_def)
  next
    case None
    have "\<not> bad_decision H ord (round_of g) (blockchainHandler g1)" using assms(4) round_frame_chain(3) [OF t(2)] by simp
    from qscAdvance_keeps [OF order_refl g1(1,2) _ this, of zero_tlc]
    obtain q g' out2 where "qscAdvance H ord 2 (round_of g) zero_tlc g1 = Inr (q, g', out2)" "wf_keeps g1 g'" "sound_jobs out2"
      "\<forall>q'. q = Some q' \<longrightarrow> qsc_ok q' g'" by auto
    with t None show ?thesis using wf_keeps_trans [OF g1(3)] by (simp add: qscRound_def Let_def)
  qed
qed

lemma qscStep_keeps:
  assumes "node_wf g" and "spare 5 g" and "qsc_ok q g" and "\<not> bad_decision H ord (q_round q) (blockchainHandler g)"
  shows "\<exists>q' g' out. qscStep H ord ev q g = Inr (q', g', out) \<and> wf_keeps g g' \<and> sound_jobs out
    \<and> (\<forall>q''. q' = Some q'' \<longrightarrow> qsc_ok q'' g')"
proof -
  have "spare 1 g" using spare_mono [OF assms(2)] by simp
  then obtain cf g1 out where t: "confirmStep ord ev (q_confirmer q) g = Inr (cf, g1, out)" "wf_keeps g g1" "sound_jobs out"
    "cf = None \<longrightarrow> round_frame 1 g g1"
    using confirm_step_keeps [OF assms(1)] by blast
  show ?thesis
  proof (cases cf)
    case (Some cf')
    with t qsc_ok_keeps [OF assms(3) t(2)] show ?thesis by (simp add: qscStep_def qsc_ok_def)
  next
    case None
    with t(4) have fr: "round_frame 1 g g1" by simp
    have left: "q_left q \<le> 2" using assms(3) by (simp add: qsc_ok_def)
    have "spare 4 g1" using round_frame_spare [OF fr, of 4] assms(2) by simp
    then have g1: "node_wf g1" "spare (2 * q_left q) g1"
      using t(2) spare_mono [of 4 g1 "2 * q_left q"] left by (simp_all add: wf_keeps_def)
    have "\<forall>i < 2 - q_left q. fmlookup (confirmations (blockchainHandler g1)) (q_round q + of_nat i) \<noteq> None"
      using qsc_ok_keeps [OF assms(3) t(2)] by (simp add: qsc_ok_def)
    moreover have "\<not> bad_decision H ord (q_round q) (blockchainHandler g1)" using assms(4) round_frame_chain(3) [OF fr] by simp
    ultimately obtain q' g' out2 where "qscAdvance H ord (q_left q) (q_round q) (q_highest q) g1 = Inr (q', g', out2)"
      "wf_keeps g1 g'" "sound_jobs out2" "\<forall>q''. q' = Some q'' \<longrightarrow> qsc_ok q'' g'"
      using qscAdvance_keeps [OF left g1] by blast
    with t None show ?thesis using wf_keeps_trans [OF t(2)] by (simp add: qscStep_def)
  qed
qed

end
