(* ===== verification/System.thy ===== *)
theory System
  imports Rounds
begin

text \<open>
  A running node with all its goroutines.  A handler leaves work behind: values on channels for
  the loops, goroutines that run once, and goroutines that wait for a packet or a timer (rumor
  mongering, searches, downloads, gossip with confirmation, rounds of the threshold clock and of the
  consensus).  A step of the system is an input from outside or any piece of work that is left, in any
  order.
\<close>

section \<open>Steps of a system\<close>

type_synonym system = "gossiper \<times> job list"

fun external :: "stimulus \<Rightarrow> bool" where
  "external (Datagram bytes addr) \<longleftrightarrow> True"
| "external (AntiEntropyTick rnd) \<longleftrightarrow> True"
| "external RouteRumorStart \<longleftrightarrow> True"
| "external RouteRumorTick \<longleftrightarrow> True"
| "external _ \<longleftrightarrow> False"

text \<open>A step with what came in from outside, if anything, and its effects.\<close>

inductive system_step :: "environment \<Rightarrow> system \<Rightarrow> stimulus option \<Rightarrow> effect list \<Rightarrow> system \<Rightarrow> bool" for w where
  input: "external s \<Longrightarrow> \<not> hostile w s g \<Longrightarrow> node_react w s g = Inr (g', out) \<Longrightarrow>
    system_step w (g, js) (Some s) out (g', js @ jobs_of out)"
| command: "system_step w (g, js) None (receivePacketsFromClient decode bytes) (g, js @ jobs_of (receivePacketsFromClient decode bytes))"
| work: "enabled w c j (xs @ ys) g \<Longrightarrow> \<not> hostile_job w c j g \<Longrightarrow> run_job w c j g = Inr (js, g', out) \<Longrightarrow>
    system_step w (g, xs @ j # ys) None out (g', xs @ ys @ js @ jobs_of out)"

text \<open>
  The environment, with its clock and its disk, may be another one at every step.  All that is asked
  of it is that ranging over a map visits every key once.
\<close>

definition orderly :: "environment \<Rightarrow> bool" where
  "orderly w \<longleftrightarrow> is_order (env_order w) \<and> is_order (env_order64 w)"

inductive system_reaches :: "system \<Rightarrow> system \<Rightarrow> bool" for s0 where
  here: "system_reaches s0 s0"
| there: "system_reaches s0 s \<Longrightarrow> orderly w \<Longrightarrow> system_step w s inp out s' \<Longrightarrow> system_reaches s0 s'"

text \<open>A reaction keeps the rounds that have confirmations.\<close>

lemma tlc_confirmed_rounds:
  assumes "handleTLCMessage ord e g = Inr (g', out)"
  shows "confirmed_rounds g |\<subseteq>| confirmed_rounds g'"
proof -
  obtain tlc where tlc: "TLCMessage (Packet e) = Some tlc" using assms by (auto simp: handleTLCMessage_def go_simps)
  obtain r bh where m: "getMessageOriginalRound (tlc_Origin tlc) (tlc_ID tlc) (tlc_Confirmed tlc) (blockchainHandler g) = (r, bh)"
    by fastforce
  have "confirmations bh = confirmations (blockchainHandler g)" using getMessageOriginalRound_same [OF m] by simp
  moreover have "confirmed_rounds h' = confirmed_rounds h" if "acknowledge tlc r h = Inr (h', o1)" for h h' o1
    using that by (auto simp: acknowledge_def Let_def go_simps saveMessageSeen_same split: if_splits)
  moreover have "confirmed_rounds h' = confirmed_rounds h" if "checkForCausalProperty ord k vc i a h = Inr (b, h', o2)" for k vc i a h b h' o2
    using that by (auto simp: checkForCausalProperty_def go_simps markConfirmed_same split: if_splits)
  ultimately show ?thesis
    using assms tlc m saveConfirmation_rounds
    by (fastforce simp: handleTLCMessage_def Let_def go_simps split: if_splits)
qed

text \<open>Only the handler of TLC messages changes the state of the chain.\<close>

definition same_chain :: "gossiper \<Rightarrow> gossiper \<Rightarrow> bool" where
  "same_chain g g' \<longleftrightarrow> blockchainHandler g' = blockchainHandler g"

lemma same_chain_simps [simp]:
  "same_chain g g" "same_chain g (g\<lparr>gossipHandler := gh\<rparr>)" "same_chain g (g\<lparr>fileHandler := fh\<rparr>)"
  "same_chain g (g\<lparr>routingHandler := rh\<rparr>)" "same_chain g (g\<lparr>routingHandler := rh, gossipHandler := gh\<rparr>)"
  "same_chain g (g\<lparr>statusChannels := sc\<rparr>)" "same_chain g (g\<lparr>peersData := ps\<rparr>)"
  by (simp_all add: same_chain_def)

lemma point_chain:
  "processTLCMessage e g = Inr (g', out) \<Longrightarrow> same_chain g g'"
  "processTLCAck e g = Inr (g', out) \<Longrightarrow> same_chain g g'"
  "processSimpleMessages e g = Inr (g', out) \<Longrightarrow> same_chain g g'"
  "processStatusMessages e g = Inr (g', out) \<Longrightarrow> same_chain g g'"
  "processDataRequest e g = Inr (g', out) \<Longrightarrow> same_chain g g'"
  "processDataReply H e g = Inr (g', out) \<Longrightarrow> same_chain g g'"
  "processSearchReply e g = Inr (g', out) \<Longrightarrow> same_chain g g'"
  "processPrivateMessages e g = Inr (g', out) \<Longrightarrow> same_chain g g'"
  "processSearchRequest H rx ord now now' e g = Inr (g', out) \<Longrightarrow> same_chain g g'"
  "handleGossipMessage ord e origin mid g = Inr (g', out) \<Longrightarrow> same_chain g g'"
  "createRumorMessage t g = Inr (e1, g', out) \<Longrightarrow> same_chain g g'"
  "processRumorMessages ord e g = Inr (g', out) \<Longrightarrow> same_chain g g'"
  by (auto simp: processTLCMessage_def processTLCAck_def processSimpleMessages_def processStatusMessages_def
      processDataRequest_def processDataReply_def processSearchReply_def processPrivateMessages_def
      processSearchRequest_def handleGossipMessage_def createRumorMessage_def processRumorMessages_def
      Let_def go_simps case_prod_beta split: if_splits option.splits)

lemma loop_chain:
  assumes "run_loop w chan e g = Inr (g', out)"
  shows "same_chain g g' \<or> handleTLCMessage (env_order w) e g = Inr (g', out)"
  using assms point_chain unfolding run_loop_def by (simp split: if_splits)

lemma command_chain:
  "processClientMessages H disk ord m g = Inr (g', out) \<Longrightarrow> same_chain g g'"
  by (auto simp: processClientMessages_def Let_def go_simps case_prod_beta split: if_splits dest: point_chain)

lemma react_chain:
  assumes "node_react w s g = Inr (g', out)"
  shows "same_chain g g' \<or> (\<exists>ord e. handleTLCMessage ord e g = Inr (g', out))"
proof (cases s)
  case (FromChannel chan e)
  then show ?thesis using assms loop_chain [of w chan e g g' out] by auto
next
  case (FromClient m)
  then show ?thesis using assms command_chain by auto
next
  case (GossipArrives e origin mid)
  then show ?thesis using assms point_chain(10) by auto
qed (use assms in \<open>auto simp: receivePacketsFromPeers_def handlePeerStatus_def handleSearchResult_def run_notifyListeners_def
    startAntiEntropy_def routeRumorStart_def routeRumorTick_def Let_def go_simps case_prod_beta
    split: if_splits option.splits dest: point_chain\<close>)

lemma react_confirmed_rounds:
  assumes "node_react w s g = Inr (g', out)"
  shows "confirmed_rounds g |\<subseteq>| confirmed_rounds g'"
  using react_chain [OF assms]
proof (elim disjE exE)
  assume "same_chain g g'"
  then show ?thesis by (simp add: same_chain_def)
qed (rule tlc_confirmed_rounds)

text \<open>Only indexing and search results add to the files known.\<close>

lemma point_files:
  "processTLCMessage e g = Inr (g', out) \<Longrightarrow> keeps_files g g'"
  "processTLCAck e g = Inr (g', out) \<Longrightarrow> keeps_files g g'"
  "processSimpleMessages e g = Inr (g', out) \<Longrightarrow> keeps_files g g'"
  "processStatusMessages e g = Inr (g', out) \<Longrightarrow> keeps_files g g'"
  "processDataRequest e g = Inr (g', out) \<Longrightarrow> keeps_files g g'"
  "processDataReply H e g = Inr (g', out) \<Longrightarrow> keeps_files g g'"
  "processSearchReply e g = Inr (g', out) \<Longrightarrow> keeps_files g g'"
  "processPrivateMessages e g = Inr (g', out) \<Longrightarrow> keeps_files g g'"
  "handleGossipMessage ord e origin mid g = Inr (g', out) \<Longrightarrow> keeps_files g g'"
  "createRumorMessage t g = Inr (e1, g', out) \<Longrightarrow> keeps_files g g'"
  "processRumorMessages ord e g = Inr (g', out) \<Longrightarrow> keeps_files g g'"
  by (auto simp: processTLCMessage_def processTLCAck_def processSimpleMessages_def processStatusMessages_def
      processDataRequest_def processDataReply_def processSearchReply_def processPrivateMessages_def
      handleGossipMessage_def createRumorMessage_def processRumorMessages_def
      Let_def go_simps case_prod_beta split: if_splits option.splits)

lemma search_request_files:
  assumes "processSearchRequest H rx ord now now' e g = Inr (g', out)"
  shows "keeps_files g g'"
proof -
  obtain r where r: "SearchRequest (Packet e) = Some r" using assms by (auto simp: processSearchRequest_def go_simps)
  obtain recent r1 fh where i: "isRecentSearchRequest H now now' r (fileHandler g) = (recent, r1, fh)"
    by (cases "isRecentSearchRequest H now now' r (fileHandler g)") auto
  have "filesMetadata fh = filesMetadata (fileHandler g)" using i by (auto simp: isRecentSearchRequest_def Let_def split: if_splits)
  with assms r i show ?thesis by (cases recent) (auto simp: processSearchRequest_def Let_def keeps_files_def meta_names_def)
qed

lemma tlc_files:
  assumes "handleTLCMessage ord e g = Inr (g', out)"
  shows "keeps_files g g'"
proof -
  obtain tlc where tlc: "TLCMessage (Packet e) = Some tlc" using assms by (auto simp: handleTLCMessage_def go_simps)
  obtain r bh where m: "getMessageOriginalRound (tlc_Origin tlc) (tlc_ID tlc) (tlc_Confirmed tlc) (blockchainHandler g) = (r, bh)"
    by fastforce
  have "fileHandler h' = fileHandler h" if "acknowledge tlc r h = Inr (h', o1)" for h h' o1
    using that by (auto simp: acknowledge_def Let_def go_simps split: if_splits)
  moreover have "fileHandler h' = fileHandler h" if "checkForCausalProperty ord k vc i a h = Inr (b, h', o2)" for k vc i a h b h' o2
    using that by (auto simp: checkForCausalProperty_def go_simps split: if_splits)
  ultimately have "fileHandler g' = fileHandler g"
    using assms tlc m by (fastforce simp: handleTLCMessage_def Let_def go_simps split: if_splits)
  then show ?thesis by simp
qed

lemma index_files: "keeps_files g (g\<lparr>fileHandler := fst (indexFile H disk c f (fileHandler g))\<rparr>)"
  by (auto simp: keeps_files_def meta_names_def indexFile_def LoadOrStore_def Let_def split: sum.split prod.split option.split)

lemma command_files:
  assumes "processClientMessages H disk ord m g = Inr (g', out)"
  shows "keeps_files g g'"
proof (cases "getTypeFromMessage (config g) m = ''file''")
  case True
  then obtain f where "File m = Some f" using getTypeFromMessage_fields(2) by blast
  with True have "g' = g\<lparr>fileHandler := fst (indexFile H disk (config g) f (fileHandler g))\<rparr>"
    using assms by (auto simp: processClientMessages_def Let_def case_prod_beta)
  then show ?thesis using index_files by simp
next
  case False
  then show ?thesis
    using assms by (auto simp: processClientMessages_def Let_def go_simps split: if_splits dest: point_files)
qed

lemma result_files: "handleSearchResult origin res g = (g', out) \<Longrightarrow> keeps_files g g'"
  by (auto simp: handleSearchResult_def LoadOrStore_def keeps_files_def meta_names_def Let_def split: option.splits)

lemma loop_files:
  assumes "run_loop w chan e g = Inr (g', out)"
  shows "keeps_files g g'"
  using assms point_files search_request_files tlc_files unfolding run_loop_def by (simp split: if_splits)

lemma react_files:
  assumes "node_react w s g = Inr (g', out)"
  shows "keeps_files g g'"
proof (cases s)
  case (FromChannel chan e)
  then show ?thesis using assms loop_files by simp
next
  case (FromClient m)
  then show ?thesis using assms command_files by simp
next
  case (GossipArrives e origin mid)
  then show ?thesis using assms point_files(9) by simp
next
  case (ResultArrives origin res)
  then show ?thesis using assms result_files by simp
qed (use assms in \<open>auto simp: receivePacketsFromPeers_def handlePeerStatus_def run_notifyListeners_def
    startAntiEntropy_def routeRumorStart_def routeRumorTick_def Let_def go_simps case_prod_beta
    split: if_splits option.splits dest: point_files\<close>)

lemma react_keeps:
  assumes "node_wf g" and "is_order (env_order w)" and "possible s" and "\<not> hostile w s g" and "node_react w s g = Inr (g', out)"
  shows "wf_keeps g g' \<and> list_all (job_sound g') (jobs_of out)"
  using react_safe [OF assms(1-4)] react_jobs [OF assms(3,5)] react_confirmed_rounds [OF assms(5)] react_files [OF assms(5)] assms(5)
  by (auto simp: safe_step_def wf_keeps_def)

section \<open>Every run ends well\<close>

lemma client_block_run:
  assumes "node_wf g" and "TLCMessage (Packet e) = Some tlc" and "\<not> hostile_job w c (ClientBlock e) g"
  shows "good_run (run_job w c (ClientBlock e) g) g"
proof (cases "hw3ex4Mode (config g)")
  case True
  with assms(3) have "spare 5 g" "\<not> bad_decision (env_hash w) (env_order w) (round_of g) (blockchainHandler g)" by simp_all
  from qscRound_keeps [OF assms(1) this(1) assms(2) this(2)] obtain q g' out where
    "qscRound (env_hash w) (env_order w) e g = Inr (q, g', out)" "wf_keeps g g'" "sound_jobs out"
    "\<forall>q'. q = Some q' \<longrightarrow> qsc_ok q' g'" by blast
  with True show ?thesis by (cases q) (auto simp: good_run_def sound_jobs_sound processClientBlocks_def)
next
  case False
  with assms(3) have "spare 1 g" using spare_exhausted by simp
  then obtain s g' out where "gossipWithConfirmation (env_order w) e True g = Inr (s, g', out)" "round_frame 1 g g'" "sound_jobs out"
    using gossip_confirmation_keeps [OF assms(1) _ assms(2), of True "env_order w"] by blast
  with False round_frame_keeps show ?thesis
    by (cases s) (auto simp: good_run_def sound_jobs_sound processClientBlocks_def tlcRound_def)
qed

lemma round_run:
  assumes "node_wf g" and "job_sound g (InRound r)" and "\<not> hostile_job w c (InRound r) g"
  shows "good_run (run_job w c (InRound r) g) g"
proof (cases r)
  case (InTlc s)
  with assms(3) have "spare 1 g" using spare_exhausted by simp
  then obtain s' g' out where "confirmStep (env_order w) (ch_event c) s g = Inr (s', g', out)" "wf_keeps g g'" "sound_jobs out"
    using confirm_step_keeps [OF assms(1)] by blast
  with InTlc show ?thesis by (cases s') (auto simp: good_run_def sound_jobs_sound)
next
  case (InQsc q)
  with assms(2,3) have "spare 5 g" "qsc_ok q g" "\<not> bad_decision (env_hash w) (env_order w) (q_round q) (blockchainHandler g)"
    by simp_all
  from qscStep_keeps [OF assms(1) this] obtain q' g' out where
    "qscStep (env_hash w) (env_order w) (ch_event c) q g = Inr (q', g', out)" "wf_keeps g g'" "sound_jobs out"
    "\<forall>q''. q' = Some q'' \<longrightarrow> qsc_ok q'' g'" by blast
  with InQsc show ?thesis by (cases q') (auto simp: good_run_def sound_jobs_sound)
qed

text \<open>Every run of a piece of sound work ends well, unless the work is hostile.\<close>

lemma run_job_good:
  assumes "node_wf g" and "orderly w" and "job_sound g j" and "\<not> hostile_job w c j g"
  shows "good_run (run_job w c j g) g"
proof -
  have ords: "is_order (env_order w)" "is_order (env_order64 w)" using assms(2) by (simp_all add: orderly_def)
  show ?thesis
  proof (cases j)
    case (Reacts s)
    then have s: "possible s" "\<not> hostile w s g" using assms(3,4) by simp_all
    from react_safe [OF assms(1) ords(1) this] obtain g' out where r: "node_react w s g = Inr (g', out)" by (auto simp: safe_step_def)
    with react_keeps [OF assms(1) ords(1) s r] show ?thesis using Reacts by (simp add: good_run_def)
  next
    case (ClientBlock e)
    then obtain tlc where "TLCMessage (Packet e) = Some tlc" using assms(3) by auto
    with client_block_run [OF assms(1)] assms(4) ClientBlock show ?thesis by blast
  next
    case (Confirming s)
    then have "spare 1 g" using assms(4) spare_exhausted by simp
    then obtain s' g' out where "confirmStep (env_order w) (ch_event c) s g = Inr (s', g', out)" "wf_keeps g g'" "sound_jobs out"
      using confirm_step_keeps [OF assms(1)] by blast
    with Confirming show ?thesis by (cases s') (auto simp: good_run_def sound_jobs_sound)
  next
    case (InRound r)
    then show ?thesis using round_run assms(1,3,4) by blast
  next
    case (Searching s)
    then show ?thesis using search_run(4) [OF assms(1) ords(1)] assms(4) by simp
  next
    case (Publishes fm)
    then show ?thesis using publish_keeps [OF assms(1)] assms(4) by simp
  next
    case (Fetches key origin chunkMap)
    then show ?thesis using download_run_good(1) [OF assms(1) ords(2)] assms(3,4) by simp
  next
    case (Downloads f dest h)
    then show ?thesis using download_run_good(2) [OF assms(1) ords(2)] assms(4) by simp
  next
    case (Downloading d)
    then show ?thesis using download_run_good(3) [OF assms(1) ords(2)] assms(3,4) by simp
  qed (use assms(1) monger_run search_run download_run_good(4) [OF _ ords(2)] in auto)
qed

section \<open>A started node keeps running\<close>

inductive_cases system_stepE: "system_step w (g, js) inp out s'"

definition sound_system :: "gossiper \<Rightarrow> system \<Rightarrow> bool" where
  "sound_system g0 s \<longleftrightarrow> wf_keeps g0 (fst s) \<and> list_all (job_sound (fst s)) (snd s)"

lemma external_possible: "external s \<Longrightarrow> possible s"
  by (cases s) auto

lemma client_jobs: "sound_jobs (receivePacketsFromClient decode bytes)"
  by (cases "decode bytes") (auto simp: receivePacketsFromClient_def log_error_def split: option.split)

lemma sound_system_step:
  assumes "sound_system g0 (g, js)" and "wf_keeps g g'" and "list_all (job_sound g') ks" and "set js' \<subseteq> set js \<union> set ks"
  shows "sound_system g0 (g', js')"
proof -
  have "job_sound g' j" if "j \<in> set js'" for j
    using that assms job_sound_keeps [OF _ assms(2), of j] by (fastforce simp: sound_system_def list_all_iff)
  then show ?thesis using assms(1) wf_keeps_trans [OF _ assms(2)] by (auto simp: sound_system_def list_all_iff)
qed

lemma step_sound:
  assumes "sound_system g0 (g, js)" and "orderly w" and "system_step w (g, js) inp out s'"
  shows "sound_system g0 s'"
proof -
  have inv: "node_wf g" "list_all (job_sound g) js" using assms(1) by (simp_all add: sound_system_def wf_keeps_def)
  have ord: "is_order (env_order w)" using assms(2) by (simp add: orderly_def)
  note step = sound_system_step [OF assms(1)]
  show ?thesis
    using assms(3)
  proof (cases rule: system_stepE [consumes 1, case_names input command work])
    case (input s g')
    have "wf_keeps g g' \<and> list_all (job_sound g') (jobs_of out)"
      using react_keeps [OF inv(1) ord external_possible [OF input(3)] input(4,5)] .
    then show ?thesis unfolding input(2) by (intro step [where ks = "jobs_of out"]) auto
  next
    case (command decode bytes)
    then show ?thesis using inv(1) sound_jobs_sound [OF client_jobs] by (auto intro!: step)
  next
    case (work c j xs ys js' g')
    have "job_sound g j" using inv(2) work by simp
    then have "wf_keeps g g' \<and> list_all (job_sound g') (js' @ jobs_of out)"
      using run_job_good [OF inv(1) assms(2) _ work(5)] work(6) by (simp add: good_run_def)
    then show ?thesis unfolding work(3) using work(1) by (intro step [where ks = "js' @ jobs_of out"]) auto
  qed
qed

lemma system_sound:
  assumes "system_reaches (g0, []) s" and "node_wf g0"
  shows "sound_system g0 s"
  using assms(1)
proof induction
  case here
  show ?case using assms(2) by (simp add: sound_system_def)
next
  case (there s w inp out s')
  then show ?case using step_sound by (cases s) blast
qed

text \<open>A node that is started and gets a rumor.\<close>

definition sample_packet :: gossip_packet where
  "sample_packet = empty_packet\<lparr>Rumor := Some \<lparr>rumor_Origin = ''B'', rumor_ID = 1, rumor_Text = ''hi''\<rparr>\<rparr>"

definition sample_world :: environment where
  "sample_world = \<lparr>env_hash = sample_hash, env_match = (\<lambda>_ _. False), env_order = sorted_list_of_fset, env_order64 = sorted_list_of_fset,
     env_disk = (\<lambda>_. Inl ''no such file''), env_decode = (\<lambda>_. (sample_packet, None)), env_now = 0\<rparr>"

definition sample_job :: job where
  "sample_job = Reacts (FromChannel ''rumor'' \<lparr>Packet = sample_packet, SenderAddr = sample_addr 2\<rparr>)"

definition first_start :: gossiper where
  "first_start = start_node (\<lambda>_. None) (sample_addr 1) default_options"

lemma sample_world_orderly: "orderly sample_world"
  by (simp add: orderly_def sample_world_def sorted_is_order)

lemma sample_job_harmless: "\<not> hostile_job w c sample_job g"
  by (simp add: sample_job_def hostile_packet_def sample_packet_def)

lemma sample_system_reached: "\<exists>g. system_reaches (first_start, []) (g, [sample_job])"
proof -
  have cfg: "config first_start = start_config default_options" by (simp add: first_start_def start_node_def NewGossiper_def Let_def)
  have m: "\<not> simpleMode (start_config default_options)"
    by (simp add: start_config_def default_options_def SetAppConstants_def)
  let ?d = "Datagram [] (sample_addr 2)"
  have "\<exists>g out. node_react sample_world ?d first_start = Inr (g, out) \<and> jobs_of out = [sample_job]"
    by (auto simp: receivePacketsFromPeers_def getTypeFromGossip_def cfg m Let_def sample_world_def sample_job_def sample_packet_def)
  then obtain g out where d: "node_react sample_world ?d first_start = Inr (g, out)" "jobs_of out = [sample_job]" by blast
  have "system_step sample_world (first_start, []) (Some ?d) out (g, [] @ jobs_of out)"
    by (rule system_step.input [OF _ _ d(1)]) simp_all
  from system_reaches.there [OF system_reaches.here sample_world_orderly this] show ?thesis
    using d(2) by auto
qed

text \<open>
  C6: a started node with all its goroutines keeps running: whatever datagrams, commands and ticks
  arrive, however clock and disk change and in whatever order the goroutines run, every piece of work
  that is left can be done without a panic and keeps all invariants, whatever peers, coins and events
  it meets, unless it is one of the listed hostile cases; the work it leaves is again sound, and so it
  goes on, in every mode, downloads, rounds and consensus included.
\<close>

theorem system_keeps_running:
  assumes "orderly w" and "system_reaches (start_node resolve address opts, []) (g, js)"
    and "j \<in> set js" and "\<not> hostile_job w c j g"
  shows "\<exists>js' g' out. run_job w c j g = Inr (js', g', out) \<and> node_wf g' \<and> node_name g' = opt_name opts
    \<and> (\<forall>j' \<in> set (js' @ jobs_of out). job_sound g' j')"
proof -
  have name: "node_name (start_node resolve address opts) = opt_name opts"
    by (simp add: start_node_def NewGossiper_def Let_def)
  have inv: "node_wf g" "job_sound g j" "node_name g = opt_name opts"
    using system_sound [OF assms(2) start_node_wf] assms(3) name by (auto simp: sound_system_def wf_keeps_def list_all_iff)
  from run_job_good [OF inv(1) assms(1) inv(2) assms(4)] inv(3) show ?thesis
    by (auto simp: good_run_def wf_keeps_def list_all_iff)
qed

theorem system_keeps_running_witness:
  "\<exists>g. system_reaches (first_start, []) (g, [sample_job])
     \<and> (\<forall>c. \<exists>js' g' out. run_job sample_world c sample_job g = Inr (js', g', out) \<and> node_wf g' \<and> node_name g' = opt_name default_options)"
proof -
  obtain g where g: "system_reaches (first_start, []) (g, [sample_job])" using sample_system_reached by blast
  have j: "sample_job \<in> set [sample_job]" by simp
  show ?thesis
    using system_keeps_running [OF sample_world_orderly g [unfolded first_start_def] j sample_job_harmless] g by blast
qed

section \<open>What waits has what its reader asserts\<close>

text \<open>The field of a packet that the loop of a channel reads without a test.\<close>

definition channel_field :: "string \<Rightarrow> gossip_packet \<Rightarrow> bool" where
  "channel_field chan p \<longleftrightarrow>
     (chan = ''simple'' \<longrightarrow> Simple p \<noteq> None) \<and> (chan = ''rumor'' \<longrightarrow> Rumor p \<noteq> None) \<and>
     (chan = ''private'' \<longrightarrow> Private p \<noteq> None) \<and> (chan = ''status'' \<longrightarrow> Status p \<noteq> None) \<and>
     (chan = ''dataRequest'' \<longrightarrow> DataRequest p \<noteq> None) \<and> (chan = ''dataReply'' \<longrightarrow> DataReply p \<noteq> None) \<and>
     (chan = ''searchRequest'' \<longrightarrow> SearchRequest p \<noteq> None) \<and> (chan = ''searchReply'' \<longrightarrow> SearchReply p \<noteq> None) \<and>
     (chan \<in> {''tlcMes'', ''tlcCausal''} \<longrightarrow> TLCMessage p \<noteq> None) \<and> (chan = ''tlcAck'' \<longrightarrow> Ack p \<noteq> None)"

fun well_typed :: "gossiper \<Rightarrow> job \<Rightarrow> bool" where
  "well_typed g (Reacts (FromChannel chan e)) \<longleftrightarrow> channel_field chan (Packet e)"
| "well_typed g (Reacts (StatusArrives e)) \<longleftrightarrow> Status (Packet e) \<noteq> None"
| "well_typed g (Reacts (Relays p hop dest)) \<longleftrightarrow> get_hop hop p \<noteq> None"
| "well_typed g (ClientBlock e) \<longleftrightarrow> TLCMessage (Packet e) \<noteq> None"
| "well_typed g (Fetches key origin chunkMap) \<longleftrightarrow> fmlookup (filesMetadata (fileHandler g)) key \<noteq> None"
| "well_typed g (Downloading d) \<longleftrightarrow> get_hop HopDataRequest (pc_packet (piece_of d)) \<noteq> None \<and>
     (case d of ForChunk pc tr peers i is st \<Rightarrow> fmlookup (filesMetadata (fileHandler g)) (tr_key tr) \<noteq> None
      | Fetching pc key origin chunkMap \<Rightarrow> fmlookup (filesMetadata (fileHandler g)) key \<noteq> None
      | ForMetafile pc fileName dest metaHash \<Rightarrow> True)"
| "well_typed g j \<longleftrightarrow> True"

lemma on_channel_field:
  assumes "on_channel chan p"
  shows "channel_field chan p"
proof -
  have "getTypeFromGossip p \<noteq> ''tlcCausal''" by (simp add: getTypeFromGossip_def)
  with assms gossip_type_fields [of p] show ?thesis by (auto simp: on_channel_def channel_field_def)
qed

lemma sound_well_typed:
  assumes "job_sound g j"
  shows "well_typed g j"
proof (cases j)
  case (Reacts s)
  with assms show ?thesis using on_channel_field by (cases s) auto
next
  case (Fetches key origin chunkMap)
  with assms show ?thesis using set_meta_names by auto
next
  case (Downloading d)
  with assms show ?thesis using set_meta_names
    by (cases d) (auto simp: piece_ok_def is_request_def meta_names_def)
qed (use assms in auto)

text \<open>
  C7: the type assertions of the program are safe: in every state a started node can reach, whatever
  arrives and in whatever order its goroutines run, every packet that waits on a channel has the field
  that the loop of this channel reads without a test, every status packet handed to the channel of a
  peer has a status, every packet to be relayed has the hop limit that is lowered, the next block has a
  TLC message, and a download finds the entry of its file.
\<close>

theorem channels_well_typed:
  assumes "system_reaches (start_node resolve address opts, []) (g, js)" and "j \<in> set js"
  shows "well_typed g j"
proof -
  have "job_sound g j"
    using system_sound [OF assms(1) start_node_wf] assms(2) by (auto simp: sound_system_def list_all_iff)
  then show ?thesis by (rule sound_well_typed)
qed

theorem channels_well_typed_witness:
  "\<exists>g. system_reaches (first_start, []) (g, [sample_job]) \<and> well_typed g sample_job"
proof -
  obtain g where g: "system_reaches (first_start, []) (g, [sample_job])" using sample_system_reached by blast
  have j: "sample_job \<in> set [sample_job]" by simp
  show ?thesis using channels_well_typed [OF g [unfolded first_start_def] j] g by blast
qed

end
