(* ===== verification/Network.thy ===== *)
theory Network
  imports AntiEntropy
begin

text \<open>
  A network of nodes gossiping over a wire that may lose, duplicate and reorder packets: the
  handlers of the nodes as the steps of a transition system.  In every reachable state each stored
  message is the one its origin created under that number, and no handler can panic on a packet of
  the wire.  Handlers run one at a time here: the two atomic operations with which the code takes a
  sequence number are one step.
\<close>

record network =
  nodes :: "(udp_addr, gossiper) fmap"
  wire :: "(gossip_packet \<times> udp_addr \<times> udp_addr) set"

definition put_on_wire :: "udp_addr \<Rightarrow> gossiper \<Rightarrow> effect list \<Rightarrow> network \<Rightarrow> network" where
  "put_on_wire a g out s =
     s\<lparr>nodes := fmupd a g (nodes s), wire := wire s \<union> {(p, a, b) | p b. (p, b) \<in> set (packets_of out)}\<rparr>"

text \<open>
  A packet stays on the wire when it is delivered, so it can arrive again or never.  Mongering may
  start, and wake, for any message the node has stored.
\<close>

inductive net_step :: "network \<Rightarrow> network \<Rightarrow> bool" where
  new_rumor:
    "fmlookup (nodes s) a = Some g \<Longrightarrow> seqID (gossipHandler g) \<noteq> -1 \<Longrightarrow>
     createRumorMessage content g = Inr (e, g', out) \<Longrightarrow> net_step s (put_on_wire a g' out s)"
| new_tlc:
    "fmlookup (nodes s) a = Some g \<Longrightarrow> seqID (gossipHandler g) \<noteq> -1 \<Longrightarrow>
     createTLCMessage ord block conf fit g = Inr (e, g') \<Longrightarrow> net_step s (put_on_wire a g' [] s)"
| deliver:
    "fmlookup (nodes s) a = Some g \<Longrightarrow> (p, sender, a) \<in> wire s \<Longrightarrow> is_order ord \<Longrightarrow>
     gossip_step ord \<lparr>Packet = p, SenderAddr = sender\<rparr> g = Inr (g', out) \<Longrightarrow> net_step s (put_on_wire a g' out s)"
| status:
    "fmlookup (nodes s) a = Some g \<Longrightarrow> (p, sender, a) \<in> wire s \<Longrightarrow> is_order ord \<Longrightarrow> is_order ord' \<Longrightarrow>
     handlePeerStatus ord ord' \<lparr>Packet = p, SenderAddr = sender\<rparr> g = Inr (g', out) \<Longrightarrow>
     net_step s (put_on_wire a g' out s)"
| anti_entropy:
    "fmlookup (nodes s) a = Some g \<Longrightarrow> is_order ord \<Longrightarrow>
     startAntiEntropy ord rnd g = Inr (g', out) \<Longrightarrow> net_step s (put_on_wire a g' out s)"
| monger:
    "fmlookup (nodes s) a = Some g \<Longrightarrow> stored_msg (gossipHandler g) k i = Some (Packet e) \<Longrightarrow>
     startRumorMongering rnd e k i g = Inr (g', m, out) \<Longrightarrow> net_step s (put_on_wire a g' out s)"
| wake:
    "fmlookup (nodes s) a = Some g \<Longrightarrow>
     stored_msg (gossipHandler g) (mg_origin m) (mg_id m) = Some (Packet (mg_packet m)) \<Longrightarrow>
     wakeRumorMongering status_received coin rnd m g = Inr (g', m', out) \<Longrightarrow> net_step s (put_on_wire a g' out s)"
| notify:
    "fmlookup (nodes s) a = Some g \<Longrightarrow> (p, sender, a) \<in> wire s \<Longrightarrow>
     net_step s (put_on_wire a (run_notifyListeners \<lparr>Packet = p, SenderAddr = sender\<rparr> g) [] s)"

inductive reachable :: "network \<Rightarrow> network \<Rightarrow> bool" for s0 where
  start: "reachable s0 s0"
| step: "reachable s0 s \<Longrightarrow> net_step s s' \<Longrightarrow> reachable s0 s'"

definition net_init :: "network \<Rightarrow> bool" where
  "net_init s \<longleftrightarrow> wire s = {} \<and>
     (\<forall>a g. fmlookup (nodes s) a = Some g \<longrightarrow> gossipHandler g = NewGossipHandler) \<and>
     (\<forall>a g b h. fmlookup (nodes s) a = Some g \<longrightarrow> fmlookup (nodes s) b = Some h \<longrightarrow>
        node_name g = node_name h \<longrightarrow> a = b)"

section \<open>Who created a message\<close>

text \<open>What the handlers store: a packet with one gossip message and nothing else.\<close>

definition gossip_form :: "gossip_packet \<Rightarrow> bool" where
  "gossip_form p \<longleftrightarrow> (\<exists>r. p = empty_packet\<lparr>Rumor := Some r\<rparr>) \<or>
     (\<exists>t. p = empty_packet\<lparr>TLCMessage := Some t\<rparr> \<and> tlc_VectorClock t \<noteq> None)"

lemma gossip_form_simps [simp]:
  "gossip_form (empty_packet\<lparr>Rumor := Some r\<rparr>)"
  "tlc_VectorClock t \<noteq> None \<Longrightarrow> gossip_form (empty_packet\<lparr>TLCMessage := Some t\<rparr>)"
  by (auto simp: gossip_form_def)

lemma gossip_form_Status: "gossip_form p \<Longrightarrow> Status p = None"
  by (auto simp: gossip_form_def)

text \<open>The message of that number at its origin.\<close>

definition authentic :: "network \<Rightarrow> string \<Rightarrow> u32 \<Rightarrow> gossip_packet \<Rightarrow> bool" where
  "authentic s k i p \<longleftrightarrow> i \<noteq> -1 \<and> gossip_id p = Some (k, i) \<and>
     (\<exists>b h. fmlookup (nodes s) b = Some h \<and> node_name h = k \<and> stored_msg (gossipHandler h) k i = Some p)"

definition packet_ok :: "network \<Rightarrow> gossip_packet \<Rightarrow> bool" where
  "packet_ok s p \<longleftrightarrow> (\<forall>k i. gossip_id p = Some (k, i) \<longrightarrow> authentic s k i p \<and> gossip_form p) \<and>
     (\<forall>st. Status p = Some st \<longrightarrow> (\<forall>e \<in> set (Want st). NextID e \<noteq> 0))"

definition net_inv :: "network \<Rightarrow> bool" where
  "net_inv s \<longleftrightarrow>
     (\<forall>a g. fmlookup (nodes s) a = Some g \<longrightarrow> node_inv g \<and>
        (\<forall>k i p. stored_msg (gossipHandler g) k i = Some p \<longrightarrow> authentic s k i p \<and> gossip_form p)) \<and>
     (\<forall>a g b h. fmlookup (nodes s) a = Some g \<longrightarrow> fmlookup (nodes s) b = Some h \<longrightarrow>
        node_name g = node_name h \<longrightarrow> a = b) \<and>
     (\<forall>(p, a, b) \<in> wire s. packet_ok s p)"

lemma node_inv_start: "gossipHandler g = NewGossipHandler \<Longrightarrow> node_inv g"
  by (auto simp: node_inv_def) (simp_all add: NewGossipHandler_def)

lemma net_init_inv: "net_init s \<Longrightarrow> net_inv s"
  by (auto simp: net_init_def net_inv_def node_inv_start) (simp_all add: stored_msg_def NewGossipHandler_def)

text \<open>
  How one node may change in a step: it keeps what it has stored, what it adds is authentic
  already or its own, and the packets it gives away are stored, or were on the wire, or are no gossip.
\<close>

definition plain_packet :: "gossip_packet \<Rightarrow> bool" where
  "plain_packet p \<longleftrightarrow> gossip_id p = None \<and> (\<forall>st. Status p = Some st \<longrightarrow> (\<forall>e \<in> set (Want st). NextID e \<noteq> 0))"

lemma plain_packet_ok: "plain_packet p \<Longrightarrow> packet_ok s p"
  by (simp add: plain_packet_def packet_ok_def)

definition sent_packets :: "effect list \<Rightarrow> gossip_packet set" where
  "sent_packets out = fst ` set (packets_of out)"

lemma sent_packets_mem: "p \<in> sent_packets out \<longleftrightarrow> (\<exists>b. (p, b) \<in> set (packets_of out))"
  by (force simp: sent_packets_def)

lemma sent_packets_none [simp]: "packets_of out = [] \<Longrightarrow> sent_packets out = {}"
  by (simp add: sent_packets_def)

definition node_step :: "network \<Rightarrow> gossiper \<Rightarrow> gossiper \<Rightarrow> gossip_packet set \<Rightarrow> bool" where
  "node_step s g g' ps \<longleftrightarrow> node_inv g' \<and> node_name g' = node_name g \<and>
     (\<forall>k i p. stored_msg (gossipHandler g) k i = Some p \<longrightarrow> stored_msg (gossipHandler g') k i = Some p) \<and>
     (\<forall>k i p. stored_msg (gossipHandler g') k i = Some p \<longrightarrow> stored_msg (gossipHandler g) k i = Some p \<or>
        gossip_form p \<and> (authentic s k i p \<or> k = node_name g \<and> i \<noteq> -1 \<and> gossip_id p = Some (k, i))) \<and>
     (\<forall>p \<in> ps. (\<exists>k i. stored_msg (gossipHandler g') k i = Some p) \<or> packet_ok s p)"

lemma node_step_subset: "node_step s g g' ps \<Longrightarrow> ps' \<subseteq> ps \<Longrightarrow> node_step s g g' ps'"
  by (auto simp: node_step_def)

lemma authentic_mono:
  assumes a: "fmlookup (nodes s) a = Some g" and st: "node_step s g g' ps" and nodes: "nodes s' = fmupd a g' (nodes s)"
    and auth: "authentic s k i p"
  shows "authentic s' k i p"
proof -
  have names: "node_name g' = node_name g" using st by (simp add: node_step_def)
  from auth obtain b h where b: "fmlookup (nodes s) b = Some h" "node_name h = k"
    "stored_msg (gossipHandler h) k i = Some p" "i \<noteq> -1" "gossip_id p = Some (k, i)"
    by (auto simp: authentic_def)
  show ?thesis
  proof (cases "b = a")
    case True
    then have "stored_msg (gossipHandler g') k i = Some p"
      using st a b by (auto simp: node_step_def)
    with True a b names show ?thesis
      by (auto simp: authentic_def nodes intro!: exI [of _ a])
  next
    case False
    with b show ?thesis
      by (auto simp: authentic_def nodes intro!: exI [of _ b])
  qed
qed

lemma packet_ok_mono:
  assumes "fmlookup (nodes s) a = Some g" and "node_step s g g' ps" and "nodes s' = fmupd a g' (nodes s)" and "packet_ok s p"
  shows "packet_ok s' p"
  using authentic_mono [OF assms(1-3)] assms(4) by (simp add: packet_ok_def)

lemma net_inv_node_step:
  assumes inv: "net_inv s" and a: "fmlookup (nodes s) a = Some g" and st: "node_step s g g' ps"
    and nodes: "nodes s' = fmupd a g' (nodes s)"
    and wire: "\<forall>(p, x, y) \<in> wire s'. p \<in> ps \<or> (\<exists>x y. (p, x, y) \<in> wire s)"
  shows "net_inv s'"
proof -
  have names: "node_name g' = node_name g" using st by (simp add: node_step_def)
  note mono = authentic_mono [OF a st nodes] and old = packet_ok_mono [OF a st nodes]
  have own: "authentic s' (node_name g) i p"
    if "stored_msg (gossipHandler g') (node_name g) i = Some p" "i \<noteq> -1" "gossip_id p = Some (node_name g, i)" for i p
    using that names by (auto simp: authentic_def nodes intro!: exI [of _ a])
  have stored: "authentic s' k i p \<and> gossip_form p" if "stored_msg (gossipHandler g') k i = Some p" for k i p
  proof -
    have "stored_msg (gossipHandler g) k i = Some p \<or>
        gossip_form p \<and> (authentic s k i p \<or> k = node_name g \<and> i \<noteq> -1 \<and> gossip_id p = Some (k, i))"
      using that st unfolding node_step_def by blast
    moreover have "authentic s k i p \<and> gossip_form p" if "stored_msg (gossipHandler g) k i = Some p"
      using that inv a unfolding net_inv_def by blast
    ultimately show ?thesis using mono own that by blast
  qed
  have sent: "packet_ok s' p" if "p \<in> ps" for p
  proof -
    have "(\<exists>k i. stored_msg (gossipHandler g') k i = Some p) \<or> packet_ok s p"
      using st that by (simp add: node_step_def)
    then show ?thesis
    proof (elim disjE exE)
      fix k i assume "stored_msg (gossipHandler g') k i = Some p"
      from stored [OF this] show ?thesis by (auto simp: packet_ok_def authentic_def gossip_form_Status)
    qed (rule old)
  qed
  show ?thesis
    unfolding net_inv_def
  proof (intro conjI allI impI)
    fix b h assume b: "fmlookup (nodes s') b = Some h"
    show "node_inv h"
      using b inv st by (auto simp: nodes net_inv_def node_step_def split: if_splits)
    fix k i p assume "stored_msg (gossipHandler h) k i = Some p"
    then show "authentic s' k i p" "gossip_form p"
      using b inv stored mono by (auto simp: nodes net_inv_def split: if_splits)
  next
    fix b h c h' assume "fmlookup (nodes s') b = Some h" "fmlookup (nodes s') c = Some h'" "node_name h = node_name h'"
    then show "b = c"
      using inv a names unfolding net_inv_def nodes by (auto split: if_splits)
  next
    show "\<forall>(p, b, c) \<in> wire s'. packet_ok s' p"
      using inv sent old wire by (fastforce simp: net_inv_def)
  qed
qed

lemma net_inv_step:
  assumes "net_inv s" and "fmlookup (nodes s) a = Some g" and "node_step s g g' (sent_packets out)"
  shows "net_inv (put_on_wire a g' out s)"
  by (rule net_inv_node_step [OF assms]) (auto simp: put_on_wire_def sent_packets_mem)

section \<open>Every handler is such a step\<close>

definition same_log :: "gossiper \<Rightarrow> gossiper \<Rightarrow> bool" where
  "same_log g g' \<longleftrightarrow> node_name g' = node_name g \<and> messageStorage (gossipHandler g') = messageStorage (gossipHandler g)
     \<and> myStatus (gossipHandler g') = myStatus (gossipHandler g) \<and> seqID (gossipHandler g') = seqID (gossipHandler g)"

lemma same_log_refl [simp]: "same_log g g"
  by (simp add: same_log_def)

lemma same_log_stored:
  assumes "same_log g g'"
  shows "stored_msg (gossipHandler g') = stored_msg (gossipHandler g)"
    and "stored_ids (gossipHandler g') = stored_ids (gossipHandler g)"
  using assms by (simp_all add: same_log_def stored_msg_def stored_ids_def fun_eq_iff)

lemma same_log_inv: "same_log g g' \<Longrightarrow> node_inv g \<Longrightarrow> node_inv g'"
  using same_log_stored [of g g'] by (simp add: node_inv_def log_inv_def gossip_inv_def same_log_def)

lemma node_step_same:
  assumes "node_inv g" and "same_log g g'"
    and "\<And>p. p \<in> ps \<Longrightarrow> (\<exists>k i. stored_msg (gossipHandler g) k i = Some p) \<or> packet_ok s p"
  shows "node_step s g g' ps"
  unfolding node_step_def same_log_stored [OF assms(2)]
  using assms same_log_inv [OF assms(2,1)] by (auto simp: same_log_def)

lemma clock_not_zero:
  assumes "node_inv g" and "is_order ord" and "e \<in> set (Want (createMyStatusPacket ord (myStatus (gossipHandler g))))"
  shows "NextID e \<noteq> 0"
proof -
  have "fmlookup (myStatus (gossipHandler g)) (Identifier e) = Some (NextID e)"
    using assms(3) Want_createMyStatusPacket [OF assms(2)] by blast
  then have "1 < NextID e" using assms(1) by (simp add: node_inv_def log_inv_def gossip_inv_def)
  then show ?thesis by auto
qed

lemma own_status_ok:
  assumes "node_inv g" and "is_order ord"
  shows "packet_ok s (empty_packet\<lparr>Status := Some (createMyStatusPacket ord (myStatus (gossipHandler g)))\<rparr>)"
  using clock_not_zero [OF assms] by (simp add: packet_ok_def gossip_id_def)

lemma step_status:
  assumes "node_inv g" "is_order ord'" "handlePeerStatus ord ord' e g = Inr (g', out)"
  shows "node_step s g g' (sent_packets out)"
proof -
  obtain st where st: "Status (Packet e) = Some st" using assms(3)
    by (cases "Status (Packet e)") (simp_all add: handlePeerStatus_def Let_def)
  show ?thesis
  proof (cases "getPeerStatusForPeer ord (myStatus (gossipHandler g)) (Want st)")
    case None
    then show ?thesis
      using assms st own_status_ok [OF assms(1,2)]
      by (intro node_step_same) (auto simp: handlePeerStatus_def Let_def sent_packets_mem split: if_splits)
  next
    case (Some ps)
    with assms(3) st obtain p where p: "getPacketFromPeerStatus (messageStorage (gossipHandler g)) ps = Inr p"
      "g' = g" "packets_of out = [(p, SenderAddr e)]"
      by (auto simp: handlePeerStatus_def Let_def go_simps)
    then have "stored_msg (gossipHandler g) (Identifier ps) (NextID ps) = Some p"
      by (auto simp: getPacketFromPeerStatus_def stored_msg_def go_simps split: option.splits)
    with assms(1) p(2,3) show ?thesis by (intro node_step_same) (auto simp: sent_packets_mem)
  qed
qed

lemma step_anti_entropy:
  assumes "node_inv g" "is_order ord" "startAntiEntropy ord rnd g = Inr (g', out)"
  shows "node_step s g g' (sent_packets out)"
  using assms own_status_ok [OF assms(1,2)]
  by (intro node_step_same)
    (auto simp: startAntiEntropy_def Let_def sent_packets_mem go_simps split: if_splits)

lemma sendRumor_same: "same_log g (fst (sendRumorWithTimeout e k i peer g))"
  by (simp add: sendRumorWithTimeout_def Let_def same_log_def)

lemma same_log_trans: "same_log f g \<Longrightarrow> same_log g h \<Longrightarrow> same_log f h"
  by (simp add: same_log_def)

lemma startRumor_same: "startRumorMongering rnd e k i g = Inr (g', m, out) \<Longrightarrow> same_log g g'"
  using sendRumor_same
  by (auto simp: startRumorMongering_def Let_def go_simps case_prod_beta split: if_splits)

lemma wakeRumor_same:
  assumes "wakeRumorMongering r c rnd m g = Inr (g', m', out)"
  shows "same_log g g'"
proof -
  let ?g1 = "g\<lparr>gossipHandler := (gossipHandler g)\<lparr>mongeringChannels :=
     deleteListenerForStatus (mg_origin m) (mg_id m) (addr_string (mg_peer m)) (mongeringChannels (gossipHandler g))\<rparr>\<rparr>"
  have "same_log g ?g1" by (simp add: same_log_def)
  moreover have "g' = ?g1 \<or> (\<exists>peer. g' = fst (sendRumorWithTimeout (mg_packet m) (mg_origin m) (mg_id m) peer ?g1))"
    using assms by (auto simp: wakeRumorMongering_def Let_def go_simps case_prod_beta split: if_splits)
  ultimately show ?thesis using sendRumor_same same_log_trans by blast
qed

lemma step_monger:
  assumes "node_inv g" "stored_msg (gossipHandler g) k i = Some (Packet e)"
    "startRumorMongering rnd e k i g = Inr (g', m, out)"
  shows "node_step s g g' (sent_packets out)"
  using startRumorMongering_correct [of rnd e k i g] assms startRumor_same [OF assms(3)]
  by (intro node_step_same) (auto simp: sent_packets_mem split: option.splits)

lemma step_wake:
  assumes "node_inv g" "stored_msg (gossipHandler g) (mg_origin m) (mg_id m) = Some (Packet (mg_packet m))"
    "wakeRumorMongering r c rnd m g = Inr (g', m', out)"
  shows "node_step s g g' (sent_packets out)"
  using wakeRumorMongering_correct [of r c rnd m g] assms wakeRumor_same [OF assms(3)]
  by (intro node_step_same) (auto simp: sent_packets_mem split: option.splits)

lemma step_notify: "node_inv g \<Longrightarrow> node_step s g (run_notifyListeners e g) (sent_packets [])"
  by (intro node_step_same) (auto simp: same_log_def run_notifyListeners_def split: option.split)

lemma step_store_own:
  assumes "node_inv g" "seqID (gossipHandler g) \<noteq> -1"
    "storeMessage p (node_name g) (seqID (gossipHandler g)) ((gossipHandler g)\<lparr>seqID := seqID (gossipHandler g) + 1\<rparr>)
       = Inr (x, gh')"
    "gossip_id p = Some (node_name g, seqID (gossipHandler g))" "gossip_form p"
  shows "node_step s g (g\<lparr>gossipHandler := gh'\<rparr>) {p}"
proof -
  have new: "stored_msg (gossipHandler g) (node_name g) (seqID (gossipHandler g)) = None"
    using assms(1) by (simp add: stored_msg_iff node_inv_def)
  show ?thesis
    using store_own [OF assms(1,2), of p] assms(2-) new by (auto simp: node_step_def)
qed

lemma step_new_rumor:
  assumes "node_inv g" "seqID (gossipHandler g) \<noteq> -1" "createRumorMessage content g = Inr (e, g', out)"
  shows "node_step s g g' {Packet e}"
proof -
  let ?p = "empty_packet\<lparr>Rumor := Some \<lparr>rumor_Origin = node_name g, rumor_ID = seqID (gossipHandler g), rumor_Text = content\<rparr>\<rparr>"
  obtain x gh' where st: "storeMessage ?p (node_name g) (seqID (gossipHandler g))
      ((gossipHandler g)\<lparr>seqID := seqID (gossipHandler g) + 1\<rparr>) = Inr (x, gh')"
    "g' = g\<lparr>gossipHandler := gh'\<rparr>" "Packet e = ?p"
    using assms(3) by (auto simp: createRumorMessage_def Let_def go_simps split: if_splits)
  have "gossip_id ?p = Some (node_name g, seqID (gossipHandler g))" "gossip_form ?p"
    by (simp_all add: gossip_id_def)
  from step_store_own [OF assms(1,2) st(1) this] st(2,3) show ?thesis by simp
qed

lemma step_new_tlc:
  assumes "node_inv g" "seqID (gossipHandler g) \<noteq> -1" "createTLCMessage ord block conf fit g = Inr (e, g')"
  shows "node_step s g g' {Packet e}"
proof -
  let ?p = "empty_packet\<lparr>TLCMessage := Some \<lparr>tlc_Origin = node_name g, tlc_ID = seqID (gossipHandler g),
     tlc_Confirmed = conf, tlc_TxBlock = block,
     tlc_VectorClock = Some (createMyStatusPacket ord (myStatus (gossipHandler g))), tlc_Fitness = fit\<rparr>\<rparr>"
  obtain x gh' where st: "storeMessage ?p (node_name g) (seqID (gossipHandler g))
      ((gossipHandler g)\<lparr>seqID := seqID (gossipHandler g) + 1\<rparr>) = Inr (x, gh')"
    "g' = g\<lparr>gossipHandler := gh'\<rparr>" "Packet e = ?p"
    using assms(3) by (auto simp: createTLCMessage_def Let_def go_simps)
  have "gossip_id ?p = Some (node_name g, seqID (gossipHandler g))" "gossip_form ?p"
    by (simp_all add: gossip_id_def)
  from step_store_own [OF assms(1,2) st(1) this] st(2,3) show ?thesis by simp
qed

lemma step_gossip:
  assumes inv: "net_inv s" and g: "fmlookup (nodes s) a = Some g" and ok: "packet_ok s (Packet e)" and "is_order ord"
  shows "\<exists>g' out. gossip_step ord e g = Inr (g', out) \<and> node_step s g g' (sent_packets out)"
proof (cases "gossip_id (Packet e)")
  case None
  then show ?thesis
    using inv g by (auto simp: gossip_step_def net_inv_def intro!: node_step_same)
next
  case (Some x)
  obtain k i where x: "x = (k, i)" by (cases x)
  have auth: "authentic s k i (Packet e)" using ok Some x by (simp add: packet_ok_def)
  then have i: "i \<noteq> -1" "gossip_form (Packet e)"
    using inv unfolding authentic_def net_inv_def by blast+
  have ni: "node_inv g" using inv g by (auto simp: net_inv_def)
  obtain g' out where h: "handleGossipMessage ord e k i g = Inr (g', out)"
    "gossipHandler g' = (if k = node_name g then gossipHandler g else store_put k i (Packet e) (gossipHandler g))"
    "node_name g' = node_name g" "packets_of out = [(status_of ord (gossipHandler g'), SenderAddr e)]"
    using handleGossipMessage_spec [OF node_inv_log [OF ni] i(1), of ord e k] by blast
  have "node_inv g'"
    using h(2,3) ni node_inv_store [OF ni i(1) _ _ h(3), of k] by (cases "k = node_name g") (auto simp: node_inv_def)
  then have "node_step s g g' (sent_packets out)"
    using h(2-) storeMessage_log(4) [OF node_inv_log [OF ni] i(1)] auth i(2) own_status_ok [OF _ assms(4), of g' s]
    by (auto simp: node_step_def sent_packets_mem status_of_def split: if_splits)
  with h(1) show ?thesis by (auto simp: gossip_step_def Some x)
qed

lemma net_step_inv: "net_step s s' \<Longrightarrow> net_inv s \<Longrightarrow> net_inv s'"
proof (induction rule: net_step.induct)
  case (deliver s a g p sender ord g' out)
  then have "packet_ok s p" by (auto simp: net_inv_def)
  with deliver step_gossip [OF deliver.prems deliver.hyps(1) _ deliver.hyps(3), of "\<lparr>Packet = p, SenderAddr = sender\<rparr>"]
  show ?case by (intro net_inv_step) auto
next
  case (new_rumor s a g content e g' out)
  then have "node_inv g" by (auto simp: net_inv_def)
  moreover have "packets_of out = []" using new_rumor.hyps(3) by (auto simp: createRumorMessage_def Let_def go_simps)
  ultimately show ?case
    by (intro net_inv_step [OF new_rumor.prems new_rumor.hyps(1)] node_step_subset [OF step_new_rumor [OF _ new_rumor.hyps(2,3)]]) simp_all
next
  case (new_tlc s a g ord block conf fit e g')
  then have "node_inv g" by (auto simp: net_inv_def)
  then show ?case
    by (intro net_inv_step [OF new_tlc.prems new_tlc.hyps(1)] node_step_subset [OF step_new_tlc [OF _ new_tlc.hyps(2,3)]]) simp_all
next
  case (status s a g p sender ord ord' g' out)
  then have "node_inv g" by (auto simp: net_inv_def)
  from net_inv_step [OF status.prems status.hyps(1) step_status [OF this status.hyps(4,5)]] show ?case .
next
  case (anti_entropy s a g ord rnd g' out)
  then have "node_inv g" by (auto simp: net_inv_def)
  from net_inv_step [OF anti_entropy.prems anti_entropy.hyps(1) step_anti_entropy [OF this anti_entropy.hyps(2,3)]] show ?case .
next
  case (monger s a g k i e rnd g' m out)
  then have "node_inv g" by (auto simp: net_inv_def)
  from net_inv_step [OF monger.prems monger.hyps(1) step_monger [OF this monger.hyps(2,3)]] show ?case .
next
  case (wake s a g m r c rnd g' m' out)
  then have "node_inv g" by (auto simp: net_inv_def)
  from net_inv_step [OF wake.prems wake.hyps(1) step_wake [OF this wake.hyps(2,3)]] show ?case .
next
  case (notify s a g p sender)
  then have "node_inv g" by (auto simp: net_inv_def)
  from net_inv_step [OF notify.prems notify.hyps(1) step_notify [OF this]] show ?case .
qed

lemma reachable_inv: "reachable s0 s \<Longrightarrow> net_init s0 \<Longrightarrow> net_inv s"
  by (induction rule: reachable.induct) (auto intro: net_init_inv net_step_inv)

text \<open>In a network with this invariant a message is what its origin says it is.\<close>

lemma net_inv_agreement:
  assumes inv: "net_inv s"
    and g: "fmlookup (nodes s) a = Some g" "stored_msg (gossipHandler g) k i = Some p"
  shows "gossip_id p = Some (k, i)
    \<and> (\<exists>b h. fmlookup (nodes s) b = Some h \<and> node_name h = k \<and> stored_msg (gossipHandler h) k i = Some p)
    \<and> (\<forall>b h q. fmlookup (nodes s) b = Some h \<longrightarrow> stored_msg (gossipHandler h) k i = Some q \<longrightarrow> q = p)"
proof -
  have auth: "authentic s k i q" if "fmlookup (nodes s) b = Some h" "stored_msg (gossipHandler h) k i = Some q" for b h q
    using inv that unfolding net_inv_def by blast
  have "q = p" if q: "fmlookup (nodes s) b = Some h" "stored_msg (gossipHandler h) k i = Some q" for b h q
  proof -
    obtain c f d f' where c: "fmlookup (nodes s) c = Some f" "node_name f = k" "stored_msg (gossipHandler f) k i = Some p"
      "fmlookup (nodes s) d = Some f'" "node_name f' = k" "stored_msg (gossipHandler f') k i = Some q"
      using auth [OF g] auth [OF q] unfolding authentic_def by blast
    then have "c = d" using inv unfolding net_inv_def by metis
    with c show ?thesis by simp
  qed
  with auth [OF g] show ?thesis by (auto simp: authentic_def)
qed

text \<open>
  However packets are lost, repeated or reordered, the gossip layer never mixes messages up:
  what any node has stored under an origin and a number is what the node of that name has stored
  under it, so any two nodes that have it have the same message.
\<close>

theorem gossip_agreement:
  assumes "reachable s0 s" and "net_init s0"
    and "fmlookup (nodes s) a = Some g" and "stored_msg (gossipHandler g) k i = Some p"
  shows "gossip_id p = Some (k, i)
    \<and> (\<exists>b h. fmlookup (nodes s) b = Some h \<and> node_name h = k \<and> stored_msg (gossipHandler h) k i = Some p)
    \<and> (\<forall>b h q. fmlookup (nodes s) b = Some h \<longrightarrow> stored_msg (gossipHandler h) k i = Some q \<longrightarrow> q = p)"
  by (rule net_inv_agreement [OF reachable_inv [OF assms(1,2)] assms(3,4)])

text \<open>
  In a reachable state of the network no gossip handler panics or runs for ever on a packet
  that is on the wire: messages and status packets are always handled to the end.
\<close>

theorem network_no_panic:
  assumes "reachable s0 s" and "net_init s0" and "fmlookup (nodes s) a = Some g" and "(p, sender, a) \<in> wire s"
    and "is_order ord" and "is_order ord'"
  shows "(\<exists>r. gossip_step ord \<lparr>Packet = p, SenderAddr = sender\<rparr> g = Inr r)
    \<and> (Status p \<noteq> None \<longrightarrow> (\<exists>r. handlePeerStatus ord ord' \<lparr>Packet = p, SenderAddr = sender\<rparr> g = Inr r))"
proof -
  have inv: "net_inv s" using assms(1,2) by (rule reachable_inv)
  then have ok: "packet_ok s p" and ni: "node_inv g" using assms(3,4) by (auto simp: net_inv_def)
  have "\<exists>r. handlePeerStatus ord ord' \<lparr>Packet = p, SenderAddr = sender\<rparr> g = Inr r" if st: "Status p = Some st" for st
  proof (cases "getPeerStatusForPeer ord (myStatus (gossipHandler g)) (Want st)")
    case None
    with st show ?thesis by (simp add: handlePeerStatus_def Let_def)
  next
    case (Some ps)
    have "gossip_inv (gossipHandler g)" using ni by (simp add: node_inv_def log_inv_def)
    from getPacket_no_panic [OF this assms(5) _ Some] ok st show ?thesis
      by (auto simp: handlePeerStatus_def Let_def Some packet_ok_def)
  qed
  moreover have "\<exists>r. gossip_step ord \<lparr>Packet = p, SenderAddr = sender\<rparr> g = Inr r"
    using step_gossip [OF inv assms(3) _ assms(5), of "\<lparr>Packet = p, SenderAddr = sender\<rparr>"] ok by auto
  ultimately show ?thesis by auto
qed

text \<open>A network of two nodes, and its state after one of them made a rumor.\<close>

definition sample_network :: network where
  "sample_network = \<lparr>nodes = fmupd (sample_addr 2) (sample_node ''B'' 2) (fmupd (sample_addr 1) (sample_node ''A'' 1) fmempty),
     wire = {}\<rparr>"

lemma sample_addr_12 [simp]: "sample_addr 1 \<noteq> sample_addr 2" "sample_addr 2 \<noteq> sample_addr 1"
  by (simp_all add: sample_addr_def)

lemma sample_network_init: "net_init sample_network"
  by (auto simp: net_init_def sample_network_def sample_node_def NewGossiper_def split: if_splits)

lemma sample_network_steps:
  "reachable sample_network (put_on_wire (sample_addr 1) sample_sender [] sample_network)"
proof -
  obtain e g out where r: "createRumorMessage ''hi'' (sample_node ''A'' 1) = Inr (e, g, out)" "packets_of out = []"
    using createRumorMessage_spec [OF sample_node_inv, of "''A''" 1 "''hi''"] by auto
  then have "sample_sender = g" by (simp add: sample_sender_def)
  moreover have "put_on_wire (sample_addr 1) g out sample_network = put_on_wire (sample_addr 1) g [] sample_network"
    using r(2) by (simp add: put_on_wire_def)
  moreover have "fmlookup (nodes sample_network) (sample_addr 1) = Some (sample_node ''A'' 1)"
    by (simp add: sample_network_def sample_addr_def)
  note net_step.new_rumor [OF this _ r(1)]
  ultimately show ?thesis
    by (intro reachable.step [OF reachable.start]) simp
qed

theorem gossip_agreement_witness:
  "\<exists>s g p. reachable sample_network s \<and> net_init sample_network \<and> fmlookup (nodes s) (sample_addr 1) = Some g
     \<and> stored_msg (gossipHandler g) ''A'' 1 = Some p \<and> gossip_id p = Some (''A'', 1)"
proof -
  let ?s = "put_on_wire (sample_addr 1) sample_sender [] sample_network"
  have g: "fmlookup (nodes ?s) (sample_addr 1) = Some sample_sender" by (simp add: put_on_wire_def)
  obtain p where p: "stored_msg (gossipHandler sample_sender) ''A'' 1 = Some p"
    by (simp add: sample_sender_simps)
  from gossip_agreement [OF sample_network_steps sample_network_init g p] g p sample_network_steps
    sample_network_init show ?thesis by blast
qed

theorem network_no_panic_witness:
  "\<exists>s g p r. reachable sample_network s \<and> fmlookup (nodes s) (sample_addr 2) = Some g
     \<and> (p, sample_addr 1, sample_addr 2) \<in> wire s
     \<and> handlePeerStatus sorted_list_of_fset sorted_list_of_fset \<lparr>Packet = p, SenderAddr = sample_addr 1\<rparr> g = Inr r"
proof -
  let ?A = "sample_node ''A'' 1"
  let ?p = "empty_packet\<lparr>Status := Some (createMyStatusPacket sorted_list_of_fset (myStatus (gossipHandler ?A)))\<rparr>"
  let ?s = "put_on_wire (sample_addr 1) ?A [SendPacket ?p (sample_addr 2)] sample_network"
  have "fmlookup (nodes sample_network) (sample_addr 1) = Some ?A"
    by (simp add: sample_network_def sample_addr_def)
  moreover have "startAntiEntropy sorted_list_of_fset 1 ?A = Inr (?A, [SendPacket ?p (sample_addr 2)])"
    by (simp add: startAntiEntropy_def sample_node_def NewGossiper_def initial_config_def GetPeers_def getRandomPeer_def)
  ultimately have "net_step sample_network ?s" by (rule net_step.anti_entropy [OF _ sorted_is_order])
  then have r: "reachable sample_network ?s" by (intro reachable.step [OF reachable.start])
  have "fmlookup (nodes ?s) (sample_addr 2) = Some (sample_node ''B'' 2)"
    by (simp add: put_on_wire_def sample_network_def sample_addr_def)
  moreover have "(?p, sample_addr 1, sample_addr 2) \<in> wire ?s" by (simp add: put_on_wire_def)
  note ex = calculation this
  have "Status ?p \<noteq> None" by simp
  with network_no_panic [OF r sample_network_init ex sorted_is_order sorted_is_order]
  obtain x where "handlePeerStatus sorted_list_of_fset sorted_list_of_fset
      \<lparr>Packet = ?p, SenderAddr = sample_addr 1\<rparr> (sample_node ''B'' 2) = Inr x" by blast
  with r ex show ?thesis by blast
qed

end
