(* ===== verification/Cluster.thy ===== *)
theory Cluster
  imports System Network
begin

text \<open>
  A network of whole nodes: every node is a system of goroutines (\<open>System\<close>), and what their handlers
  send travels on a wire that loses, repeats and reorders packets.  The work that waits in a node
  carries packets too; seen together with the wire, every step is one the invariant of \<open>Network\<close>
  allows.  So the agreement on messages holds for the program as a whole, and between nodes that run
  this program most of what can stop a node does not happen.
\<close>

section \<open>Packets that work carries\<close>

fun carries :: "(gossip_packet \<Rightarrow> bool) \<Rightarrow> stimulus \<Rightarrow> bool" where
  "carries ok (FromChannel chan e) \<longleftrightarrow> ok (Packet e)"
| "carries ok (StatusArrives e) \<longleftrightarrow> ok (Packet e)"
| "carries ok (GossipArrives e origin mid) \<longleftrightarrow> ok (Packet e) \<and> gossip_id (Packet e) = Some (origin, mid)"
| "carries ok (Relays p hop dest) \<longleftrightarrow> ok p"
| "carries ok (Datagram bytes addr) \<longleftrightarrow> False"
| "carries ok _ \<longleftrightarrow> True"

fun job_carries :: "(gossip_packet \<Rightarrow> bool) \<Rightarrow> job \<Rightarrow> bool" where
  "job_carries ok (Reacts s) \<longleftrightarrow> carries ok s"
| "job_carries ok (Mongers e origin mid) \<longleftrightarrow> ok (Packet e)"
| "job_carries ok (Mongering m) \<longleftrightarrow> ok (Packet (mg_packet m))"
| "job_carries ok (Broadcasts e peers) \<longleftrightarrow> ok (Packet e)"
| "job_carries ok (SearchForward e) \<longleftrightarrow> ok (Packet e)"
| "job_carries ok (SearchStart e increment) \<longleftrightarrow> ok (Packet e)"
| "job_carries ok (Searching s) \<longleftrightarrow> ok (Packet (sr_packet s))"
| "job_carries ok (Publishes fm) \<longleftrightarrow> True"
| "job_carries ok (ClientBlock e) \<longleftrightarrow> ok (Packet e)"
| "job_carries ok (Confirming s) \<longleftrightarrow> ok (Packet (cf_packet s))"
| "job_carries ok (InRound (InTlc s)) \<longleftrightarrow> ok (Packet (cf_packet s))"
| "job_carries ok (InRound (InQsc q)) \<longleftrightarrow> ok (Packet (cf_packet (q_confirmer q)))"
| "job_carries ok _ \<longleftrightarrow> True"

lemma job_carries_mono:
  assumes "job_carries ok j" and "\<And>p. ok p \<Longrightarrow> ok' p"
  shows "job_carries ok' j"
proof (cases j)
  case (Reacts s)
  with assms show ?thesis by (cases s) auto
next
  case (InRound r)
  with assms show ?thesis by (cases r) auto
qed (use assms in auto)

text \<open>What effects give away: packets that are sent and the work they leave.\<close>

definition effects_carry :: "(gossip_packet \<Rightarrow> bool) \<Rightarrow> effect list \<Rightarrow> bool" where
  "effects_carry ok out \<longleftrightarrow> list_all ok (map fst (packets_of out)) \<and> list_all (job_carries ok) (jobs_of out)"

lemma effects_carry_simps [simp]:
  "effects_carry ok []"
  "effects_carry ok (SendPacket p a # out) \<longleftrightarrow> ok p \<and> effects_carry ok out"
  "effects_carry ok (Go t # out) \<longleftrightarrow> list_all (job_carries ok) (jobs_of_task t) \<and> effects_carry ok out"
  "effects_carry ok (GoSend v # out) \<longleftrightarrow> list_all (job_carries ok) (jobs_of_send v) \<and> effects_carry ok out"
  "effects_carry ok (Println l # out) \<longleftrightarrow> effects_carry ok out"
  "effects_carry ok (SaveFile f d # out) \<longleftrightarrow> effects_carry ok out"
  "effects_carry ok (CopyFile f f' # out) \<longleftrightarrow> effects_carry ok out"
  "effects_carry ok (xs @ out) \<longleftrightarrow> effects_carry ok xs \<and> effects_carry ok out"
  by (auto simp: effects_carry_def)

lemma effects_carry_sends [simp]: "effects_carry ok (sends ps) \<longleftrightarrow> (\<forall>(p, a) \<in> set ps. ok p)"
  by (auto simp: effects_carry_def list_all_iff)

lemma effects_carry_prints [simp]:
  "effects_carry ok (map Println ls)" "effects_carry ok (printPeers c ps)" "effects_carry ok (printStatusMessage c a want ps)"
  "effects_carry ok (printPeerMessage c e ps)" "effects_carry ok (printClientMessage c m ps)"
  "effects_carry ok (printSearchMatchMessage c k res)" "effects_carry ok (printDownloadMessage f d n)"
  by (simp_all add: effects_carry_def)

lemma effects_carry_results [simp]: "effects_carry ok (map (\<lambda>res. Go (HandleSearchResult k res)) rs)"
  by (induction rs) simp_all

lemma plain_fields:
  "plain_packet (empty_packet\<lparr>Simple := Some a\<rparr>)" "plain_packet (empty_packet\<lparr>Private := Some b\<rparr>)"
  "plain_packet (empty_packet\<lparr>DataRequest := Some c\<rparr>)" "plain_packet (empty_packet\<lparr>DataReply := Some d\<rparr>)"
  "plain_packet (empty_packet\<lparr>SearchRequest := Some f\<rparr>)" "plain_packet (empty_packet\<lparr>SearchReply := Some h\<rparr>)"
  "plain_packet (empty_packet\<lparr>Ack := Some k\<rparr>)"
  by (simp_all add: plain_packet_def gossip_id_def getTypeFromGossip_def)

lemma plain_same_type:
  "getTypeFromGossip p' = getTypeFromGossip p \<Longrightarrow> Rumor p' = Rumor p \<Longrightarrow> TLCMessage p' = TLCMessage p \<Longrightarrow>
     Status p' = Status p \<Longrightarrow> plain_packet p' = plain_packet p"
  by (simp add: plain_packet_def gossip_id_def)

lemma plain_put_hop: "plain_packet (put_hop hop h p) = plain_packet p"
  by (rule plain_same_type) (cases hop; simp add: getTypeFromGossip_def)+

lemma plain_set_budget: "plain_packet (set_budget b p) = plain_packet p"
  by (rule plain_same_type) (simp_all add: set_budget_def getTypeFromGossip_def)

lemma plain_simple: "Simple p = Some m \<Longrightarrow> plain_packet (p\<lparr>Simple := Some m'\<rparr>) = plain_packet p"
  by (rule plain_same_type) (simp_all add: getTypeFromGossip_def)

text \<open>A message a node creates is stored there.\<close>

lemma createRumorMessage_stored:
  assumes "node_inv g" and "seqID (gossipHandler g) \<noteq> -1" and "createRumorMessage t g = Inr (e, g', out)"
  shows "\<exists>k i. stored_msg (gossipHandler g') k i = Some (Packet e)"
proof -
  let ?p = "empty_packet\<lparr>Rumor := Some \<lparr>rumor_Origin = node_name g, rumor_ID = seqID (gossipHandler g), rumor_Text = t\<rparr>\<rparr>"
  obtain x where "Packet e = ?p" "storeMessage ?p (node_name g) (seqID (gossipHandler g))
      ((gossipHandler g)\<lparr>seqID := seqID (gossipHandler g) + 1\<rparr>) = Inr (x, gossipHandler g')"
    using assms(3) by (auto simp: createRumorMessage_def Let_def go_simps)
  then show ?thesis using store_own [OF assms(1,2), of ?p] by fastforce
qed

lemma createTLCMessage_stored:
  assumes "node_inv g" and "seqID (gossipHandler g) \<noteq> -1" and "createTLCMessage ord block conf fit g = Inr (e, g')"
  shows "\<exists>k i. stored_msg (gossipHandler g') k i = Some (Packet e)"
proof -
  let ?p = "empty_packet\<lparr>TLCMessage := Some \<lparr>tlc_Origin = node_name g, tlc_ID = seqID (gossipHandler g),
     tlc_Confirmed = conf, tlc_TxBlock = block,
     tlc_VectorClock = Some (createMyStatusPacket ord (myStatus (gossipHandler g))), tlc_Fitness = fit\<rparr>\<rparr>"
  obtain x where "Packet e = ?p" "storeMessage ?p (node_name g) (seqID (gossipHandler g))
      ((gossipHandler g)\<lparr>seqID := seqID (gossipHandler g) + 1\<rparr>) = Inr (x, gossipHandler g')"
    using assms(3) by (auto simp: createTLCMessage_def Let_def go_simps)
  then show ?thesis using store_own [OF assms(1,2), of ?p] by fastforce
qed

section \<open>What handlers do to the store of messages\<close>

lemma node_step_log: "node_inv g \<Longrightarrow> same_log g g' \<Longrightarrow> node_step s g g' {}"
  by (rule node_step_same) auto

lemma node_step_before: "same_log g h \<Longrightarrow> node_step s h g' ps \<Longrightarrow> node_step s g g' ps"
  using same_log_stored [of g h] by (simp add: node_step_def same_log_def)

lemma node_step_after: "node_step s g h {} \<Longrightarrow> same_log h g' \<Longrightarrow> node_step s g g' {}"
  using same_log_stored [of h g'] same_log_inv [of h g'] by (simp add: node_step_def) (simp add: same_log_def)

lemma gossip_node_step:
  assumes "net_inv s" and "fmlookup (nodes s) a = Some g" and "packet_ok s (Packet e)" and "is_order ord"
    and "gossip_id (Packet e) = Some (origin, mid)" and "handleGossipMessage ord e origin mid g = Inr (g', out)"
  shows "node_step s g g' {}"
  using step_gossip [OF assms(1-4)] assms(5,6) node_step_subset by (fastforce simp: gossip_step_def)

lemma rumor_node_step:
  assumes "node_inv g" and "\<not> exhausted g" and "createRumorMessage t g = Inr (e, g', out)"
  shows "node_step s g g' {}"
  using node_step_subset [OF step_new_rumor [OF assms(1) _ assms(3)]] assms(2) by (simp add: exhausted_def)

lemma tlc_node_step:
  assumes "node_inv g" and "\<not> exhausted g" and "createTLCMessage ord block conf fit g = Inr (e, g')"
  shows "node_step s g g' {}"
  using node_step_subset [OF step_new_tlc [OF assms(1) _ assms(3)]] assms(2) by (simp add: exhausted_def)

lemma same_log_fields [simp]:
  "same_log g (g\<lparr>fileHandler := fh\<rparr>)" "same_log g (g\<lparr>routingHandler := rh\<rparr>)" "same_log g (g\<lparr>blockchainHandler := bh\<rparr>)"
  "same_log g (g\<lparr>statusChannels := sc\<rparr>)" "same_log g (g\<lparr>peersData := ps\<rparr>)"
  by (simp_all add: same_log_def)

lemma tlc_same_log: "handleTLCMessage ord e g = Inr (g', out) \<Longrightarrow> same_log g g'"
  by (cases "TLCMessage (Packet e)")
    (auto simp: handleTLCMessage_def acknowledge_def checkForCausalProperty_def Let_def go_simps same_log_def
      split: if_splits prod.splits)

lemma point_same_log:
  "processTLCMessage e g = Inr (g', out) \<Longrightarrow> same_log g g'"
  "processTLCAck e g = Inr (g', out) \<Longrightarrow> same_log g g'"
  "processSimpleMessages e g = Inr (g', out) \<Longrightarrow> same_log g g'"
  "processStatusMessages e g = Inr (g', out) \<Longrightarrow> same_log g g'"
  "processDataRequest e g = Inr (g', out) \<Longrightarrow> same_log g g'"
  "processDataReply H e g = Inr (g', out) \<Longrightarrow> same_log g g'"
  "processSearchReply e g = Inr (g', out) \<Longrightarrow> same_log g g'"
  "processPrivateMessages e g = Inr (g', out) \<Longrightarrow> same_log g g'"
  "processSearchRequest H rx ord now now' e g = Inr (g', out) \<Longrightarrow> same_log g g'"
  by (auto simp: processTLCMessage_def processTLCAck_def processSimpleMessages_def processStatusMessages_def
      processDataRequest_def processDataReply_def processSearchReply_def processPrivateMessages_def
      processSearchRequest_def Let_def go_simps case_prod_beta split: if_splits option.splits)

lemma loop_node_step:
  assumes "net_inv s" and "fmlookup (nodes s) a = Some g" and "packet_ok s (Packet e)" and "is_order (env_order w)"
    and "on_channel chan (Packet e)" and "run_loop w chan e g = Inr (g', out)"
  shows "node_step s g g' {}"
proof (cases "chan = ''rumor''")
  case True
  then have t: "getTypeFromGossip (Packet e) = ''rumor''" using assms(5) by (auto simp: on_channel_def)
  then obtain r where r: "Rumor (Packet e) = Some r" using gossip_type_fields(2) by blast
  with t have "gossip_id (Packet e) = Some (rumor_Origin r, rumor_ID r)" by (simp add: gossip_id_def)
  with gossip_node_step [OF assms(1-4) this] r True assms(6) show ?thesis
    by (simp add: run_loop_def processRumorMessages_def)
next
  case False
  then have "same_log g g'"
    using assms(6) point_same_log tlc_same_log unfolding run_loop_def by (simp split: if_splits)
  moreover have "node_inv g" using assms(1,2) by (auto simp: net_inv_def)
  ultimately show ?thesis by (rule node_step_log [rotated])
qed

lemma command_node_step:
  assumes "node_inv g" and "\<not> exhausted g" and "processClientMessages H disk ord m g = Inr (g', out)"
  shows "node_step s g g' {}"
proof -
  have "same_log g g' \<or> (\<exists>e out1. createRumorMessage (Text m) g = Inr (e, g', out1))"
    using assms(3)
    by (auto simp: processClientMessages_def Let_def go_simps case_prod_beta split: if_splits)
  then show ?thesis using node_step_log [OF assms(1)] rumor_node_step [OF assms(1,2)] by blast
qed

lemma react_node_step:
  assumes "net_inv s" and "fmlookup (nodes s) a = Some g" and "carries (packet_ok s) st \<or> external st" and "is_order (env_order w)"
    and "possible st" and "\<not> hostile w st g" and "node_react w st g = Inr (g', out)"
  shows "node_step s g g' {}"
proof -
  have inv: "node_inv g" using assms(1,2) by (auto simp: net_inv_def)
  show ?thesis
  proof (cases st)
    case (Datagram bytes addr)
    then show ?thesis using assms(7) node_step_log [OF inv]
      by (cases "env_decode w bytes") (auto simp: receivePacketsFromPeers_def Let_def)
  next
    case (FromChannel chan e)
    then show ?thesis using assms(3,5,7) loop_node_step [OF assms(1,2) _ assms(4)] by simp
  next
    case (FromClient m)
    then show ?thesis using assms(6,7) command_node_step [OF inv] by simp
  next
    case (StatusArrives e)
    then show ?thesis using assms(7) node_step_log [OF inv]
      by (auto simp: handlePeerStatus_def Let_def go_simps split: option.splits if_splits)
  next
    case (GossipArrives e origin mid)
    then show ?thesis using assms(3,7) gossip_node_step [OF assms(1,2) _ assms(4), of e origin mid g' out] by simp
  next
    case (ResultArrives origin res)
    then show ?thesis using assms(7) node_step_log [OF inv] by (auto simp: handleSearchResult_def Let_def split: prod.splits)
  next
    case (Relays p hop dest)
    then show ?thesis using assms(7) node_step_log [OF inv] by (auto simp: go_simps)
  next
    case (Notifies e)
    then show ?thesis using assms(7) node_step_subset [OF step_notify [OF inv]] by auto
  next
    case (AntiEntropyTick rnd)
    then show ?thesis using assms(7) node_step_log [OF inv] by (auto simp: startAntiEntropy_def Let_def go_simps split: if_splits)
  next
    case RouteRumorStart
    then show ?thesis using assms(6,7) node_step_log [OF inv] rumor_node_step [OF inv]
      by (auto simp: routeRumorStart_def go_simps split: if_splits)
  next
    case RouteRumorTick
    then show ?thesis using assms(6,7) rumor_node_step [OF inv] by (auto simp: routeRumorTick_def go_simps)
  qed
qed

lemma confirm_node_step:
  assumes "node_inv g" and "\<not> exhausted g" and "confirm_message ord tlc ws g = Inr (tlc', g', out)"
  shows "node_step s g g' {}"
  using assms(3) tlc_node_step [OF assms(1,2)] by (auto simp: confirm_message_def go_simps)

lemma majority_node_step:
  assumes "node_inv g" and "\<not> exhausted g" and "checkForConfirmationsMajority ord tlc delivered g = Inr (over, g', out)"
  shows "node_step s g g' {}"
proof -
  let ?g1 = "g\<lparr>blockchainHandler := (blockchainHandler g)\<lparr>myTime := round_of g + 1\<rparr>\<rparr>"
  have g1: "node_inv ?g1" "\<not> exhausted ?g1" using assms(1,2) by (simp_all add: exhausted_def)
  have "g' = g \<or> g' = ?g1 \<or> (\<exists>ws t o1. confirm_message ord tlc ws ?g1 = Inr (t, g', o1))"
    using assms(3) by (fastforce simp: checkForConfirmationsMajority_def Let_def go_simps split: option.splits if_splits)
  then show ?thesis
    using node_step_log [OF assms(1), of g'] node_step_before [OF same_log_fields(3) confirm_node_step [OF g1]] by auto
qed

lemma confirm_step_node_step:
  assumes "node_inv g" and "\<not> exhausted g" and "confirmStep ord ev s g = Inr (s', g', out)"
  shows "node_step net g g' {}"
proof (cases ev)
  case (AckArrives ack)
  have "same_log g g' \<or> (\<exists>ws t g1 o1. confirm_message ord (cf_tlc s) ws g = Inr (t, g1, o1) \<and> same_log g1 g')"
    using assms(3) AckArrives by (fastforce simp: Let_def go_simps split: if_splits)
  then show ?thesis
    using node_step_log [OF assms(1)] node_step_after [OF confirm_node_step [OF assms(1,2)]] by blast
next
  case ConfirmNotified
  with assms(3) node_step_log [OF assms(1)] majority_node_step [OF assms(1,2)] show ?thesis
    by (fastforce simp: go_simps split: if_splits)
next
  case StubbornTick
  with assms(3) node_step_log [OF assms(1)] show ?thesis by auto
qed

lemma gossip_confirmation_node_step:
  assumes "node_inv g" and "wait \<longrightarrow> \<not> exhausted g" and "gossipWithConfirmation ord e wait g = Inr (s, g', out)"
  shows "node_step net g g' {}"
proof (cases wait)
  case True
  with assms(3) majority_node_step [OF assms(1)] assms(2) show ?thesis
    by (fastforce simp: gossipWithConfirmation_def Let_def go_simps split: if_splits)
next
  case False
  with assms(3) have "g' = g" by (auto simp: gossipWithConfirmation_def Let_def go_simps split: if_splits)
  then show ?thesis using node_step_log [OF assms(1)] by simp
qed

lemma publish_node_step:
  assumes "node_inv g" and "\<not> exhausted g" and "createAndPublishTxBlock ord fitness fm g = Inr (s, g', out)"
  shows "node_step net g g' {}"
proof -
  let ?block = "\<lparr>PrevHash = previousBlockHash (blockchainHandler g),
    Transaction = \<lparr>tx_Name = FileName fm, tx_Size = FileSize fm, tx_MetafileHash = MetafileHash fm\<rparr>\<rparr>"
  obtain e g1 where e: "createTLCMessage ord ?block (-1) fitness g = Inr (e, g1)"
    using assms(3) by (auto simp: createAndPublishTxBlock_def Let_def go_simps)
  then have "g' = g1"
    using assms(3) by (auto simp: createAndPublishTxBlock_def gossipWithConfirmation_def Let_def go_simps split: if_splits)
  with e show ?thesis using tlc_node_step [OF assms(1,2)] by blast
qed

lemma node_step_trans:
  assumes "node_step s g h {}" and "node_step s h g' {}"
  shows "node_step s g g' {}"
proof -
  have names: "node_name g' = node_name h" "node_name h = node_name g" "node_inv g'" using assms by (simp_all add: node_step_def)
  have keep: "stored_msg (gossipHandler g) k i = Some p \<Longrightarrow> stored_msg (gossipHandler g') k i = Some p" for k i p
    using assms by (simp add: node_step_def)
  have new: "stored_msg (gossipHandler f') k i = Some p \<Longrightarrow> stored_msg (gossipHandler f) k i = Some p \<or>
      gossip_form p \<and> (authentic s k i p \<or> k = node_name f \<and> i \<noteq> -1 \<and> gossip_id p = Some (k, i))"
    if "node_step s f f' {}" for f f' k i p
    using that by (simp add: node_step_def)
  have "stored_msg (gossipHandler g') k i = Some p \<Longrightarrow> stored_msg (gossipHandler g) k i = Some p \<or>
      gossip_form p \<and> (authentic s k i p \<or> k = node_name g \<and> i \<noteq> -1 \<and> gossip_id p = Some (k, i))" for k i p
    using new [OF assms(2), of k i p] new [OF assms(1), of k i p] names(2) by auto
  then show ?thesis using names keep by (simp add: node_step_def)
qed

lemma node_step_stored:
  "node_step s g g' ps \<Longrightarrow> stored_msg (gossipHandler g) k i = Some p \<Longrightarrow> stored_msg (gossipHandler g') k i = Some p"
  by (simp add: node_step_def)

text \<open>What happens between two rounds of the consensus.\<close>

lemma qscAdvance_Suc:
  assumes "qscAdvance H ord (Suc left) r highest g = Inr (q, g', out)" and "node_wf g" and "spare (2 * Suc left) g"
  shows "(q = None \<and> g' = g \<and> (\<exists>l. out = [Println l])) \<or>
    (\<exists>h e g1 cf g2 o2. createTLCMessage ord (tlc_TxBlock h) (-1) (tlc_Fitness h) g = Inr (e, g1) \<and> node_wf g1 \<and> \<not> exhausted g1
      \<and> gossipWithConfirmation ord e True g1 = Inr (cf, g2, o2) \<and> node_wf g2 \<and> spare (2 * left) g2
      \<and> (case cf of
           Some c \<Rightarrow> q = Some \<lparr>q_left = left, q_round = r, q_highest = h, q_confirmer = c\<rparr> \<and> g' = g2 \<and> out = o2
         | None \<Rightarrow> \<exists>o3. qscAdvance H ord left r h g2 = Inr (q, g', o3) \<and> out = o2 @ o3))"
proof (cases "fmlookup (confirmations (blockchainHandler g)) (r + of_nat (1 - left))")
  case None
  with assms(1) show ?thesis by (auto simp: qscNext_def)
next
  case (Some conf)
  let ?h = "getTLCWithHighestFitness ord conf"
  have one: "spare 1 g" using spare_mono [OF assms(3)] by simp
  obtain e g1 tlc where c: "createTLCMessage ord (tlc_TxBlock ?h) (-1) (tlc_Fitness ?h) g = Inr (e, g1)"
    "round_frame 1 g g1" "TLCMessage (Packet e) = Some tlc"
    using own_create_keeps [OF assms(2) one, of ord "tlc_TxBlock ?h" "-1" "tlc_Fitness ?h"] by blast
  have g1: "node_wf g1" "spare (1 + 2 * left) g1"
    using c(2) round_frame_spare [OF c(2), of "1 + 2 * left"] assms(3) by (simp_all add: round_frame_def wf_keeps_def)
  have one1: "spare 1 g1" using spare_mono [OF g1(2)] by simp
  then obtain cf g2 o2 where t: "gossipWithConfirmation ord e True g1 = Inr (cf, g2, o2)" "round_frame 1 g1 g2"
    using gossip_confirmation_keeps [OF g1(1) _ c(3), of True ord] by blast
  have g2: "node_wf g2" "spare (2 * left) g2"
    using t(2) round_frame_spare [OF t(2) g1(2)] by (simp_all add: round_frame_def wf_keeps_def)
  have "case cf of
      Some k \<Rightarrow> q = Some \<lparr>q_left = left, q_round = r, q_highest = ?h, q_confirmer = k\<rparr> \<and> g' = g2 \<and> out = o2
    | None \<Rightarrow> \<exists>o3. qscAdvance H ord left r ?h g2 = Inr (q, g', o3) \<and> out = o2 @ o3"
    using assms(1) Some c(1) t(1) by (cases cf) (auto simp: qscNext_def tlcRound_def Let_def go_simps)
  then show ?thesis using c(1) g1(1) one1 spare_exhausted t(1) g2 by blast
qed

lemma decide_same_log: "qscDecide H ord r highest g = Inr (g', out) \<Longrightarrow> same_log g g'"
  by (auto simp: qscDecide_def Let_def go_simps case_prod_beta split: option.splits)

lemma qscAdvance_node_step:
  assumes "qscAdvance H ord left r highest g = Inr (q, g', out)" and "node_wf g" and "spare (2 * left) g"
  shows "node_step net g g' {}"
  using assms
proof (induction left arbitrary: g highest out)
  case 0
  then show ?case using node_step_log [of g g'] decide_same_log by (fastforce simp: go_simps node_wf_def)
next
  case (Suc left)
  have inv: "node_inv g" "\<not> exhausted g"
    using Suc.prems(2,3) spare_mono [OF Suc.prems(3), of 1] spare_exhausted by (simp_all add: node_wf_def)
  from qscAdvance_Suc [OF Suc.prems] show ?case
  proof (elim disjE exE conjE)
    fix h e g1 cf g2 o2
    assume e: "createTLCMessage ord (tlc_TxBlock h) (-1) (tlc_Fitness h) g = Inr (e, g1)" and g1: "node_wf g1" "\<not> exhausted g1"
      and t: "gossipWithConfirmation ord e True g1 = Inr (cf, g2, o2)" and g2: "node_wf g2" "spare (2 * left) g2"
      and last: "case cf of
           Some c \<Rightarrow> q = Some \<lparr>q_left = left, q_round = r, q_highest = h, q_confirmer = c\<rparr> \<and> g' = g2 \<and> out = o2
         | None \<Rightarrow> \<exists>o3. qscAdvance H ord left r h g2 = Inr (q, g', o3) \<and> out = o2 @ o3"
    have "node_step net g1 g2 {}" using gossip_confirmation_node_step [OF _ _ t] g1 by (simp add: node_wf_def)
    then have step: "node_step net g g2 {}" using node_step_trans tlc_node_step [OF inv e] by blast
    show ?case
    proof (cases cf)
      case None
      with last obtain o3 where "qscAdvance H ord left r h g2 = Inr (q, g', o3)" by auto
      from Suc.IH [OF this g2] step node_step_trans show ?thesis by blast
    next
      case (Some c)
      with last step show ?thesis by simp
    qed
  qed (use node_step_log [OF inv(1)] in simp)
qed

lemma qscAdvance_stored:
  assumes "qscAdvance H ord left r highest g = Inr (q, g', out)" and "node_wf g" and "spare (2 * left) g"
    and "stored_msg (gossipHandler g) k i = Some p"
  shows "stored_msg (gossipHandler g') k i = Some p"
  by (rule node_step_stored [OF qscAdvance_node_step [OF assms(1-3)] assms(4)])

text \<open>A round of the consensus starts, or one of its goroutines takes a step.\<close>

lemma qscRound_start:
  assumes "qscRound H ord e g = Inr (q, g', out)" and "node_wf g" and "spare 5 g" and "TLCMessage (Packet e) \<noteq> None"
  shows "\<exists>cf g1 o1. gossipWithConfirmation ord e True g = Inr (cf, g1, o1) \<and> node_wf g1 \<and> spare (2 * 2) g1
    \<and> (case cf of
         Some c \<Rightarrow> g' = g1 \<and> out = o1 \<and> (\<exists>q'. q = Some q' \<and> q_confirmer q' = c)
       | None \<Rightarrow> \<exists>r o2. qscAdvance H ord 2 r zero_tlc g1 = Inr (q, g', o2) \<and> out = o1 @ o2)"
proof -
  have "spare 1 g" using spare_mono [OF assms(3)] by simp
  then obtain cf g1 o1 where t: "gossipWithConfirmation ord e True g = Inr (cf, g1, o1)" "round_frame 1 g g1"
    using gossip_confirmation_keeps [OF assms(2), of True e _ ord] assms(4) by blast
  have g1: "node_wf g1" "spare (2 * 2) g1"
    using t(2) round_frame_spare [OF t(2), of 4] assms(3) by (simp_all add: round_frame_def wf_keeps_def)
  have "case cf of
      Some c \<Rightarrow> g' = g1 \<and> out = o1 \<and> (\<exists>q'. q = Some q' \<and> q_confirmer q' = c)
    | None \<Rightarrow> \<exists>r o2. qscAdvance H ord 2 r zero_tlc g1 = Inr (q, g', o2) \<and> out = o1 @ o2"
    using assms(1) t(1) by (cases cf) (auto simp: qscRound_def tlcRound_def Let_def go_simps)
  with t(1) g1 show ?thesis by blast
qed

lemma qscStep_parts:
  assumes "qscStep H ord ev q g = Inr (q', g', out)" and "node_wf g" and "spare 5 g" and "q_left q \<le> 2"
  shows "\<exists>cf g1 o1. confirmStep ord ev (q_confirmer q) g = Inr (cf, g1, o1)
    \<and> (case cf of
         Some c \<Rightarrow> q' = Some (q\<lparr>q_confirmer := c\<rparr>) \<and> g' = g1 \<and> out = o1
       | None \<Rightarrow> node_wf g1 \<and> spare (2 * q_left q) g1 \<and>
           (\<exists>o2. qscAdvance H ord (q_left q) (q_round q) (q_highest q) g1 = Inr (q', g', o2) \<and> out = o1 @ o2))"
proof -
  have "spare 1 g" using spare_mono [OF assms(3)] by simp
  then obtain cf g1 o1 where t: "confirmStep ord ev (q_confirmer q) g = Inr (cf, g1, o1)" "wf_keeps g g1" "cf = None \<longrightarrow> round_frame 1 g g1"
    using confirm_step_keeps [OF assms(2)] by blast
  have "spare (2 * q_left q) g1" if "cf = None"
    using round_frame_spare [of 1 g g1 4] spare_mono [of 4 g1 "2 * q_left q"] t(3) that assms(3,4) by simp
  with assms(1) t(1,2) show ?thesis
    by (cases cf) (auto simp: qscStep_def wf_keeps_def go_simps)
qed

lemma qsc_node_step:
  assumes "node_wf g" and "spare 5 g"
  shows "qscRound H ord e g = Inr (q, g', out) \<Longrightarrow> TLCMessage (Packet e) \<noteq> None \<Longrightarrow> node_step net g g' {}"
    and "qscStep H ord ev q0 g = Inr (q, g', out) \<Longrightarrow> q_left q0 \<le> 2 \<Longrightarrow> node_step net g g' {}"
proof -
  have inv: "node_inv g" "\<not> exhausted g"
    using assms spare_mono [OF assms(2), of 1] spare_exhausted by (simp_all add: node_wf_def)
  show "node_step net g g' {}" if q: "qscRound H ord e g = Inr (q, g', out)" "TLCMessage (Packet e) \<noteq> None"
  proof -
    obtain cf g1 o1 where t: "gossipWithConfirmation ord e True g = Inr (cf, g1, o1)" "node_wf g1" "spare (2 * 2) g1"
      "case cf of Some c \<Rightarrow> g' = g1 \<and> out = o1 \<and> (\<exists>q'. q = Some q' \<and> q_confirmer q' = c)
       | None \<Rightarrow> \<exists>r o2. qscAdvance H ord 2 r zero_tlc g1 = Inr (q, g', o2) \<and> out = o1 @ o2"
      using qscRound_start [OF q(1) assms q(2)] by blast
    have "node_step net g g1 {}" using gossip_confirmation_node_step [OF inv(1) _ t(1)] inv(2) by simp
    moreover have "g' = g1 \<or> node_step net g1 g' {}"
      using t(4) qscAdvance_node_step [OF _ t(2,3)] by (cases cf) auto
    ultimately show ?thesis using node_step_trans by blast
  qed
  show "node_step net g g' {}" if q: "qscStep H ord ev q0 g = Inr (q, g', out)" "q_left q0 \<le> 2"
  proof -
    obtain cf g1 o1 where t: "confirmStep ord ev (q_confirmer q0) g = Inr (cf, g1, o1)"
      "case cf of Some c \<Rightarrow> q = Some (q0\<lparr>q_confirmer := c\<rparr>) \<and> g' = g1 \<and> out = o1
       | None \<Rightarrow> node_wf g1 \<and> spare (2 * q_left q0) g1 \<and>
           (\<exists>o2. qscAdvance H ord (q_left q0) (q_round q0) (q_highest q0) g1 = Inr (q, g', o2) \<and> out = o1 @ o2)"
      using qscStep_parts [OF q(1) assms q(2)] by blast
    have "node_step net g g1 {}" using confirm_step_node_step [OF inv t(1)] .
    moreover have "g' = g1 \<or> node_step net g1 g' {}"
      using t(2) qscAdvance_node_step by (cases cf) auto
    ultimately show ?thesis using node_step_trans by blast
  qed
qed

lemma run_node_step:
  assumes "net_inv s" and "fmlookup (nodes s) a = Some g" and "job_carries (packet_ok s) j" and "is_order (env_order w)"
    and "job_sound g j" and "\<not> hostile_job w c j g" and "node_wf g" and "run_job w c j g = Inr (js, g', out)"
    and "is_order (env_order64 w)"
  shows "node_step s g g' {}"
proof -
  have inv: "node_inv g" using assms(1,2) by (auto simp: net_inv_def)
  have download: "node_step s g g' {}" if "is_download j"
    using download_job_frame [OF that assms(9,5,6,8)] node_step_log [OF inv] by (auto simp: file_frame_def)
  show ?thesis
  proof (cases j)
    case (Reacts st)
    then show ?thesis using assms react_node_step [OF assms(1,2) _ assms(4)] by (auto simp: go_simps)
  next
    case (Mongers e origin mid)
    then show ?thesis using assms(8) node_step_log [OF inv] startRumor_same by (fastforce simp: go_simps)
  next
    case (Mongering m)
    then show ?thesis using assms(8) node_step_log [OF inv] wakeRumor_same by (fastforce simp: go_simps)
  next
    case (SearchStart e increment)
    then show ?thesis using assms(8) node_step_log [OF inv] by (auto simp: case_prod_beta Let_def)
  next
    case (Publishes fm)
    then show ?thesis using assms(6,8) publish_node_step [OF inv] by (auto simp: go_simps)
  next
    case (ClientBlock e)
    then have tlc: "TLCMessage (Packet e) \<noteq> None" using assms(5) by simp
    show ?thesis
    proof (cases "hw3ex4Mode (config g)")
      case True
      with ClientBlock assms(6,8) show ?thesis
        using qsc_node_step(1) [OF assms(7) _ _ tlc] by (auto simp: processClientBlocks_def go_simps)
    next
      case False
      with ClientBlock assms(8) obtain cf where "gossipWithConfirmation (env_order w) e True g = Inr (cf, g', out)"
        by (auto simp: processClientBlocks_def tlcRound_def go_simps)
      with False ClientBlock show ?thesis using assms(6) gossip_confirmation_node_step [OF inv] by simp
    qed
  next
    case (Confirming cf)
    then show ?thesis using assms(6,8) confirm_step_node_step [OF inv] by (auto simp: go_simps)
  next
    case (InRound r)
    show ?thesis
    proof (cases r)
      case (InTlc cf)
      with InRound show ?thesis using assms(6,8) confirm_step_node_step [OF inv] by (auto simp: go_simps)
    next
      case (InQsc q)
      with InRound have "q_left q \<le> 2" "spare 5 g" using assms(5,6) by (simp_all add: qsc_ok_def)
      with InRound InQsc assms(8) show ?thesis using qsc_node_step(2) [OF assms(7)] by (auto simp: go_simps)
    qed
  qed (use assms(8) node_step_log [OF inv] download in \<open>auto simp: go_simps\<close>)
qed

section \<open>What handlers give away\<close>

text \<open>
  A property of packets that handlers keep: it holds for packets that are not gossip, and a packet
  that has it is not gossip or is one message and nothing else.
\<close>

locale carrier =
  fixes ok :: "gossip_packet \<Rightarrow> bool"
  assumes plain: "plain_packet p \<Longrightarrow> ok p"
    and form: "ok p \<Longrightarrow> plain_packet p \<or> gossip_form p"
begin

lemma ok_fields [simp]:
  "ok (empty_packet\<lparr>Simple := Some a\<rparr>)" "ok (empty_packet\<lparr>Private := Some b\<rparr>)" "ok (empty_packet\<lparr>DataRequest := Some c\<rparr>)"
  "ok (empty_packet\<lparr>DataReply := Some d\<rparr>)" "ok (empty_packet\<lparr>SearchRequest := Some f\<rparr>)"
  "ok (empty_packet\<lparr>SearchReply := Some h\<rparr>)" "ok (empty_packet\<lparr>Ack := Some k\<rparr>)"
  using plain plain_fields by blast+

lemma ok_put_hop: "ok p \<Longrightarrow> get_hop hop p \<noteq> None \<Longrightarrow> ok (put_hop hop h p)"
  using form [of p] plain [of "put_hop hop h p"] plain_put_hop [of hop h p] by (cases hop) (auto simp: gossip_form_def)

lemma ok_set_budget:
  assumes "ok p"
  shows "ok (set_budget b p)"
proof (cases "plain_packet p")
  case True
  then show ?thesis using plain plain_set_budget by blast
next
  case False
  then have "gossip_form p" using form assms by blast
  then have "set_budget b p = p" by (auto simp: gossip_form_def set_budget_def)
  with assms show ?thesis by simp
qed

lemma ok_simple: "ok p \<Longrightarrow> Simple p = Some m \<Longrightarrow> ok (p\<lparr>Simple := Some m'\<rparr>)"
  using form [of p] plain [of "p\<lparr>Simple := Some m'\<rparr>"] plain_simple [of p m m'] by (auto simp: gossip_form_def)

lemma ok_status: "node_inv g \<Longrightarrow> is_order ord \<Longrightarrow> ok (empty_packet\<lparr>Status := Some (createMyStatusPacket ord (myStatus (gossipHandler g)))\<rparr>)"
  using clock_not_zero [of g ord] by (intro plain) (simp add: plain_packet_def gossip_id_def)

lemma ok_status_of: "node_inv g \<Longrightarrow> is_order ord \<Longrightarrow> ok (status_of ord (gossipHandler g))"
  using ok_status by (simp add: status_of_def)

lemma forward_loop_ok: "ok p \<Longrightarrow> \<forall>(q, a) \<in> set (forward_loop rnd i peers chosen each share p). ok q"
proof (induction rnd i peers chosen each share p rule: forward_loop.induct)
  case (1 rnd i peers chosen each share p)
  show ?case
  proof (cases "getRandomPeer (rnd i) (DifferenceString peers chosen)")
    case (Inl x)
    then show ?thesis by (subst forward_loop.simps) (simp add: Let_def)
  next
    case (Inr a)
    then show ?thesis
      using 1(1) [OF refl _ _ Inr refl _ refl] ok_set_budget [OF 1(2)]
      by (subst forward_loop.simps) (cases "0 < share"; auto simp: Let_def)
  qed
qed

lemma search_forward_carries: "ok (Packet e) \<Longrightarrow> effects_carry ok (forwardSearchRequestWithBudget rnd e g)"
  using forward_loop_ok by (auto simp: forwardSearchRequestWithBudget_def Let_def split: option.split)

lemma rumor_carries: "createRumorMessage t g = Inr (e, g', out) \<Longrightarrow> effects_carry ok out"
  by (auto simp: createRumorMessage_def Let_def go_simps)

lemma gossip_carries:
  assumes "handleGossipMessage ord e origin mid g = Inr (g', out)" and "ok (Packet e)" and "node_inv g'" and "is_order ord"
  shows "effects_carry ok out"
  using assms(1,2) ok_status [OF assms(3,4)]
  by (auto simp: handleGossipMessage_def Let_def go_simps split: if_splits prod.splits)

lemma tlc_carries:
  assumes "handleTLCMessage ord e g = Inr (g', out)" and "ok (Packet e)" and "node_inv g" and "is_order ord"
  shows "effects_carry ok out"
proof -
  have "effects_carry ok o1 \<and> gossipHandler h' = gossipHandler h" if "acknowledge tlc r h = Inr (h', o1)" for tlc r h h' o1
    using that by (auto simp: acknowledge_def Let_def go_simps ack_packet_def split: if_splits)
  moreover have "effects_carry ok o2"
    if "checkForCausalProperty ord k vc i a h = Inr (b, h', o2)" "gossipHandler h = gossipHandler g" for k vc i a h b h' o2
    using that ok_status_of [OF assms(3,4)] by (auto simp: checkForCausalProperty_def go_simps split: if_splits)
  moreover obtain tlc r bh where "TLCMessage (Packet e) = Some tlc"
    "getMessageOriginalRound (tlc_Origin tlc) (tlc_ID tlc) (tlc_Confirmed tlc) (blockchainHandler g) = (r, bh)"
    using assms(1) by (cases "TLCMessage (Packet e)") (simp_all add: handleTLCMessage_def, metis surj_pair)
  ultimately show ?thesis
    using assms(1,2) by (fastforce simp: handleTLCMessage_def Let_def go_simps split: if_splits)
qed

lemma point_carries:
  assumes "ok (Packet e)"
  shows "processTLCAck e g = Inr (g', out) \<Longrightarrow> effects_carry ok out"
    "processSimpleMessages e g = Inr (g', out) \<Longrightarrow> effects_carry ok out"
    "processStatusMessages e g = Inr (g', out) \<Longrightarrow> effects_carry ok out"
    "processDataRequest e g = Inr (g', out) \<Longrightarrow> effects_carry ok out"
    "processDataReply H e g = Inr (g', out) \<Longrightarrow> effects_carry ok out"
  using assms ok_simple [OF assms]
  by (auto simp: processTLCAck_def processSimpleMessages_def processStatusMessages_def
      processDataRequest_def processDataReply_def Let_def go_simps split: if_splits option.splits)

lemma search_reply_carries: "processSearchReply e g = Inr (g', out) \<Longrightarrow> ok (Packet e) \<Longrightarrow> effects_carry ok out"
  by (auto simp: processSearchReply_def go_simps split: if_splits)

lemma private_carries:
  assumes "processPrivateMessages e g = Inr (g', out)" and "ok (Packet e)"
  shows "effects_carry ok out"
proof -
  obtain p where p: "Private (Packet e) = Some p" using assms by (auto simp: processPrivateMessages_def go_simps)
  obtain rh ls where "updateRoutingTable (config g) (priv_Destination p) (priv_Text p) (priv_ID p) (SenderAddr e) (routingHandler g) = (rh, ls)"
    by fastforce
  with assms p show ?thesis by (auto simp: processPrivateMessages_def Let_def split: if_splits)
qed

lemma search_request_carries:
  assumes "processSearchRequest H rx ord now now' e g = Inr (g', out)" and "ok (Packet e)"
  shows "effects_carry ok out"
proof -
  obtain r where r: "SearchRequest (Packet e) = Some r" using assms by (auto simp: processSearchRequest_def go_simps)
  then have "plain_packet (Packet e)" using form [OF assms(2)] by (auto simp: gossip_form_def)
  then have "plain_packet ((Packet e)\<lparr>SearchRequest := Some r'\<rparr>)" for r'
    using plain_same_type [of "(Packet e)\<lparr>SearchRequest := Some r'\<rparr>" "Packet e"] r by (simp add: getTypeFromGossip_def)
  then have "ok ((Packet e)\<lparr>SearchRequest := Some r'\<rparr>)" for r' using plain by blast
  moreover obtain recent r1 fh where "isRecentSearchRequest H now now' r (fileHandler g) = (recent, r1, fh)"
    by (cases "isRecentSearchRequest H now now' r (fileHandler g)") auto
  ultimately show ?thesis using assms r by (cases recent) (auto simp: processSearchRequest_def Let_def)
qed

lemma loop_carries:
  assumes "run_loop w chan e g = Inr (g', out)" and "ok (Packet e)" and "on_channel chan (Packet e)" and "node_inv g" and "node_inv g'"
    and "is_order (env_order w)"
  shows "effects_carry ok out"
proof -
  have "effects_carry ok o1" if "processTLCMessage e g = Inr (h, o1)" "chan = ''tlcMes''" for h o1
    using that assms(2,3) by (auto simp: processTLCMessage_def Let_def go_simps on_channel_def gossip_id_def)
  moreover have "effects_carry ok o1" if "processRumorMessages (env_order w) e g = Inr (g', o1)" for o1
    using that gossip_carries [OF _ assms(2,5,6)] by (auto simp: processRumorMessages_def go_simps)
  ultimately show ?thesis
    using assms(1) point_carries [OF assms(2)] search_reply_carries [OF _ assms(2)] private_carries [OF _ assms(2)]
      search_request_carries [OF _ assms(2)] tlc_carries [OF _ assms(2,4,6)] unfolding run_loop_def
    by (simp split: if_splits)
qed

lemma indexed_carries [simp]: "effects_carry ok (snd (indexFile H disk c f fh))"
  by (auto simp: indexFile_def Let_def split: sum.split prod.split)

lemma command_carries:
  assumes "processClientMessages H disk ord m g = Inr (g', out)"
    and "\<And>k i p. stored_msg (gossipHandler g') k i = Some p \<Longrightarrow> ok p" and "node_inv g" and "seqID (gossipHandler g) \<noteq> -1"
  shows "effects_carry ok out"
proof (cases "getTypeFromMessage (config g) m = ''file''")
  case True
  then obtain f where "File m = Some f" using getTypeFromMessage_fields(2) by blast
  with True have "out = snd (indexFile H disk (config g) f (fileHandler g))"
    using assms(1) by (auto simp: processClientMessages_def Let_def case_prod_beta)
  then show ?thesis by simp
next
  case False
  have "ok (Packet e)" if "createRumorMessage (Text m) g = Inr (e, g', o1)" for e o1
    using createRumorMessage_stored [OF assms(3,4) that] assms(2) by blast
  then show ?thesis
    using assms(1) False by (auto simp: processClientMessages_def Let_def go_simps split: if_splits dest: rumor_carries)
qed

lemma status_carries:
  assumes "handlePeerStatus ord ord' e g = Inr (g', out)" and "ok (Packet e)" and "node_inv g" and "is_order ord'"
    and "\<And>k i p. stored_msg (gossipHandler g) k i = Some p \<Longrightarrow> ok p"
  shows "effects_carry ok out"
proof -
  have "ok p" if "getPacketFromPeerStatus (messageStorage (gossipHandler g)) ps = Inr p" for ps p
    using that assms(5) [of "Identifier ps" "NextID ps" p]
    by (auto simp: getPacketFromPeerStatus_def stored_msg_def go_simps split: option.splits)
  then show ?thesis
    using assms(1,2) ok_status [OF assms(3,4)]
    by (auto simp: handlePeerStatus_def Let_def go_simps split: option.splits if_splits)
qed

lemma relay_carries:
  assumes "forwardPrivateMessage rh hop dest p = Inr (p', ps)" and "ok p"
  shows "effects_carry ok (sends ps)"
proof -
  obtain h where "get_hop hop p = Some h" using assms(1) by (auto simp: forwardPrivateMessage_def go_simps)
  then show ?thesis
    using assms ok_put_hop [OF assms(2), of hop] by (auto simp: forwardPrivateMessage_def Let_def split: if_splits option.splits)
qed

lemma anti_entropy_carries:
  assumes "startAntiEntropy ord rnd g = Inr (g', out)" and "node_inv g" and "is_order ord"
  shows "effects_carry ok out"
  using assms(1) ok_status [OF assms(2,3)] by (auto simp: startAntiEntropy_def Let_def go_simps split: if_splits)

lemma broadcast_carries: "ok (Packet e) \<Longrightarrow> effects_carry ok (broadcastToPeers e ps)"
  by (auto simp: broadcastToPeers_def)

lemma route_rumor_carries:
  assumes "routeRumorStart g = Inr (g', out) \<or> routeRumorTick g = Inr (g', out)"
    and "\<And>k i p. stored_msg (gossipHandler g') k i = Some p \<Longrightarrow> ok p" and "node_inv g" and "seqID (gossipHandler g) \<noteq> -1"
  shows "effects_carry ok out"
proof -
  have "ok (Packet e)" if "createRumorMessage [] g = Inr (e, g', o1)" for e o1
    using createRumorMessage_stored [OF assms(3,4) that] assms(2) by blast
  then show ?thesis
    using assms(1) by (auto simp: routeRumorStart_def routeRumorTick_def go_simps split: if_splits dest: rumor_carries)
qed

lemma datagram_carries:
  assumes "node_react w (Datagram bytes addr) g = Inr (g', out)" and "ok (fst (env_decode w bytes))"
  shows "effects_carry ok out"
proof -
  obtain p err where "env_decode w bytes = (p, err)" by fastforce
  with assms show ?thesis
    by (auto simp: receivePacketsFromPeers_def Let_def split: option.splits if_splits)
qed

lemma react_carries:
  assumes "node_react w s g = Inr (g', out)" and "carries ok s" and "possible s" and "\<not> hostile w s g"
    and inv: "node_inv g" "node_inv g'" "is_order (env_order w)"
    and stored: "\<And>k i p. stored_msg (gossipHandler g') k i = Some p \<Longrightarrow> ok p"
  shows "effects_carry ok out"
proof (cases s)
  case (FromChannel chan e)
  then show ?thesis using assms(1-3) loop_carries inv by simp
next
  case (FromClient m)
  then show ?thesis using assms(1,4) command_carries [OF _ stored inv(1)] by (simp add: exhausted_def)
next
  case (StatusArrives e)
  then have "g' = g" using assms(1) by (auto simp: handlePeerStatus_def Let_def go_simps split: option.splits if_splits)
  with StatusArrives show ?thesis using assms(1,2) status_carries [OF _ _ inv(1,3)] stored by simp
next
  case (GossipArrives e origin mid)
  then show ?thesis using assms(1,2) gossip_carries inv by simp
next
  case (ResultArrives origin res)
  then show ?thesis using assms(1) by (auto simp: handleSearchResult_def Let_def split: prod.splits if_splits)
next
  case (Relays p hop dest)
  then show ?thesis using assms(1,2) relay_carries by (auto simp: go_simps)
next
  case (AntiEntropyTick rnd)
  then show ?thesis using assms(1) anti_entropy_carries inv by simp
next
  case RouteRumorStart
  then show ?thesis using assms(1,4) route_rumor_carries [of g g' out] stored inv(1) by (auto simp: exhausted_def)
next
  case RouteRumorTick
  then show ?thesis using assms(1,4) route_rumor_carries [of g g' out] stored inv(1) by (auto simp: exhausted_def)
qed (use assms(1,2) in auto)

lemma monger_carries:
  assumes "startRumorMongering rnd e origin mid g = Inr (g', m, out)" and "ok (Packet e)"
  shows "effects_carry ok out \<and> (\<forall>m'. m = Some m' \<longrightarrow> ok (Packet (mg_packet m')))"
  using assms
  by (auto simp: startRumorMongering_def sendRumorWithTimeout_def Let_def go_simps split: if_splits)

lemma wake_carries:
  assumes "wakeRumorMongering r c rnd m g = Inr (g', m', out)" and "ok (Packet (mg_packet m))"
  shows "effects_carry ok out \<and> (\<forall>m''. m' = Some m'' \<longrightarrow> ok (Packet (mg_packet m'')))"
  using assms
  by (auto simp: wakeRumorMongering_def sendRumorWithTimeout_def Let_def go_simps split: if_splits)

lemma search_carries:
  "ok (Packet e) \<Longrightarrow> searchFilesWithTimeout rnd e increment g = (s, out) \<Longrightarrow>
     effects_carry ok out \<and> (\<forall>s'. s = Some s' \<longrightarrow> ok (Packet (sr_packet s')))"
  "ok (Packet (sr_packet s0)) \<Longrightarrow> searchTick rx ord rnd s0 g = Inr (s, out) \<Longrightarrow>
     effects_carry ok out \<and> (\<forall>s'. s = Some s' \<longrightarrow> ok (Packet (sr_packet s')))"
proof -
  assume e: "ok (Packet e)"
  then have "ok (Packet (with_budget b e))" for b by (simp add: with_budget_def ok_set_budget)
  then show "searchFilesWithTimeout rnd e increment g = (s, out) \<Longrightarrow>
      effects_carry ok out \<and> (\<forall>s'. s = Some s' \<longrightarrow> ok (Packet (sr_packet s')))"
    by (auto simp: searchFilesWithTimeout_def Let_def search_forward_carries split: option.splits if_splits)
next
  assume e: "ok (Packet (sr_packet s0))"
  then have "ok (Packet (with_budget b (sr_packet s0)))" for b by (simp add: with_budget_def ok_set_budget)
  then show "searchTick rx ord rnd s0 g = Inr (s, out) \<Longrightarrow>
      effects_carry ok out \<and> (\<forall>s'. s = Some s' \<longrightarrow> ok (Packet (sr_packet s')))"
    by (auto simp: searchTick_def Let_def search_forward_carries go_simps split: if_splits)
qed

lemma confirmation_carries [simp]: "effects_carry ok (sendGossipWithConfirmation ord c e tlc ws) \<longleftrightarrow> ok (Packet e)"
  by (simp add: sendGossipWithConfirmation_def printConfirmMessage_def Let_def)

lemma round_printed_carries [simp]: "effects_carry ok (printRoundMessage ord c rnd conf)"
  by (simp add: printRoundMessage_def Let_def)

lemma confirm_carries:
  assumes "confirm_message ord tlc ws g = Inr (tlc', g', out)" and "node_inv g" and "\<not> exhausted g"
    and "\<And>k i p. stored_msg (gossipHandler g') k i = Some p \<Longrightarrow> ok p"
  shows "effects_carry ok out"
proof -
  obtain e where e: "createTLCMessage ord (tlc_TxBlock tlc) (int (unat (tlc_ID tlc))) (tlc_Fitness tlc) g = Inr (e, g')"
    "out = sendGossipWithConfirmation ord (config g) e tlc' ws"
    using assms(1) by (auto simp: confirm_message_def go_simps)
  have "ok (Packet e)" using createTLCMessage_stored [OF assms(2) _ e(1)] assms(3,4) by (auto simp: exhausted_def)
  with e(2) show ?thesis by simp
qed

lemma majority_carries:
  assumes "checkForConfirmationsMajority ord tlc delivered g = Inr (over, g', out)" and "node_inv g" and "\<not> exhausted g"
    and "\<And>k i p. stored_msg (gossipHandler g') k i = Some p \<Longrightarrow> ok p"
  shows "effects_carry ok out"
proof -
  let ?g1 = "g\<lparr>blockchainHandler := (blockchainHandler g)\<lparr>myTime := round_of g + 1\<rparr>\<rparr>"
  have "node_inv ?g1" "\<not> exhausted ?g1" using assms(2,3) by (simp_all add: exhausted_def)
  then show ?thesis
    using assms(1) confirm_carries [of ord tlc _ ?g1] assms(4)
    by (auto simp: checkForConfirmationsMajority_def Let_def go_simps split: option.splits if_splits)
qed

lemma gossip_confirmation_carries:
  assumes "gossipWithConfirmation ord e wait g = Inr (s, g', out)" and "ok (Packet e)" and "node_inv g" and "wait \<longrightarrow> \<not> exhausted g"
    and "\<And>k i p. stored_msg (gossipHandler g') k i = Some p \<Longrightarrow> ok p"
  shows "effects_carry ok out \<and> (\<forall>s'. s = Some s' \<longrightarrow> ok (Packet (cf_packet s')))"
  using assms majority_carries [OF _ assms(3)]
  by (cases wait) (auto simp: gossipWithConfirmation_def Let_def go_simps split: if_splits)

lemma confirm_step_carries:
  assumes "confirmStep ord ev s g = Inr (s', g', out)" and "ok (Packet (cf_packet s))" and "node_inv g" and "\<not> exhausted g"
    and stored: "\<And>k i p. stored_msg (gossipHandler g') k i = Some p \<Longrightarrow> ok p"
  shows "effects_carry ok out \<and> (\<forall>s''. s' = Some s'' \<longrightarrow> ok (Packet (cf_packet s'')))"
proof (cases ev)
  case (AckArrives ack)
  have "effects_carry ok o1"
    if "confirm_message ord (cf_tlc s) ws g = Inr (t, g1, o1)" "gossipHandler g' = gossipHandler g1" for ws t g1 o1
    using confirm_carries [OF that(1) assms(3,4)] stored that(2) by simp
  with assms(1,2) AckArrives show ?thesis by (fastforce simp: Let_def go_simps split: if_splits)
next
  case ConfirmNotified
  with assms(1,2) majority_carries [OF _ assms(3,4) stored] show ?thesis by (auto simp: go_simps split: if_splits)
next
  case StubbornTick
  with assms(1,2) show ?thesis by auto
qed

lemma publish_carries:
  assumes "createAndPublishTxBlock ord fitness fm g = Inr (s, g', out)" and "node_inv g" and "\<not> exhausted g"
    and stored: "\<And>k i p. stored_msg (gossipHandler g') k i = Some p \<Longrightarrow> ok p"
  shows "effects_carry ok out \<and> (\<forall>s'. s = Some s' \<longrightarrow> ok (Packet (cf_packet s')))"
proof -
  let ?block = "\<lparr>PrevHash = previousBlockHash (blockchainHandler g),
    Transaction = \<lparr>tx_Name = FileName fm, tx_Size = FileSize fm, tx_MetafileHash = MetafileHash fm\<rparr>\<rparr>"
  obtain e g1 where e: "createTLCMessage ord ?block (-1) fitness g = Inr (e, g1)"
    using assms(1) by (auto simp: createAndPublishTxBlock_def Let_def go_simps)
  have "seqID (gossipHandler g) \<noteq> -1" using assms(3) by (simp add: exhausted_def)
  note created = createTLCMessage_stored [OF assms(2) this e] createTLCMessage_spec [OF assms(2) this, of ord ?block "-1" fitness]
  have "gossipHandler g' = gossipHandler g1"
    using assms(1) e
    by (auto simp: createAndPublishTxBlock_def gossipWithConfirmation_def Let_def go_simps split: if_splits)
  then have "ok (Packet e)" using created(1) stored by auto
  with created(2) assms(1) e stored show ?thesis
    by (auto simp: createAndPublishTxBlock_def Let_def split: if_splits dest!: gossip_confirmation_carries)
qed

text \<open>The rounds of the consensus.\<close>

lemma decide_carries: "qscDecide H ord r highest g = Inr (g', out) \<Longrightarrow> effects_carry ok out"
  by (auto simp: qscDecide_def printConsensusMessage_def Let_def go_simps case_prod_beta split: option.splits)

lemma qscAdvance_carries:
  assumes "qscAdvance H ord left r highest g = Inr (q, g', out)" and "node_wf g" and "spare (2 * left) g"
    and stored: "\<And>k i p. stored_msg (gossipHandler g') k i = Some p \<Longrightarrow> ok p"
  shows "effects_carry ok out \<and> (\<forall>q'. q = Some q' \<longrightarrow> ok (Packet (cf_packet (q_confirmer q'))))"
  using assms(1-3)
proof (induction left arbitrary: g highest out)
  case 0
  then show ?case using decide_carries by (auto simp: go_simps)
next
  case (Suc left)
  have inv: "node_inv g" "seqID (gossipHandler g) \<noteq> -1"
    using Suc.prems(2,3) spare_mono [OF Suc.prems(3), of 1] spare_exhausted [of g] by (simp_all add: node_wf_def exhausted_def)
  from qscAdvance_Suc [OF Suc.prems] show ?case
  proof (elim disjE exE conjE)
    fix h e g1 cf g2 o2
    assume e: "createTLCMessage ord (tlc_TxBlock h) (-1) (tlc_Fitness h) g = Inr (e, g1)" and g1: "node_wf g1" "\<not> exhausted g1"
      and t: "gossipWithConfirmation ord e True g1 = Inr (cf, g2, o2)" and g2: "node_wf g2" "spare (2 * left) g2"
      and last: "case cf of
           Some c \<Rightarrow> q = Some \<lparr>q_left = left, q_round = r, q_highest = h, q_confirmer = c\<rparr> \<and> g' = g2 \<and> out = o2
         | None \<Rightarrow> \<exists>o3. qscAdvance H ord left r h g2 = Inr (q, g', o3) \<and> out = o2 @ o3"
    have step12: "node_step net g1 g2 {}" for net using gossip_confirmation_node_step [OF _ _ t] g1 by (simp add: node_wf_def)
    have "stored_msg (gossipHandler g2) k i = Some p \<Longrightarrow> stored_msg (gossipHandler g') k i = Some p" for k i p
      using last qscAdvance_stored [OF _ g2] by (cases cf) auto
    then have s2: "\<And>k i p. stored_msg (gossipHandler g2) k i = Some p \<Longrightarrow> ok p" using stored by blast
    obtain k i where "stored_msg (gossipHandler g1) k i = Some (Packet e)" using createTLCMessage_stored [OF inv e] by blast
    then have "ok (Packet e)" using s2 node_step_stored [OF step12] by blast
    from gossip_confirmation_carries [OF t this _ _ s2] g1
    have o2: "effects_carry ok o2" "\<And>c. cf = Some c \<Longrightarrow> ok (Packet (cf_packet c))" by (simp_all add: node_wf_def)
    show ?case
    proof (cases cf)
      case None
      with last obtain o3 where o3: "qscAdvance H ord left r h g2 = Inr (q, g', o3)" "out = o2 @ o3" by auto
      from Suc.IH [OF o3(1) g2] o2(1) o3(2) show ?thesis by simp
    next
      case (Some c)
      with last o2 show ?thesis by simp
    qed
  qed auto
qed

lemma qscRound_carries:
  assumes "qscRound H ord e g = Inr (q, g', out)" and "node_wf g" and "spare 5 g" and "ok (Packet e)" and "TLCMessage (Packet e) \<noteq> None"
    and stored: "\<And>k i p. stored_msg (gossipHandler g') k i = Some p \<Longrightarrow> ok p"
  shows "effects_carry ok out \<and> (\<forall>q'. q = Some q' \<longrightarrow> ok (Packet (cf_packet (q_confirmer q'))))"
proof -
  have inv: "node_inv g" "\<not> exhausted g"
    using assms(2) spare_mono [OF assms(3), of 1] spare_exhausted by (simp_all add: node_wf_def)
  obtain cf g1 o1 where t: "gossipWithConfirmation ord e True g = Inr (cf, g1, o1)" "node_wf g1" "spare (2 * 2) g1"
    "case cf of Some c \<Rightarrow> g' = g1 \<and> out = o1 \<and> (\<exists>q'. q = Some q' \<and> q_confirmer q' = c)
     | None \<Rightarrow> \<exists>r o2. qscAdvance H ord 2 r zero_tlc g1 = Inr (q, g', o2) \<and> out = o1 @ o2"
    using qscRound_start [OF assms(1-3,5)] by blast
  have "stored_msg (gossipHandler g1) k i = Some p \<Longrightarrow> stored_msg (gossipHandler g') k i = Some p" for k i p
    using t(4) qscAdvance_stored [OF _ t(2,3)] by (cases cf) auto
  then have "\<And>k i p. stored_msg (gossipHandler g1) k i = Some p \<Longrightarrow> ok p" using stored by blast
  from gossip_confirmation_carries [OF t(1) assms(4) inv(1) _ this] inv(2)
  have o1: "effects_carry ok o1" "\<And>c. cf = Some c \<Longrightarrow> ok (Packet (cf_packet c))" by simp_all
  show ?thesis
  proof (cases cf)
    case None
    with t(4) obtain r o2 where o2: "qscAdvance H ord 2 r zero_tlc g1 = Inr (q, g', o2)" "out = o1 @ o2" by auto
    from qscAdvance_carries [OF o2(1) t(2,3) stored] o1(1) o2(2) show ?thesis by simp
  next
    case (Some c)
    with t(4) o1 show ?thesis by auto
  qed
qed

lemma qscStep_carries:
  assumes "qscStep H ord ev q g = Inr (q', g', out)" and "node_wf g" and "spare 5 g" and "q_left q \<le> 2"
    and "ok (Packet (cf_packet (q_confirmer q)))" and stored: "\<And>k i p. stored_msg (gossipHandler g') k i = Some p \<Longrightarrow> ok p"
  shows "effects_carry ok out \<and> (\<forall>q''. q' = Some q'' \<longrightarrow> ok (Packet (cf_packet (q_confirmer q''))))"
proof -
  have inv: "node_inv g" "\<not> exhausted g"
    using assms(2) spare_mono [OF assms(3), of 1] spare_exhausted by (simp_all add: node_wf_def)
  obtain cf g1 o1 where t: "confirmStep ord ev (q_confirmer q) g = Inr (cf, g1, o1)"
    "case cf of Some c \<Rightarrow> q' = Some (q\<lparr>q_confirmer := c\<rparr>) \<and> g' = g1 \<and> out = o1
     | None \<Rightarrow> node_wf g1 \<and> spare (2 * q_left q) g1 \<and>
         (\<exists>o2. qscAdvance H ord (q_left q) (q_round q) (q_highest q) g1 = Inr (q', g', o2) \<and> out = o1 @ o2)"
    using qscStep_parts [OF assms(1-4)] by blast
  have "stored_msg (gossipHandler g1) k i = Some p \<Longrightarrow> stored_msg (gossipHandler g') k i = Some p" for k i p
    using t(2) qscAdvance_stored by (cases cf) auto
  then have "\<And>k i p. stored_msg (gossipHandler g1) k i = Some p \<Longrightarrow> ok p" using stored by blast
  from confirm_step_carries [OF t(1) assms(5) inv this]
  have o1: "effects_carry ok o1" "\<And>c. cf = Some c \<Longrightarrow> ok (Packet (cf_packet c))" by simp_all
  show ?thesis
  proof (cases cf)
    case None
    with t(2) obtain o2 where g1: "node_wf g1" "spare (2 * q_left q) g1"
      and o2: "qscAdvance H ord (q_left q) (q_round q) (q_highest q) g1 = Inr (q', g', o2)" "out = o1 @ o2" by auto
    from qscAdvance_carries [OF o2(1) g1 stored] o1(1) o2(2) show ?thesis by simp
  next
    case (Some c)
    with t(2) o1 show ?thesis by auto
  qed
qed

lemma download_carries: "list_all download_effect out \<Longrightarrow> effects_carry ok out"
proof (induction out)
  case (Cons e out)
  then show ?case using ok_fields(3) by (cases e) (auto simp: is_request_def)
qed simp

text \<open>One run of a piece of work: what it turns into and what it gives away.\<close>

lemma other_run_carries:
  assumes "run_job w c j g = Inr (js, g', out)" and "job_carries ok j" and "job_sound g j" and "\<not> hostile_job w c j g"
    and "node_wf g" and inv: "node_inv g" "node_inv g'" "is_order (env_order w)"
    and stored: "\<And>k i p. stored_msg (gossipHandler g') k i = Some p \<Longrightarrow> ok p" and "\<not> is_download j"
  shows "list_all (job_carries ok) js \<and> effects_carry ok out"
proof (cases j)
  case (Reacts st)
  then have r: "js = []" "node_react w st g = Inr (g', out)" using assms(1) by (auto simp: go_simps)
  then show ?thesis using react_carries [OF r(2)] stored assms(2-4) inv Reacts by auto
next
  case (Mongers e origin mid)
  then show ?thesis using assms(1,2) by (fastforce simp: go_simps split: option.splits dest: monger_carries)
next
  case (Mongering m)
  then show ?thesis using assms(1,2) by (fastforce simp: go_simps split: option.splits dest: wake_carries)
next
  case (Broadcasts e peers)
  then show ?thesis using assms(1,2) broadcast_carries by auto
next
  case (SearchForward e)
  then show ?thesis using assms(1,2) search_forward_carries by auto
next
  case (SearchStart e increment)
  then obtain s where "searchFilesWithTimeout (ch_peers c) e increment g = (s, out)" "js = (case s of None \<Rightarrow> [] | Some s' \<Rightarrow> [Searching s'])"
    using assms(1) by (cases "searchFilesWithTimeout (ch_peers c) e increment g") auto
  then show ?thesis using assms(2) SearchStart search_carries(1) by (fastforce split: option.splits)
next
  case (Searching s)
  then show ?thesis using assms(1,2) by (fastforce simp: go_simps split: option.splits dest: search_carries(2))
next
  case (Publishes fm)
  with assms(1) obtain s where r: "createAndPublishTxBlock (env_order w) (ch_fitness c) fm g = Inr (s, g', out)"
    "js = (case s of None \<Rightarrow> [] | Some s' \<Rightarrow> [Confirming s'])" by (auto simp: go_simps)
  with publish_carries [OF r(1) inv(1) _ stored] assms(4) Publishes show ?thesis by (auto split: option.splits)
next
  case (ClientBlock e)
  then have tlc: "TLCMessage (Packet e) \<noteq> None" and e: "ok (Packet e)" using assms(2,3) by auto
  show ?thesis
  proof (cases "hw3ex4Mode (config g)")
    case True
    with ClientBlock assms(1) obtain q where r: "qscRound (env_hash w) (env_order w) e g = Inr (q, g', out)"
      "js = (case map_option InQsc q of None \<Rightarrow> [] | Some r \<Rightarrow> [InRound r])" by (auto simp: processClientBlocks_def go_simps)
    have "spare 5 g" using True ClientBlock assms(4) by simp
    with qscRound_carries [OF r(1) assms(5) this e tlc stored] r(2) show ?thesis by (cases q) auto
  next
    case False
    with ClientBlock assms(1) obtain s where r: "gossipWithConfirmation (env_order w) e True g = Inr (s, g', out)"
      "js = (case map_option InTlc s of None \<Rightarrow> [] | Some r \<Rightarrow> [InRound r])"
      by (auto simp: processClientBlocks_def tlcRound_def go_simps)
    with gossip_confirmation_carries [OF r(1) e inv(1) _ stored] assms(4) ClientBlock False show ?thesis by (auto split: option.splits)
  qed
next
  case (Confirming s)
  with assms(1) obtain s' where r: "confirmStep (env_order w) (ch_event c) s g = Inr (s', g', out)"
    "js = (case s' of None \<Rightarrow> [] | Some s'' \<Rightarrow> [Confirming s''])" by (auto simp: go_simps)
  with confirm_step_carries [OF r(1) _ inv(1) _ stored] assms(2,4) Confirming show ?thesis by (auto split: option.splits)
next
  case (InRound r)
  show ?thesis
  proof (cases r)
    case (InTlc s)
    with assms(1) InRound obtain s' where r: "confirmStep (env_order w) (ch_event c) s g = Inr (s', g', out)"
      "js = (case s' of None \<Rightarrow> [] | Some s'' \<Rightarrow> [InRound (InTlc s'')])" by (auto simp: go_simps)
    with confirm_step_carries [OF r(1) _ inv(1) _ stored] assms(2,4) InRound InTlc show ?thesis by (auto split: option.splits)
  next
    case (InQsc q)
    with assms(1) InRound obtain q' where r: "qscStep (env_hash w) (env_order w) (ch_event c) q g = Inr (q', g', out)"
      "js = (case q' of None \<Rightarrow> [] | Some q'' \<Rightarrow> [InRound (InQsc q'')])" by (auto simp: go_simps)
    have "q_left q \<le> 2" "spare 5 g" "ok (Packet (cf_packet (q_confirmer q)))"
      using InRound InQsc assms(2-4) by (simp_all add: qsc_ok_def)
    with qscStep_carries [OF r(1) assms(5)] stored r(2) show ?thesis by (fastforce split: option.splits)
  qed
qed (use assms(1,10) in auto)

lemma run_carries:
  assumes "run_job w c j g = Inr (js, g', out)" and "job_carries ok j" and "job_sound g j" and "\<not> hostile_job w c j g"
    and "node_wf g" and inv: "node_inv g" "node_inv g'" "is_order (env_order w)" and "is_order (env_order64 w)"
    and stored: "\<And>k i p. stored_msg (gossipHandler g') k i = Some p \<Longrightarrow> ok p"
  shows "list_all (job_carries ok) js \<and> effects_carry ok out"
proof (cases "is_download j")
  case True
  have "file_frame g g' \<and> list_all download_effect out \<and> (\<forall>j' \<in> set js. \<exists>d. j' = Downloading d)"
    using download_job_frame [OF True _ assms(3,4,1)] assms(9) by blast
  then show ?thesis using download_carries by (auto simp: list_all_iff)
next
  case False
  then show ?thesis using other_run_carries [OF assms(1-8)] stored by blast
qed

end

interpretation net: carrier "packet_ok s" for s
proof
  show "packet_ok s p \<Longrightarrow> plain_packet p \<or> gossip_form p" for p
    by (cases "gossip_id p") (auto simp: packet_ok_def plain_packet_def)
qed (rule plain_packet_ok)

section \<open>A network of whole nodes\<close>

record cluster =
  members :: "(udp_addr, system) fmap"
  air :: "(gossip_packet \<times> udp_addr \<times> udp_addr) set"

text \<open>
  A node acts, and what it sends is on the wire from then on.  A datagram that arrives was sent to
  this node before, and is decoded as what it was.
\<close>

inductive cluster_step :: "cluster \<Rightarrow> cluster \<Rightarrow> bool" where
  acts: "fmlookup (members s) a = Some sys \<Longrightarrow> orderly w \<Longrightarrow> system_step w sys inp out sys' \<Longrightarrow>
    \<forall>bytes b. inp = Some (Datagram bytes b) \<longrightarrow> (fst (env_decode w bytes), b, a) \<in> air s \<Longrightarrow>
    cluster_step s \<lparr>members = fmupd a sys' (members s), air = air s \<union> {(p, a, b) | p b. (p, b) \<in> set (packets_of out)}\<rparr>"

inductive cluster_reaches :: "cluster \<Rightarrow> cluster \<Rightarrow> bool" for s0 where
  beginning: "cluster_reaches s0 s0"
| further: "cluster_reaches s0 s \<Longrightarrow> cluster_step s s' \<Longrightarrow> cluster_reaches s0 s'"

text \<open>Nodes of different names that have just been started.\<close>

definition cluster_start :: "cluster \<Rightarrow> bool" where
  "cluster_start s \<longleftrightarrow> air s = {} \<and>
     (\<forall>a g js. fmlookup (members s) a = Some (g, js) \<longrightarrow> js = [] \<and>
        (\<exists>resolve opts. g = start_node resolve a opts)) \<and>
     (\<forall>a g js b h ks. fmlookup (members s) a = Some (g, js) \<longrightarrow> fmlookup (members s) b = Some (h, ks) \<longrightarrow>
        node_name g = node_name h \<longrightarrow> a = b)"

definition gossip_view :: "cluster \<Rightarrow> network" where
  "gossip_view s = \<lparr>nodes = fmmap fst (members s), wire = air s\<rparr>"

definition cluster_inv :: "cluster \<Rightarrow> bool" where
  "cluster_inv s \<longleftrightarrow> net_inv (gossip_view s) \<and>
     (\<forall>a g js. fmlookup (members s) a = Some (g, js) \<longrightarrow> node_wf g \<and>
        list_all (job_sound g) js \<and> list_all (job_carries (packet_ok (gossip_view s))) js)"

lemma view_nodes [simp]: "fmlookup (nodes (gossip_view s)) a = map_option fst (fmlookup (members s) a)"
  by (simp add: gossip_view_def)

lemma start_facts:
  "config (start_node resolve a opts) = start_config opts" "gossipHandler (start_node resolve a opts) = NewGossipHandler"
  by (simp_all add: start_node_def NewGossiper_def Let_def)

lemma cluster_start_inv:
  assumes "cluster_start s"
  shows "cluster_inv s"
proof -
  have fresh: "gossipHandler g = NewGossipHandler \<and> node_wf g \<and> js = []"
    if "fmlookup (members s) a = Some (g, js)" for a g js
    using assms that start_facts start_node_wf unfolding cluster_start_def by metis
  have "net_init (gossip_view s)"
    unfolding net_init_def
  proof (intro conjI allI impI)
    show "wire (gossip_view s) = {}" using assms by (simp add: cluster_start_def gossip_view_def)
    fix a g assume "fmlookup (nodes (gossip_view s)) a = Some g"
    then obtain js where a: "fmlookup (members s) a = Some (g, js)" by auto
    then show "gossipHandler g = NewGossipHandler" using fresh by blast
    fix b h assume "fmlookup (nodes (gossip_view s)) b = Some h" "node_name g = node_name h"
    then show "a = b" using a assms unfolding cluster_start_def by auto
  qed
  then have "net_inv (gossip_view s)" by (rule net_init_inv)
  then show ?thesis
    unfolding cluster_inv_def using fresh by (metis list.pred_inject(1))
qed

text \<open>A step of a system, seen by the network: the new state is sound and so is all it gives away.\<close>

lemma system_step_view:
  assumes inv: "cluster_inv s" and a: "fmlookup (members s) a = Some (g, js)" and w: "orderly w"
    and st: "system_step w (g, js) inp out (g', js')"
    and dg: "\<forall>bytes b. inp = Some (Datagram bytes b) \<longrightarrow> (fst (env_decode w bytes), b, a) \<in> air s"
    and s1: "nodes s1 = fmupd a g' (nodes (gossip_view s))" "wire s1 = wire (gossip_view s)"
  shows "net_inv s1 \<and> node_step (gossip_view s) g g' {} \<and> list_all (job_carries (packet_ok s1)) js' \<and> effects_carry (packet_ok s1) out"
proof -
  let ?v = "gossip_view s"
  have ord: "is_order (env_order w)" "is_order (env_order64 w)" using w by (simp_all add: orderly_def)
  have net: "net_inv ?v" "fmlookup (nodes ?v) a = Some g" using inv a by (simp_all add: cluster_inv_def)
  have g: "node_inv g" "node_wf g" "list_all (job_sound g) js" "list_all (job_carries (packet_ok ?v)) js"
    using inv a by (auto simp: cluster_inv_def node_wf_def)
  have step: "node_step ?v g g' {}"
    using st
  proof (cases rule: system_stepE [consumes 1, case_names input command work])
    case (input x h)
    then show ?thesis using react_node_step [OF net _ ord(1) external_possible] by blast
  next
    case (command decode bytes)
    then show ?thesis using node_step_log [OF g(1)] by simp
  next
      case (work c j xs ys js2 h)
    then show ?thesis using run_node_step [OF net _ ord(1) _ work(5) g(2) work(6) ord(2)] g(3,4) by simp
  qed
  have net1: "net_inv s1"
    by (rule net_inv_node_step [OF net step s1(1)]) (auto simp: s1(2))
  note mono = packet_ok_mono [OF net(2) step s1(1)]
  have g': "node_inv g'" and stored: "\<And>k i p. stored_msg (gossipHandler g') k i = Some p \<Longrightarrow> packet_ok s1 p"
  proof -
    have l: "fmlookup (nodes s1) a = Some g'" by (simp add: s1(1))
    then show "node_inv g'" using net1 unfolding net_inv_def by blast
    show "packet_ok s1 p" if "stored_msg (gossipHandler g') k i = Some p" for k i p
    proof -
      have "authentic s1 k i p" "gossip_form p" using net1 l that unfolding net_inv_def by blast+
      then show ?thesis by (auto simp: packet_ok_def authentic_def gossip_form_Status)
    qed
  qed
  have old: "list_all (job_carries (packet_ok s1)) js" using g(4) job_carries_mono mono by (metis list.pred_mono_strong)
  have "list_all (job_carries (packet_ok s1)) js' \<and> effects_carry (packet_ok s1) out"
    using st
  proof (cases rule: system_stepE [consumes 1, case_names input command work])
    case (input x h)
    have "effects_carry (packet_ok s1) out"
    proof (cases "\<exists>bytes b. x = Datagram bytes b")
      case True
      then obtain bytes b where x: "x = Datagram bytes b" by blast
      then have "packet_ok ?v (fst (env_decode w bytes))"
        using dg input(1) net(1) unfolding net_inv_def gossip_view_def by fastforce
      then show ?thesis using net.datagram_carries input(5) x mono by blast
    next
      case False
      then have "carries (packet_ok s1) x" using input(3) by (cases x) auto
      then show ?thesis
        using net.react_carries [OF input(5) _ external_possible [OF input(3)] input(4) g(1) _ ord(1)] input(2) g' stored by blast
    qed
    with input(2) old show ?thesis by (simp add: effects_carry_def)
  next
    case (command decode bytes)
    then show ?thesis using old by (simp add: receivePacketsFromClient_def)
  next
      case (work c j xs ys js2 h)
    have "list_all (job_carries (packet_ok s1)) js2 \<and> effects_carry (packet_ok s1) out"
      using net.run_carries [OF work(6) _ _ work(5) g(2,1) _ ord] work(1,3) g(3) g' stored old by auto
    with work(1,3) old show ?thesis by (simp add: effects_carry_def)
  qed
  with net1 step show ?thesis by blast
qed

lemma cluster_step_inv:
  assumes "cluster_step s s'" and inv: "cluster_inv s"
  shows "cluster_inv s'"
  using assms(1)
proof cases
  case (acts a sys w inp out sys')
  obtain g js where sys: "sys = (g, js)" by fastforce
  obtain g' js' where sys': "sys' = (g', js')" by fastforce
  let ?v = "gossip_view s" and ?v' = "gossip_view s'"
  let ?s1 = "?v\<lparr>nodes := fmupd a g' (nodes ?v)\<rparr>"
  have a: "fmlookup (members s) a = Some (g, js)" using acts(2) sys by simp
  have st: "system_step w (g, js) inp out (g', js')" using acts(4) sys sys' by simp
  from system_step_view [OF inv a acts(3) st acts(5), of ?s1]
  have v1: "net_inv ?s1" "node_step ?v g g' {}" "list_all (job_carries (packet_ok ?s1)) js'" "effects_carry (packet_ok ?s1) out"
    by simp_all
  have view: "nodes ?v' = nodes ?s1" "wire ?v' = wire ?v \<union> {(p, a, b) | p b. (p, b) \<in> set (packets_of out)}"
    by (simp_all add: acts(1) gossip_view_def sys' fmmap_fmupd)
  then have au: "authentic ?v' = authentic ?s1" by (simp add: authentic_def fun_eq_iff)
  then have ok: "packet_ok ?v' = packet_ok ?s1" by (simp add: packet_ok_def fun_eq_iff)
  have sent: "packet_ok ?s1 p" if "(p, b) \<in> set (packets_of out)" for p b
    using v1(4) that by (force simp: effects_carry_def list_all_iff)
  have "\<forall>(p, x, y) \<in> wire ?v. packet_ok ?s1 p" using v1(1) unfolding net_inv_def by simp
  then have "\<forall>(p, x, y) \<in> wire ?v'. packet_ok ?s1 p" unfolding view(2) using sent by blast
  then have net': "net_inv ?v'" using v1(1) unfolding net_inv_def au ok view(1) by blast
  have gv: "fmlookup (nodes ?v) a = Some g" using a by simp
  have sound: "sound_system g (g, js)"
    using inv a unfolding cluster_inv_def sound_system_def by auto
  from step_sound [OF this acts(3) st] have new: "node_wf g' \<and> list_all (job_sound g') js'"
    by (simp add: sound_system_def wf_keeps_def)
  have others: "node_wf h \<and> list_all (job_sound h) ks \<and> list_all (job_carries (packet_ok ?s1)) ks"
    if "fmlookup (members s) b = Some (h, ks)" for b h ks
  proof -
    have "packet_ok ?v p \<Longrightarrow> packet_ok ?s1 p" for p using packet_ok_mono [OF gv v1(2)] by simp
    then show ?thesis
      using inv that job_carries_mono unfolding cluster_inv_def by (metis list.pred_mono_strong)
  qed
  show ?thesis
    unfolding cluster_inv_def ok
    using net' new v1(3) others by (auto simp: acts(1) sys' split: if_splits)
qed

lemma cluster_reaches_inv: "cluster_reaches s0 s \<Longrightarrow> cluster_start s0 \<Longrightarrow> cluster_inv s"
  by (induction rule: cluster_reaches.induct) (auto intro: cluster_start_inv cluster_step_inv)

section \<open>Agreement, and what can still stop a node\<close>


text \<open>
  What is left of the hostile cases: all numbers but a few are used up, a data reply arrives that no
  download waits for, a command lacks a field, a search result has announced more chunks than there
  are, a download meets chunks or chunk numbers that do not fit, or a decision of the consensus is a
  bad one.
\<close>

definition own_trouble :: "environment \<Rightarrow> choice \<Rightarrow> job \<Rightarrow> gossiper \<Rightarrow> bool" where
  "own_trouble w c j g \<longleftrightarrow> \<not> spare 5 g \<or> short_metafile (fileHandler g) \<or> is_download j \<and> hostile_job w c j g \<or>
     (\<exists>e r. j = Reacts (FromChannel ''dataReply'' e) \<and> DataReply (Packet e) = Some r \<and>
        reply_key (env_hash w) (drep_HashValue r) (drep_Origin r) |\<notin>| fmdom (hashChannels (fileHandler g))) \<or>
     (\<exists>m. j = Reacts (FromClient m) \<and>
        (getTypeFromMessage (config g) m = ''dataRequest'' \<and> Destination m = None \<or>
         getTypeFromMessage (config g) m = ''searchRequest'' \<and> Budget m = None)) \<or>
     (\<exists>r. bad_decision (env_hash w) (env_order w) r (blockchainHandler g) \<and>
        (hw3ex4Mode (config g) \<and> (\<exists>e. j = ClientBlock e) \<and> r = round_of g \<or> (\<exists>q. j = InRound (InQsc q) \<and> q_round q = r)))"

lemma packet_ok_not_hostile:
  assumes "packet_ok s p" and "on_channel chan p" and "hostile_packet w chan p g"
  shows "chan = ''dataReply''"
proof (rule ccontr)
  assume "chan \<noteq> ''dataReply''"
  with assms(3) consider r where "chan = ''rumor''" "Rumor p = Some r" "rumor_ID r = -1"
    | t where "chan = ''tlcCausal''" "TLCMessage p = Some t" "tlc_VectorClock t = None"
    by (auto simp: hostile_packet_def)
  then show False
  proof cases
    case 1
    then have "gossip_id p = Some (rumor_Origin r, -1)" using assms(2) by (auto simp: on_channel_def gossip_id_def)
    with assms(1) show False by (auto simp: packet_ok_def authentic_def)
  next
    case 2
    then have "getTypeFromGossip p = ''tlcMes''" using assms(2) by (auto simp: on_channel_def getTypeFromGossip_def split: if_splits)
    with 2 have "gossip_id p = Some (tlc_Origin t, tlc_ID t)" by (simp add: gossip_id_def)
    with assms(1) have "gossip_form p" by (auto simp: packet_ok_def)
    with 2 show False by (auto simp: gossip_form_def)
  qed
qed

lemma hostile_in_cluster:
  assumes "job_carries (packet_ok s) j" and "job_sound g j" and "hostile_job w c j g"
  shows "own_trouble w c j g"
proof (rule ccontr)
  assume fine: "\<not> own_trouble w c j g"
  then have "\<not> exhausted g" using spare_mono [of 5 g 1] spare_exhausted [of g] by (auto simp: own_trouble_def)
  note fine = this fine [unfolded own_trouble_def]
  show False
  proof (cases j)
    case (Reacts st)
    show ?thesis
    proof (cases st)
      case (FromChannel chan e)
      with Reacts assms have "chan = ''dataReply''" using packet_ok_not_hostile by simp
      with Reacts FromChannel assms(3) fine show ?thesis by (auto simp: hostile_packet_def)
    next
      case (FromClient m)
      with Reacts assms(3) fine show ?thesis by simp
    qed (use assms Reacts fine(1) in \<open>auto simp: packet_ok_def authentic_def\<close>)
  next
    case (ClientBlock e)
    with assms(3) fine show ?thesis by (simp split: if_splits)
  next
    case (InRound r)
    with assms(3) fine show ?thesis by (cases r) simp_all
  qed (use assms(3) fine in simp_all)
qed

text \<open>
  C9: in a network of nodes that run this program no node is stopped by what the others send, except
  by a data reply that comes when no download waits for it: gossip, status packets and confirmations
  that could stop a node are never sent, whatever the nodes do and whatever the network loses, repeats
  and reorders.  Every piece of work that is left at a node can be done to its end, unless the node
  has used up its numbers but a few, lacks part of a command, believes in chunks that do not exist or
  are too long, or comes to a decision of the consensus that the code cannot carry out.
\<close>

theorem cluster_keeps_running:
  assumes "cluster_reaches s0 s" and "cluster_start s0" and "fmlookup (members s) a = Some (g, js)" and "j \<in> set js"
    and "orderly w" and "\<not> own_trouble w c j g"
  shows "\<exists>js' g' out. run_job w c j g = Inr (js', g', out) \<and> node_wf g' \<and> node_name g' = node_name g"
proof -
  have "cluster_inv s" by (rule cluster_reaches_inv [OF assms(1,2)])
  then have inv: "node_wf g" "job_sound g j" "job_carries (packet_ok (gossip_view s)) j"
    using assms(3,4) by (auto simp: cluster_inv_def list_all_iff)
  then have "\<not> hostile_job w c j g" using hostile_in_cluster assms(6) by blast
  from run_job_good [OF inv(1) assms(5) inv(2) this] show ?thesis
    by (auto simp: good_run_def wf_keeps_def)
qed

section \<open>Two nodes\<close>

definition sample_start :: "nat \<Rightarrow> string \<Rightarrow> gossiper" where
  "sample_start n k = start_node (\<lambda>_. None) (sample_addr n) (default_options\<lparr>opt_name := k\<rparr>)"

definition sample_cluster :: cluster where
  "sample_cluster = \<lparr>members = fmupd (sample_addr 3) (sample_start 3 ''B'', []) (fmupd (sample_addr 2) (sample_start 2 ''A'', []) fmempty),
     air = {}\<rparr>"

lemma sample_start_facts:
  "node_name (sample_start n k) = k" "node_wf (sample_start n k)" "config (sample_start n k) = start_config (default_options\<lparr>opt_name := k\<rparr>)"
  "seqID (gossipHandler (sample_start n k)) = 1" "fileHandler (sample_start n k) = NewFileHandler"
  "\<not> hw3ex4Mode (start_config (default_options\<lparr>opt_name := k\<rparr>))" "\<not> simpleMode (start_config (default_options\<lparr>opt_name := k\<rparr>))"
proof -
  show "node_name (sample_start n k) = k" by (simp add: sample_start_def start_node_def NewGossiper_def Let_def)
  show "node_wf (sample_start n k)" unfolding sample_start_def by (rule start_node_wf)
  show "config (sample_start n k) = start_config (default_options\<lparr>opt_name := k\<rparr>)"
    unfolding sample_start_def by (rule start_facts)
  show "seqID (gossipHandler (sample_start n k)) = 1"
    unfolding sample_start_def start_facts(2) by (simp add: NewGossipHandler_def)
  show "fileHandler (sample_start n k) = NewFileHandler" by (simp add: sample_start_def start_node_def NewGossiper_def Let_def)
  show "\<not> hw3ex4Mode (start_config (default_options\<lparr>opt_name := k\<rparr>))" "\<not> simpleMode (start_config (default_options\<lparr>opt_name := k\<rparr>))"
    by (simp_all add: start_config_def default_options_def SetAppConstants_def)
qed

lemma sample_addr_23 [simp]: "sample_addr 2 \<noteq> sample_addr 3" "sample_addr 3 \<noteq> sample_addr 2"
  by (simp_all add: sample_addr_def)

lemma sample_cluster_start: "cluster_start sample_cluster"
proof -
  have "\<exists>resolve opts. sample_start n k = start_node resolve (sample_addr n) opts" for n k
    using sample_start_def by blast
  then show ?thesis
    by (auto simp: cluster_start_def sample_cluster_def sample_start_facts(1) split: if_splits)
qed

abbreviation hi_command :: job where
  "hi_command \<equiv> Reacts (FromClient (empty_message\<lparr>Text := ''hi''\<rparr>))"

abbreviation cluster_with_command :: cluster where
  "cluster_with_command \<equiv>
     \<lparr>members = fmupd (sample_addr 2) (sample_start 2 ''A'', [hi_command]) (members sample_cluster), air = {}\<rparr>"

definition sample_environment :: environment where
  "sample_environment = \<lparr>env_hash = sample_hash, env_match = (\<lambda>_ _. False), env_order = sorted_list_of_fset, env_order64 = sorted_list_of_fset,
     env_disk = (\<lambda>_. Inl ''no such file''), env_decode = (\<lambda>_. (empty_packet, None)), env_now = 0\<rparr>"

lemma sample_environment_order: "orderly sample_environment"
  by (simp add: orderly_def sample_environment_def sorted_is_order)

lemma sample_cluster_command: "cluster_reaches sample_cluster cluster_with_command"
proof -
  let ?w = sample_environment and ?out = "receivePacketsFromClient (\<lambda>_. empty_message\<lparr>Text := ''hi''\<rparr>) []"
  have a: "fmlookup (members sample_cluster) (sample_addr 2) = Some (sample_start 2 ''A'', [])"
    by (simp add: sample_cluster_def)
  have "system_step ?w (sample_start 2 ''A'', []) None ?out (sample_start 2 ''A'', [] @ jobs_of ?out)"
    by (rule system_step.command)
  from cluster_step.acts [OF a sample_environment_order this] have "cluster_step sample_cluster cluster_with_command"
    by (simp add: receivePacketsFromClient_def sample_cluster_def)
  then show ?thesis by (rule cluster_reaches.further [OF cluster_reaches.beginning])
qed

lemma sample_command_no_trouble: "\<not> own_trouble sample_environment c hi_command (sample_start 2 ''A'')"
proof -
  have "getTypeFromMessage (config (sample_start 2 ''A'')) (empty_message\<lparr>Text := ''hi''\<rparr>) = ''rumor''"
    using sample_start_facts(3,7) by (simp add: getTypeFromMessage_def)
  moreover have "\<not> short_metafile NewFileHandler" by (simp add: short_metafile_def NewFileHandler_def)
  moreover have "spare 5 (sample_start 2 ''A'')" by (simp add: spare_def sample_start_facts(4))
  ultimately show ?thesis using sample_start_facts(3,5) by (simp add: own_trouble_def)
qed

theorem cluster_keeps_running_witness:
  "cluster_reaches sample_cluster cluster_with_command \<and> cluster_start sample_cluster
   \<and> (\<forall>c. \<exists>js' g' out. run_job sample_environment c hi_command (sample_start 2 ''A'') = Inr (js', g', out) \<and> node_wf g')"
proof -
  have a: "fmlookup (members cluster_with_command) (sample_addr 2) = Some (sample_start 2 ''A'', [hi_command])" by simp
  have j: "hi_command \<in> set [hi_command]" by simp
  from cluster_keeps_running [OF sample_cluster_command sample_cluster_start a j sample_environment_order sample_command_no_trouble]
  show ?thesis using sample_cluster_command sample_cluster_start by blast
qed

lemma sample_cluster_rumor:
  "\<exists>s g js k i p. cluster_reaches sample_cluster s \<and> fmlookup (members s) (sample_addr 2) = Some (g, js)
     \<and> stored_msg (gossipHandler g) k i = Some p"
proof -
  let ?g = "sample_start 2 ''A''" and ?m = "empty_message\<lparr>Text := ''hi''\<rparr>" and ?w = sample_environment
  have inv: "node_inv ?g" "seqID (gossipHandler ?g) \<noteq> -1" using sample_start_facts(2,4) by (auto simp: node_wf_def)
  have t: "getTypeFromMessage (config ?g) ?m = ''rumor''"
    using sample_start_facts(3,7) by (simp add: getTypeFromMessage_def)
  obtain e g' out where r: "createRumorMessage ''hi'' ?g = Inr (e, g', out)"
    using createRumorMessage_spec [OF inv, of "''hi''"] by blast
  then obtain out' where "run_job ?w undefined hi_command ?g = Inr ([], g', out')"
    using t by (simp add: processClientMessages_def Let_def)
  then have "system_step ?w (?g, [] @ hi_command # []) None out' (g', [] @ [] @ [] @ jobs_of out')"
    using hostile_in_cluster [of "gossip_view sample_cluster" hi_command ?g ?w] sample_command_no_trouble
    by (intro system_step.work) auto
  then have st: "system_step ?w (?g, [hi_command]) None out' (g', jobs_of out')" by simp
  have a: "fmlookup (members cluster_with_command) (sample_addr 2) = Some (?g, [hi_command])" by simp
  from cluster_step.acts [OF a sample_environment_order st] obtain s where
    s: "cluster_step cluster_with_command s" "fmlookup (members s) (sample_addr 2) = Some (g', jobs_of out')" by fastforce
  obtain k i where "stored_msg (gossipHandler g') k i = Some (Packet e)" using createRumorMessage_stored [OF inv r] by blast
  with s cluster_reaches.further [OF sample_cluster_command s(1)] show ?thesis by blast
qed


end
