(* ===== verification/Integrity.thy ===== *)
theory Integrity
  imports System
begin

text \<open>
  What a node stores under a hash is what the hash was computed from, whatever the network sends: data
  is stored when a file is indexed and when a download takes a reply, a reply only gets to a download
  when its data has been checked, and the channel of the reply is found by its hash and its origin.
\<close>

section \<open>Checked data\<close>

definition store_checked :: "(bytes \<Rightarrow> bytes) \<Rightarrow> (string, bytes) fmap \<Rightarrow> bool" where
  "store_checked H store \<longleftrightarrow> (\<forall>h d. fmlookup store (hex_encode h) = Some d \<longrightarrow> checkHash H h d)"

lemma store_checked_keep: "store_checked H store \<Longrightarrow> checkHash H h d \<Longrightarrow> store_checked H (chunk_keep h d store)"
  by (auto simp: store_checked_def chunk_keep_def LoadOrStore_def split: option.splits)

lemma store_checked_fold:
  assumes "\<And>x. length (H x) = 32"
  shows "store_checked H store \<Longrightarrow> store_checked H (fold (\<lambda>d. chunk_keep (H d) d) ds store)"
  by (induction ds arbitrary: store) (simp_all add: store_checked_keep assms)

lemma store_checked_index:
  assumes "\<And>x. length (H x) = 32" and "store_checked H (hashDataMap fh)"
  shows "store_checked H (hashDataMap (fst (indexFile H disk c f fh)))"
proof (cases "disk f")
  case (Inl err)
  then show ?thesis using assms(2) by (simp add: indexFile_def)
next
  case (Inr content)
  then show ?thesis using store_checked_fold [OF assms] by (simp only: indexFile_store [of disk f content])
qed

text \<open>A reply that is on its way to a download has been checked, and is on the channel of its hash.\<close>

definition delivery_checked :: "(bytes \<Rightarrow> bytes) \<Rightarrow> job \<Rightarrow> bool" where
  "delivery_checked H j \<longleftrightarrow> (\<forall>key r. j = Delivers key r \<longrightarrow>
     checkHash H (drep_HashValue r) (data_of r) \<and> key = reply_key H (drep_HashValue r) (drep_Origin r))"

abbreviation deliveries_checked :: "(bytes \<Rightarrow> bytes) \<Rightarrow> job list \<Rightarrow> bool" where
  "deliveries_checked H \<equiv> list_all (delivery_checked H)"

text \<open>Most effects deliver nothing.\<close>

fun delivers :: "effect \<Rightarrow> bool" where
  "delivers (GoSend (ToHashChannel key r)) \<longleftrightarrow> True"
| "delivers _ \<longleftrightarrow> False"

lemma no_delivery: "filter delivers out = [] \<Longrightarrow> deliveries_checked H (jobs_of out)"
proof (induction out)
  case (Cons e out)
  then have e: "\<not> delivers e" "filter delivers out = []" by (simp_all split: if_splits)
  have "deliveries_checked H (jobs_of_effect e)"
  proof (cases e)
    case (Go t)
    then show ?thesis by (cases t) (auto simp: delivery_checked_def)
  next
    case (GoSend v)
    with e(1) show ?thesis by (cases v) (auto simp: delivery_checked_def)
  qed auto
  with Cons.IH e(2) show ?case by simp
qed simp

lemma delivers_lists [simp]:
  "filter delivers (map Println ls) = []" "filter delivers (map (\<lambda>(p, a). SendPacket p a) ps) = []"
  "filter delivers (sends ps) = []" "filter delivers (log_error err) = []"
proof -
  show s: "filter delivers (map (\<lambda>(p, a). SendPacket p a) ps) = []" by (induction ps) auto
  then show "filter delivers (sends ps) = []" by (simp add: sends_def)
  show "filter delivers (map Println ls) = []" by (induction ls) auto
  show "filter delivers (log_error err) = []" by (simp add: log_error_def split: option.split)
qed

lemma delivers_prints [simp]:
  "filter delivers (printPeers c ps) = []" "filter delivers (printStatusMessage c a want ps) = []"
  "filter delivers (printPeerMessage c e ps) = []" "filter delivers (printClientMessage c m ps) = []"
  "filter delivers (printDownloadMessage f d n) = []" "filter delivers (printSearchMatchMessage c k res) = []"
  by (auto simp: printPeers_def printStatusMessage_def printPeerMessage_def printClientMessage_def printDownloadMessage_def
      printSearchMatchMessage_def Let_def)

section \<open>What handlers leave of the files\<close>

text \<open>A step that leaves the data alone and delivers nothing.\<close>

definition no_data :: "gossiper \<Rightarrow> gossiper \<Rightarrow> effect list \<Rightarrow> bool" where
  "no_data g g' out \<longleftrightarrow> hashDataMap (fileHandler g') = hashDataMap (fileHandler g) \<and> filter delivers out = []"

lemma no_data_trans: "no_data g h o1 \<Longrightarrow> no_data h k o2 \<Longrightarrow> no_data g k (o1 @ o2)"
  by (simp add: no_data_def)

lemma gossip_no_data:
  "createRumorMessage t g = Inr (e1, g', out) \<Longrightarrow> no_data g g' out"
  "handleGossipMessage ord e origin mid g = Inr (g', out) \<Longrightarrow> no_data g g' out"
  "createTLCMessage ord block confirmed fitness g = Inr (e1, g') \<Longrightarrow> no_data g g' []"
  by (auto simp: createRumorMessage_def handleGossipMessage_def createTLCMessage_def no_data_def Let_def go_simps case_prod_beta
      split: if_splits)

lemma point_no_data:
  "processTLCMessage e g = Inr (g', out) \<Longrightarrow> no_data g g' out"
  "processTLCAck e g = Inr (g', out) \<Longrightarrow> no_data g g' out"
  "processSimpleMessages e g = Inr (g', out) \<Longrightarrow> no_data g g' out"
  "processStatusMessages e g = Inr (g', out) \<Longrightarrow> no_data g g' out"
  "processDataRequest e g = Inr (g', out) \<Longrightarrow> no_data g g' out"
  "processPrivateMessages e g = Inr (g', out) \<Longrightarrow> no_data g g' out"
  "processRumorMessages ord e g = Inr (g', out) \<Longrightarrow> no_data g g' out"
  using gossip_no_data(2)
  by (auto simp: processTLCMessage_def processTLCAck_def processSimpleMessages_def processStatusMessages_def
      processDataRequest_def processPrivateMessages_def
      processRumorMessages_def no_data_def Let_def go_simps case_prod_beta split: if_splits option.splits)

lemma delivers_map [simp]: "filter delivers (map (\<lambda>res. Go (HandleSearchResult k res)) rs) = []"
  by (induction rs) auto

lemma search_no_data:
  "processSearchReply e g = Inr (g', out) \<Longrightarrow> no_data g g' out"
  "handleSearchResult origin res g = (g', out) \<Longrightarrow> no_data g g' out"
  by (auto simp: processSearchReply_def handleSearchResult_def no_data_def Let_def go_simps case_prod_beta split: if_splits)

lemma request_no_data:
  assumes "processSearchRequest H rx ord now now' e g = Inr (g', out)"
  shows "no_data g g' out"
proof -
  obtain r where r: "SearchRequest (Packet e) = Some r" using assms by (auto simp: processSearchRequest_def go_simps)
  obtain recent r1 fh where i: "isRecentSearchRequest H now now' r (fileHandler g) = (recent, r1, fh)"
    by (cases "isRecentSearchRequest H now now' r (fileHandler g)") auto
  have "hashDataMap fh = hashDataMap (fileHandler g)" using i by (auto simp: isRecentSearchRequest_def Let_def split: if_splits)
  with assms r i show ?thesis by (cases recent) (auto simp: processSearchRequest_def Let_def no_data_def)
qed

lemma tlc_no_data:
  assumes "handleTLCMessage ord e g = Inr (g', out)"
  shows "no_data g g' out"
proof -
  obtain tlc where tlc: "TLCMessage (Packet e) = Some tlc" using assms by (auto simp: handleTLCMessage_def go_simps)
  obtain r bh where m: "getMessageOriginalRound (tlc_Origin tlc) (tlc_ID tlc) (tlc_Confirmed tlc) (blockchainHandler g) = (r, bh)"
    by fastforce
  have "no_data h h' o1" if "acknowledge tlc r h = Inr (h', o1)" for h h' o1
    using that by (auto simp: acknowledge_def no_data_def Let_def go_simps split: if_splits)
  moreover have "no_data h h' o2" if "checkForCausalProperty ord k vc i a h = Inr (b, h', o2)" for k vc i a h b h' o2
    using that by (auto simp: checkForCausalProperty_def no_data_def go_simps split: if_splits)
  ultimately show ?thesis
    using assms tlc m by (fastforce simp: handleTLCMessage_def no_data_def Let_def go_simps split: if_splits)
qed

section \<open>Commands and replies\<close>

lemma index_no_delivery: "filter delivers (snd (indexFile H disk c f fh)) = []"
  by (simp add: indexFile_def Let_def split: sum.split prod.split)

lemma command_checked:
  assumes "\<And>x. length (H x) = 32" and "store_checked H (hashDataMap (fileHandler g))"
    and "processClientMessages H disk ord m g = Inr (g', out)"
  shows "store_checked H (hashDataMap (fileHandler g')) \<and> filter delivers out = []"
proof (cases "getTypeFromMessage (config g) m = ''file''")
  case True
  then obtain f where "File m = Some f" using getTypeFromMessage_fields(2) by blast
  with True have "g' = g\<lparr>fileHandler := fst (indexFile H disk (config g) f (fileHandler g))\<rparr>"
    "out = snd (indexFile H disk (config g) f (fileHandler g))"
    using assms(3) by (auto simp: processClientMessages_def Let_def case_prod_beta)
  then show ?thesis using store_checked_index [OF assms(1,2)] index_no_delivery by simp
next
  case False
  have "no_data g g' out"
    using assms(3) False gossip_no_data(1)
    by (fastforce simp: processClientMessages_def no_data_def Let_def go_simps split: if_splits)
  then show ?thesis using assms(2) by (simp add: no_data_def)
qed

text \<open>A reply is handed on only when its data has the hash it names.\<close>

lemma reply_checked:
  assumes "processDataReply H e g = Inr (g', out)"
  shows "g' = g \<and> deliveries_checked H (jobs_of out)"
  using assms by (auto simp: processDataReply_def Let_def go_simps delivery_checked_def data_of_def split: if_splits option.splits)

definition checked_step :: "(bytes \<Rightarrow> bytes) \<Rightarrow> gossiper \<Rightarrow> job list \<Rightarrow> bool" where
  "checked_step H g js \<longleftrightarrow> store_checked H (hashDataMap (fileHandler g)) \<and> deliveries_checked H js"

lemma no_data_checked:
  "no_data g g' out \<Longrightarrow> store_checked H (hashDataMap (fileHandler g)) \<Longrightarrow> checked_step H g' (jobs_of out)"
  using no_delivery by (simp add: no_data_def checked_step_def)

lemma quiet_react:
  assumes "node_react w s g = Inr (g', out)" and "\<And>m. s \<noteq> FromClient m" and "\<And>e. s \<noteq> FromChannel ''dataReply'' e"
  shows "no_data g g' out"
proof (cases s)
  case (FromChannel chan e)
  then have "chan \<noteq> ''dataReply''" using assms(3) by blast
  then show ?thesis
    using FromChannel assms(1) point_no_data search_no_data(1) request_no_data tlc_no_data
    by (simp add: run_loop_def no_data_def split: if_splits)
next
  case (GossipArrives e origin mid)
  then show ?thesis using assms(1) gossip_no_data(2) by simp
next
  case (ResultArrives origin res)
  then show ?thesis using assms(1) search_no_data(2) by simp
next
  case RouteRumorStart
  then show ?thesis
    using assms(1) gossip_no_data(1) by (fastforce simp: routeRumorStart_def no_data_def go_simps split: if_splits)
next
  case RouteRumorTick
  then show ?thesis
    using assms(1) gossip_no_data(1) by (fastforce simp: routeRumorTick_def no_data_def go_simps)
qed (use assms in \<open>auto simp: receivePacketsFromPeers_def handlePeerStatus_def run_notifyListeners_def startAntiEntropy_def
    no_data_def Let_def go_simps case_prod_beta split: if_splits option.splits\<close>)

lemma react_checked:
  assumes "\<And>x. length (env_hash w x) = 32" and "store_checked (env_hash w) (hashDataMap (fileHandler g))"
    and "node_react w s g = Inr (g', out)"
  shows "checked_step (env_hash w) g' (jobs_of out)"
proof -
  consider m where "s = FromClient m" | e where "s = FromChannel ''dataReply'' e" | "no_data g g' out"
    using quiet_react [OF assms(3)] by blast
  then show ?thesis
  proof cases
    case 1
    then show ?thesis using command_checked [OF assms(1,2)] assms(3) no_delivery by (simp add: checked_step_def)
  next
    case 2
    then show ?thesis
      using assms(2,3) reply_checked [of "env_hash w" e g g' out] by (simp add: run_loop_def checked_step_def)
  next
    case 3
    then show ?thesis using assms(2) by (rule no_data_checked)
  qed
qed

section \<open>Goroutines that leave the data alone\<close>

lemma delivers_broadcast [simp]:
  "filter delivers (broadcastToPeers e peers) = []" "filter delivers (forwardSearchRequestWithBudget rnd e g) = []"
  by (simp_all add: broadcastToPeers_def forwardSearchRequestWithBudget_def Let_def split: option.split)

lemma send_rumor_no_data: "sendRumorWithTimeout e origin mid peer g = (g', out) \<Longrightarrow> no_data g g' out"
  by (auto simp: sendRumorWithTimeout_def no_data_def Let_def)

lemma monger_no_data:
  "startRumorMongering rnd e origin mid g = Inr (g', m, out) \<Longrightarrow> no_data g g' out"
  "wakeRumorMongering st coin rnd mg g = Inr (g', m, out) \<Longrightarrow> no_data g g' out"
  by (auto simp: startRumorMongering_def wakeRumorMongering_def sendRumorWithTimeout_def no_data_def Let_def go_simps split: if_splits)

lemma search_run_no_data:
  "snd (searchFilesWithTimeout rnd e increment g) = out \<Longrightarrow> filter delivers out = []"
  "searchTick rx ord rnd s g = Inr (s', out) \<Longrightarrow> filter delivers out = []"
  by (auto simp: searchFilesWithTimeout_def searchTick_def Let_def go_simps split: option.splits if_splits)

lemma confirm_no_data:
  "confirm_message ord tlc ws g = Inr (tlc', g', out) \<Longrightarrow> no_data g g' out"
  by (auto simp: confirm_message_def sendGossipWithConfirmation_def printConfirmMessage_def no_data_def Let_def go_simps
      dest!: gossip_no_data(3))

lemma majority_no_data:
  "checkForConfirmationsMajority ord tlc delivered g = Inr (over, g', out) \<Longrightarrow> no_data g g' out"
  by (auto simp: checkForConfirmationsMajority_def printRoundMessage_def no_data_def Let_def go_simps
      split: option.splits if_splits dest!: confirm_no_data)

lemma gossip_confirmation_no_data:
  "gossipWithConfirmation ord e wait g = Inr (s, g', out) \<Longrightarrow> no_data g g' out"
  by (auto simp: gossipWithConfirmation_def no_data_def Let_def go_simps split: if_splits dest!: majority_no_data)

lemma confirm_step_no_data: "confirmStep ord ev s g = Inr (s', g', out) \<Longrightarrow> no_data g g' out"
  by (cases ev) (auto simp: no_data_def Let_def go_simps split: if_splits dest!: majority_no_data confirm_no_data)

lemma publish_no_data: "createAndPublishTxBlock ord fitness fm g = Inr (s, g', out) \<Longrightarrow> no_data g g' out"
  by (auto simp: createAndPublishTxBlock_def no_data_def Let_def go_simps split: if_splits
      dest!: gossip_confirmation_no_data gossip_no_data(3))

lemma consensus_print_delivers: "printConsensusMessage bh m = Some (Inr printed) \<Longrightarrow> filter delivers printed = []"
  by (auto simp: printConsensusMessage_def Let_def go_simps split: option.splits sum.splits)

lemma decide_no_data:
  assumes "qscDecide H ord roundS highest g = Inr (g', out)"
  shows "no_data g g' out"
proof (cases "fmlookup (confirmations (blockchainHandler g)) (roundS + 2)")
  case None
  then show ?thesis using assms by (auto simp: qscDecide_def Let_def no_data_def)
next
  case (Some x)
  then obtain confS confS1 r where r: "checkIfConsensusReached H ord confS confS1 roundS (blockchainHandler g) = Inr r"
    and e: "(case r of
                 Some m \<Rightarrow>
                   (let (b, bh') = commit_block H m (blockchainHandler g)
                    in res_bind (of_option NoReturn (printConsensusMessage bh' m)) (\<lambda>pr. res_bind pr (\<lambda>printed.
                         Inr (g\<lparr>blockchainHandler := bh'\<rparr>,
                              (if tlc_Origin m = node_name g then [GoSend (ToFilesIndexed (gui_of_block b))] else []) @ printed))))
               | None \<Rightarrow>
                   (let (b, bh') = adopt_block H highest (blockchainHandler g)
                    in Inr (g\<lparr>blockchainHandler := bh'\<rparr>,
                            if tlc_Origin highest = node_name g then [GoSend (ToFilesIndexed (gui_of_block b))] else [])))
             = Inr (g', out)"
    using assms unfolding qscDecide_def Let_def by (auto simp only: option.simps go_simps)
  show ?thesis
  proof (cases r)
    case None
    then show ?thesis using e by (cases "adopt_block H highest (blockchainHandler g)") (auto simp: no_data_def)
  next
    case (Some m)
    then show ?thesis
      using e consensus_print_delivers by (cases "commit_block H m (blockchainHandler g)") (auto simp: no_data_def go_simps)
  qed
qed

lemma advance_no_data: "qscAdvance H ord left roundS highest g = Inr (q, g', out) \<Longrightarrow> no_data g g' out"
proof (induction left arbitrary: highest g q g' out)
  case 0
  then show ?case using decide_no_data by (auto simp: go_simps)
next
  case (Suc left)
  have next_round: "no_data h h' o1" if "qscNext ord r h = Inr (x, h', o1)" for r h x h' o1
    using that by (auto simp: qscNext_def no_data_def Let_def go_simps split: option.splits dest!: gossip_no_data(3))
  show ?case
    using Suc.prems
    by (auto simp: tlcRound_def go_simps split: option.splits dest!: next_round gossip_confirmation_no_data Suc.IH
        intro!: no_data_trans)
qed

lemma block_no_data: "processClientBlocks H ord e g = Inr (r, g', out) \<Longrightarrow> no_data g g' out"
  by (auto simp: processClientBlocks_def qscRound_def tlcRound_def Let_def go_simps split: if_splits option.splits
      dest!: gossip_confirmation_no_data advance_no_data intro: no_data_trans)

lemma qsc_step_no_data: "qscStep H ord ev q g = Inr (q', g', out) \<Longrightarrow> no_data g g' out"
  by (auto simp: qscStep_def go_simps split: option.splits dest!: confirm_step_no_data advance_no_data intro: no_data_trans)

fun quiet_job :: "job \<Rightarrow> bool" where
  "quiet_job (Reacts s) \<longleftrightarrow> False"
| "quiet_job j \<longleftrightarrow> \<not> is_download j"

lemma quiet_run:
  assumes "quiet_job j" and "run_job w c j g = Inr (js, g', out)"
  shows "no_data g g' out \<and> deliveries_checked H js"
proof -
  have js: "deliveries_checked H js"
    if "js = (case x of None \<Rightarrow> [] | Some y \<Rightarrow> [f y])" "\<And>y key r. f y \<noteq> Delivers key r"
    for x :: "'b option" and f :: "'b \<Rightarrow> job"
    using that by (auto simp: delivery_checked_def split: option.split)
  show ?thesis
  proof (cases j)
    case (Mongers e origin mid)
    then show ?thesis using assms(2) js monger_no_data(1) by (auto simp: go_simps)
  next
    case (Mongering m)
    then show ?thesis using assms(2) js monger_no_data(2) by (auto simp: go_simps)
  next
    case (SearchStart e increment)
    then show ?thesis
      using assms(2) js search_run_no_data(1) [of "ch_peers c" e increment g, OF refl]
      by (auto simp: no_data_def case_prod_beta)
  next
    case (Searching s)
    then show ?thesis using assms(2) js search_run_no_data(2) by (auto simp: go_simps no_data_def)
  next
    case (Publishes fm)
    then show ?thesis using assms(2) js publish_no_data by (auto simp: go_simps)
  next
    case (ClientBlock e)
    then show ?thesis using assms(2) js block_no_data by (auto simp: go_simps)
  next
    case (Confirming s)
    then show ?thesis using assms(2) js confirm_step_no_data by (auto simp: go_simps)
  next
    case (InRound r)
    then show ?thesis using assms(2) js confirm_step_no_data qsc_step_no_data
      by (cases r) (auto simp: go_simps delivery_checked_def split: option.split)
  qed (use assms in \<open>auto simp: no_data_def\<close>)
qed

section \<open>Downloads\<close>

text \<open>All that a download does to the data is to store the piece it waits for.\<close>

lemma piece_no_data: "startPiece H fileName peer hash n g = Inr (pc, g1, out) \<Longrightarrow> no_data g g1 out"
  by (auto simp: startPiece_def no_data_def Let_def go_simps)

lemma finish_no_data: "finishDownload key fileName n st g = Inr (g', out) \<Longrightarrow> no_data g g' out"
  by (auto simp: finishDownload_def no_data_def set_meta_def Let_def go_simps split: if_splits prod.splits)

lemma ask_no_data: "ask H tr hash peer peers i is st g = Inr (d, g', out) \<Longrightarrow> no_data g g' out"
  by (auto simp: ask_def eff_bind_eq_Inr dest: piece_no_data)

lemma next_no_data: "nextChunk H tr is st g = Inr (d, g', out) \<Longrightarrow> no_data g g' out"
proof (induction "is" arbitrary: st)
  case Nil
  then show ?case by (auto simp: ends_def go_simps dest: finish_no_data)
next
  case (Cons i "is")
  obtain hash where hash: "metafile_hash (tr_metafile tr) i = Inr hash" using Cons.prems by (auto simp: go_simps)
  show ?case
  proof (cases "fmlookup (hashDataMap (fileHandler g)) (hex_encode hash)")
    case None
    then show ?thesis using Cons hash ask_no_data by (cases "peers_with_chunk (tr_dest tr) hash g") auto
  next
    case (Some chunk)
    then show ?thesis using Cons hash by (cases "copy_chunk i chunk st") auto
  qed
qed

lemma transfer_no_data:
  assumes "startTransfer H ord64 fileName dest metaHash metafile g = Inr (d, g', out)"
  shows "no_data g g' out"
proof -
  obtain fm g1 where o: "openMetadata H ord64 fileName metaHash metafile g = Inr (fm, g1)"
    using assms by (auto simp: startTransfer_def go_simps)
  then have "no_data g g1 []" by (auto simp: openMetadata_def no_data_def Let_def go_simps case_prod_beta)
  moreover have "no_data g1 g' out"
    using assms o by (auto simp: startTransfer_def no_data_def split: if_splits dest: next_no_data [unfolded no_data_def])
  ultimately show ?thesis using no_data_trans by fastforce
qed

lemma arrived_no_data: "metafileArrived ord ord64 key origin chunkMap g = Inr g' \<Longrightarrow> hashDataMap (fileHandler g') = hashDataMap (fileHandler g)"
  by (auto simp: metafileArrived_def updateChunkOwnerMap_def Let_def go_simps)

lemma chunk_no_data: "chunkDownloaded ord ord64 key dest peer hash n g = Inr g' \<Longrightarrow> hashDataMap (fileHandler g') = hashDataMap (fileHandler g)"
  by (auto simp: chunkDownloaded_def set_meta_def set_owners_def Let_def go_simps split: if_splits)

lemma start_no_data:
  "startFetch H ord ord64 key origin chunkMap g = Inr (d, g', out) \<Longrightarrow> no_data g g' out"
  "startDownload H ord64 fileName dest metaHash g = Inr (d, g', out) \<Longrightarrow> no_data g g' out"
  by (auto simp: startFetch_def startDownload_def eff_bind_eq_Inr go_simps no_data_def split: option.splits if_splits
      dest: arrived_no_data piece_no_data [unfolded no_data_def] transfer_no_data [unfolded no_data_def])

lemma resume_no_data:
  assumes "resume H ord ord64 got d g = Inr (d', g', out)"
  shows "no_data g g' out"
proof (cases d)
  case (Fetching pc key origin chunkMap)
  then show ?thesis using assms by (auto simp: go_simps no_data_def split: if_splits dest: arrived_no_data)
next
  case (ForMetafile pc fileName dest metaHash)
  then show ?thesis using assms by (auto simp: go_simps no_data_def split: if_splits dest: transfer_no_data [unfolded no_data_def])
next
  case (ForChunk pc tr peers i "is" st)
  then show ?thesis
    using assms
    by (auto simp: go_simps no_data_def split: if_splits list.splits
        dest!: chunk_no_data next_no_data [unfolded no_data_def] ask_no_data [unfolded no_data_def])
qed

lemma download_step_data:
  assumes "downloadStep H ord ord64 ev d g = Inr (d', g', out)"
  shows "filter delivers out = [] \<and> hashDataMap (fileHandler g') =
    (case ev of ReplyArrives r \<Rightarrow> chunk_keep (pc_hash (piece_of d)) (data_of r) (hashDataMap (fileHandler g))
     | _ \<Rightarrow> hashDataMap (fileHandler g))"
  using assms
  by (cases ev) (auto simp: downloadStep_def eff_bind_eq_Inr go_simps with_out_def chunk_keep_def set_store_def
      dest: resume_no_data [unfolded no_data_def])

section \<open>Runs with a hash\<close>

text \<open>
  A channel of replies is found by the hash of the hash asked for and the name of the peer.  A clash is
  a reply with checked data on the channel of a download that asked for another hash: two different
  texts with the same hash, or with the end of the hash written into the name of the peer.
\<close>

definition key_clash :: "(bytes \<Rightarrow> bytes) \<Rightarrow> job list \<Rightarrow> bool" where
  "key_clash H js \<longleftrightarrow> (\<exists>d r. Downloading d \<in> set js
     \<and> Delivers (reply_key H (pc_hash (piece_of d)) (pc_peer (piece_of d))) r \<in> set js
     \<and> to_array32 (drep_HashValue r) \<noteq> to_array32 (pc_hash (piece_of d)))"

text \<open>The steps of \<open>system_step\<close>, with hostile stimuli and work as well, as long as they do not panic.\<close>

inductive hashed_step :: "environment \<Rightarrow> system \<Rightarrow> system \<Rightarrow> bool" for w where
  hashed_input: "external s \<Longrightarrow> node_react w s g = Inr (g', out) \<Longrightarrow> hashed_step w (g, js) (g', js @ jobs_of out)"
| hashed_command: "hashed_step w (g, js) (g, js @ jobs_of (receivePacketsFromClient decode bytes))"
| hashed_work: "enabled w c j (xs @ ys) g \<Longrightarrow> run_job w c j g = Inr (js, g', out) \<Longrightarrow>
    hashed_step w (g, xs @ j # ys) (g', xs @ ys @ js @ jobs_of out)"

inductive_cases hashed_stepE: "hashed_step w (g, js) s'"

lemma system_step_hashed: "system_step w s inp out s' \<Longrightarrow> hashed_step w s s'"
  by (induction rule: system_step.induct) (auto intro: hashed_step.intros)

inductive hashed_reaches :: "(bytes \<Rightarrow> bytes) \<Rightarrow> system \<Rightarrow> system \<Rightarrow> bool" for H s0 where
  hashed_here: "hashed_reaches H s0 s0"
| hashed_there: "hashed_reaches H s0 s \<Longrightarrow> env_hash w = H \<Longrightarrow> \<not> key_clash H (snd s) \<Longrightarrow> hashed_step w s s' \<Longrightarrow>
    hashed_reaches H s0 s'"

text \<open>Every step of a download stores what belongs under the hash it asked for.\<close>

lemma keep_job_checked:
  assumes "keep_job Downloading r = Inr (js, g', out)" and "\<And>d. r = Inr (d, g', out) \<Longrightarrow> filter delivers out = []"
    and "\<And>d. r = Inr (d, g', out) \<Longrightarrow> store_checked H (hashDataMap (fileHandler g'))"
  shows "checked_step H g' (js @ jobs_of out)"
  using assms no_delivery
  by (auto simp: keep_job_def go_simps checked_step_def delivery_checked_def split: option.splits)

lemma reply_stored:
  assumes "deliveries_checked H js" and "\<not> key_clash H js" and "Downloading d \<in> set js"
    and "Delivers (reply_key H (pc_hash (piece_of d)) (pc_peer (piece_of d))) r \<in> set js"
  shows "checkHash H (pc_hash (piece_of d)) (data_of r)"
proof -
  have "checkHash H (drep_HashValue r) (data_of r)"
    using assms(1,4) by (auto simp: list_all_iff delivery_checked_def)
  moreover have "to_array32 (drep_HashValue r) = to_array32 (pc_hash (piece_of d))"
    using assms(2-4) by (auto simp: key_clash_def)
  ultimately show ?thesis by (simp add: checkHash_def)
qed

lemma run_checked:
  assumes "\<And>x. length (env_hash w x) = 32" and "checked_step (env_hash w) g (xs @ j # ys)"
    and "\<not> key_clash (env_hash w) (xs @ j # ys)" and "enabled w c j (xs @ ys) g" and "run_job w c j g = Inr (js, g', out)"
  shows "checked_step (env_hash w) g' (js @ jobs_of out)"
proof -
  have store: "store_checked (env_hash w) (hashDataMap (fileHandler g))" using assms(2) by (simp add: checked_step_def)
  show ?thesis
  proof (cases j)
    case (Reacts s)
    then have "js = []" "node_react w s g = Inr (g', out)" using assms(5) by (auto simp: go_simps)
    then show ?thesis using react_checked [OF assms(1) store] by simp
  next
    case (Fetches key origin chunkMap)
    show ?thesis
      by (rule keep_job_checked [OF assms(5) [unfolded Fetches run_job.simps]]) (use store start_no_data(1) in \<open>auto simp: no_data_def\<close>)
  next
    case (Downloads f dest h)
    show ?thesis
      by (rule keep_job_checked [OF assms(5) [unfolded Downloads run_job.simps]]) (use store start_no_data(2) in \<open>auto simp: no_data_def\<close>)
  next
    case (Downloading d)
    have "checkHash (env_hash w) (pc_hash (piece_of d)) (data_of r)" if "ch_download c = ReplyArrives r" for r
    proof (rule reply_stored [of _ "xs @ j # ys"])
      show "deliveries_checked (env_hash w) (xs @ j # ys)" using assms(2) by (simp add: checked_step_def)
    qed (use that assms(3,4) Downloading in auto)
    then have "store_checked (env_hash w) (hashDataMap (fileHandler h))"
      if "downloadStep (env_hash w) (env_order w) (env_order64 w) (ch_download c) d g = Inr (d', h, o1)" for d' h o1
      using store download_step_data [OF that] by (cases "ch_download c") (simp_all add: store_checked_keep)
    then show ?thesis
      using keep_job_checked [OF assms(5) [unfolded Downloading run_job.simps]] download_step_data by blast
  qed (use quiet_run [OF _ assms(5)] no_data_checked [OF _ store] in \<open>auto simp: checked_step_def\<close>)
qed

lemma checked_step_mono:
  "checked_step H g' ks \<Longrightarrow> checked_step H g js \<Longrightarrow> set js' \<subseteq> set js \<union> set ks \<Longrightarrow> checked_step H g' js'"
  by (auto simp: checked_step_def list_all_iff)

lemma hashed_checked:
  assumes "hashed_reaches H s0 s" and "\<And>x. length (H x) = 32" and "checked_step H (fst s0) (snd s0)"
  shows "checked_step H (fst s) (snd s)"
  using assms(1)
proof induction
  case hashed_here
  show ?case by (rule assms(3))
next
  case (hashed_there s w s')
  obtain g js where s: "s = (g, js)" by fastforce
  note H = assms(2) [folded hashed_there(2)] and inv = hashed_there.IH [unfolded s fst_conv snd_conv]
  from hashed_there(4) [unfolded s] show ?case
  proof (cases rule: hashed_stepE [consumes 1, case_names input command work])
    case (input x g' out)
    have "checked_step H g' (jobs_of out)"
      using react_checked [OF H _ input(3)] inv hashed_there(2) by (simp add: checked_step_def)
    from checked_step_mono [OF this inv] show ?thesis unfolding input(1) by simp
  next
    case (command decode bytes)
    have "filter delivers (receivePacketsFromClient decode bytes) = []" by (simp add: receivePacketsFromClient_def)
    then show ?thesis using inv no_delivery command by (simp add: checked_step_def)
  next
    case (work c j xs ys ks g' out)
    have "checked_step H g' (ks @ jobs_of out)"
      using run_checked [OF H _ _ work(3,4)] inv hashed_there(2,3) work(1) s by simp
    then show ?thesis
      unfolding work(2) fst_conv snd_conv by (rule checked_step_mono [OF _ inv]) (use work(1) in auto)
  qed
qed

text \<open>
  C10: whatever the network sends, hostile or not, in whatever order the goroutines of a node run and
  however often a reply comes: all the data a started node stores under a hash, chunks and metafiles,
  indexed or downloaded, has this hash.  A peer cannot plant other data, unless it gets data that
  passes its own check onto the channel of another hash.
\<close>

theorem store_integrity:
  assumes "hashed_reaches H (start_node resolve address opts, []) (g, js)" and "\<And>x. length (H x) = 32"
    and "fmlookup (hashDataMap (fileHandler g)) (hex_encode h) = Some d"
  shows "checkHash H h d"
proof -
  have "hashDataMap (fileHandler (start_node resolve address opts)) = fmempty"
    by (simp add: start_node_def NewGossiper_def NewFileHandler_def Let_def)
  then have "checked_step H (fst (start_node resolve address opts, [])) (snd (start_node resolve address opts, []))"
    by (simp add: checked_step_def store_checked_def)
  from hashed_checked [OF assms(1,2) this] assms(3) show ?thesis by (simp add: checked_step_def store_checked_def)
qed

text \<open>A node that is started and told to share a file of one byte.\<close>

definition share_command :: client_message where
  "share_command = \<lparr>Text = '''', Destination = None, File = Some ''f'', Request = None, Keywords = None, Budget = None\<rparr>"

definition share_world :: environment where
  "share_world = sample_world\<lparr>env_disk := (\<lambda>_. Inr [7])\<rparr>"

lemma share_step:
  "\<exists>g out. node_react share_world (FromClient share_command) first_start = Inr (g, out)
     \<and> fmlookup (hashDataMap (fileHandler g)) (hex_encode (sample_hash [7])) = Some [7]"
proof -
  let ?fh = "fileHandler first_start"
  have "getTypeFromMessage (config first_start) share_command = ''file''"
    by (simp add: getTypeFromMessage_def share_command_def first_start_def start_node_def NewGossiper_def start_config_def
        default_options_def SetAppConstants_def Let_def)
  moreover have "hashDataMap ?fh = fmempty" by (simp add: first_start_def start_node_def NewGossiper_def NewFileHandler_def Let_def)
  moreover have "sample_hash (sample_hash [7]) \<noteq> sample_hash [7]" by (simp add: sample_hash_def)
  then have "hex_encode (sample_hash (sample_hash [7])) \<noteq> hex_encode (sample_hash [7])" by simp
  ultimately show ?thesis
    using indexFile_store [of "env_disk share_world" "''f''" "[7]" sample_hash "config first_start" ?fh]
    by (auto simp: processClientMessages_def share_command_def share_world_def sample_world_def metafile_of_def sample_file_parts
        chunk_keep_def LoadOrStore_absent case_prod_beta Let_def)
qed

theorem store_integrity_witness:
  "\<exists>g js. hashed_reaches sample_hash (first_start, []) (g, js)
     \<and> fmlookup (hashDataMap (fileHandler g)) (hex_encode (sample_hash [7])) = Some [7] \<and> checkHash sample_hash (sample_hash [7]) [7]"
proof -
  let ?j = "Reacts (FromClient share_command)"
  obtain g out where r: "node_react share_world (FromClient share_command) first_start = Inr (g, out)"
    "fmlookup (hashDataMap (fileHandler g)) (hex_encode (sample_hash [7])) = Some [7]" using share_step by blast
  have H: "env_hash share_world = sample_hash" by (simp add: share_world_def sample_world_def)
  have quiet: "\<not> key_clash sample_hash []" "\<not> key_clash sample_hash [?j]" by (simp_all add: key_clash_def)
  have "hashed_step share_world (first_start, []) (first_start, [?j])"
    using hashed_command [of share_world first_start "[]" "\<lambda>_. share_command" "[]"] by (simp add: receivePacketsFromClient_def)
  from hashed_there [OF hashed_here H _ this] quiet(1)
  have one: "hashed_reaches sample_hash (first_start, []) (first_start, [?j])" by simp
  have "hashed_step share_world (first_start, [?j]) (g, jobs_of out)"
    using hashed_work [of share_world _ ?j "[]" "[]" first_start "[]" g out] r(1) by simp
  from hashed_there [OF one H _ this] quiet(2)
  have two: "hashed_reaches sample_hash (first_start, []) (g, jobs_of out)" by simp
  have "length (sample_hash x) = 32" for x by (simp add: sample_hash_def)
  from store_integrity [OF two [unfolded first_start_def] this r(2)] two r(2) show ?thesis by blast
qed

end
