(* ===== verification/Disk.thy ===== *)
theory Disk
  imports Effects
begin

text \<open>
  The file system under a node: \<open>copyFile\<close> and \<open>saveFileOnDisk\<close> of \<open>gossiper/utils.go\<close> and
  \<open>createWorkingDirectories\<close> of \<open>gossiper/gossiper.go\<close>.  A file is a path with its content; a path is
  compared as a string.  What \<open>os\<close> and \<open>io\<close> answer to the calls of one run is an argument: each call
  fails with an error text or succeeds, and a write that fails may have written a part.
\<close>

section \<open>Files\<close>

text \<open>
  What programs rely on: reading gives what was written last, and other files keep their content.
\<close>

locale file_system =
  fixes contents :: "'d \<Rightarrow> string \<Rightarrow> bytes option"
    and put :: "string \<Rightarrow> bytes \<Rightarrow> 'd \<Rightarrow> 'd"
  assumes contents_put: "contents (put p b d) q = (if q = p then Some b else contents d q)"
begin

definition put_all :: "(string \<times> bytes) list \<Rightarrow> 'd \<Rightarrow> 'd" where
  "put_all fs d = fold (\<lambda>(p, b). put p b) fs d"

lemma put_all_simps [simp]:
  "put_all [] d = d" "put_all ((p, b) # fs) d = put_all fs (put p b d)"
  by (simp_all add: put_all_def)

text \<open>Of several writes to a file the last one counts; a file not written stays as it was.\<close>

lemma contents_put_all:
  "contents (put_all fs d) q = (case map_of (rev fs) q of None \<Rightarrow> contents d q | Some b \<Rightarrow> Some b)"
  by (induction fs arbitrary: d) (auto simp: contents_put map_add_def split: option.split)

lemma contents_put_all_distinct:
  "distinct (map fst fs) \<Longrightarrow> (p, b) \<in> set fs \<Longrightarrow> contents (put_all fs d) p = Some b"
  by (simp add: contents_put_all rev_map [symmetric])

end

type_synonym files = "(string, bytes) fmap"

interpretation disk: file_system "fmlookup :: files \<Rightarrow> string \<Rightarrow> bytes option" fmupd
  by unfold_locales simp

section \<open>The calls of the program\<close>

record io_answers =
  err_open :: "string option"
  err_create :: "string option"
  err_write :: "(nat \<times> string) option"
  err_sync :: "string option"
  err_close :: "string option"

definition no_errors :: io_answers where
  "no_errors = \<lparr>err_open = None, err_create = None, err_write = None, err_sync = None, err_close = None\<rparr>"

text \<open>\<open>os.Open\<close> and reading all of the file: an error text or the content.\<close>

definition open_file :: "io_answers \<Rightarrow> string \<Rightarrow> files \<Rightarrow> string + bytes" where
  "open_file io file d =
     (case err_open io of
        Some e \<Rightarrow> Inl e
      | None \<Rightarrow> (case fmlookup d file of
                  None \<Rightarrow> Inl (''open '' @ file @ '': no such file or directory'')
                | Some content \<Rightarrow> Inr content))"

text \<open>A file that \<open>os.Create\<close> has opened is there and empty.\<close>

definition saveFileOnDisk :: "io_answers \<Rightarrow> string \<Rightarrow> string \<Rightarrow> bytes \<Rightarrow> files \<Rightarrow> files \<times> effect list" where
  "saveFileOnDisk io downloadFolder fileName data d =
     (let file = downloadFolder @ fileName
      in case err_create io of
           Some e \<Rightarrow> (d, log_error (Some e))
         | None \<Rightarrow>
             (case err_write io of
                Some (n, e) \<Rightarrow> (fmupd file (take n data) d, log_error (Some e))
              | None \<Rightarrow> (fmupd file data d, log_error (err_sync io))))"

text \<open>
  The target is created, and so emptied, before the source is read through the file opened first.
\<close>

definition copyFile :: "io_answers \<Rightarrow> string \<Rightarrow> string \<Rightarrow> string \<Rightarrow> files \<Rightarrow> files \<times> effect list" where
  "copyFile io downloadFolder source target d =
     (let source = downloadFolder @ source; target = downloadFolder @ target
      in case open_file io source d of
           Inl e \<Rightarrow> (d, log_error (Some e))
         | Inr _ \<Rightarrow>
             (case err_create io of
                Some e \<Rightarrow> (d, log_error (Some e))
              | None \<Rightarrow>
                  (let d' = fmupd target [] d; data = (case fmlookup d' source of None \<Rightarrow> [] | Some c \<Rightarrow> c)
                   in case err_write io of
                        Some (n, e) \<Rightarrow> (fmupd target (take n data) d', log_error (Some e))
                      | None \<Rightarrow> (fmupd target data d', log_error (err_close io)))))"

text \<open>
  The folders are below the working directory.  The answers of \<open>os.Mkdir\<close> are ignored.
\<close>

record folders =
  shareFolder :: string
  downloadFolder :: string

definition initial_folders :: folders where
  "initial_folders = \<lparr>shareFolder = ''/_SharedFiles/'', downloadFolder = ''/_Downloads/''\<rparr>"

definition createWorkingDirectories :: "string + string \<Rightarrow> folders \<Rightarrow> folders res" where
  "createWorkingDirectories getwd f =
     res_bind (or_panic getwd) (\<lambda>wd.
       Inr \<lparr>shareFolder = wd @ shareFolder f, downloadFolder = wd @ downloadFolder f\<rparr>)"

text \<open>What \<open>indexFile\<close> finds under a name.\<close>

definition shared_files :: "io_answers \<Rightarrow> folders \<Rightarrow> files \<Rightarrow> string \<Rightarrow> string + bytes" where
  "shared_files io f d fileName = open_file io (shareFolder f @ fileName) d"

section \<open>The machine\<close>

text \<open>
  What a handler's effects do outside the process, in their order: files, lines on the console and
  datagrams handed to the socket.  \<open>ios i\<close> are the answers of the operating system to the \<open>i\<close>th
  effect.
\<close>

record machine =
  files_of :: files
  console :: "string list"
  datagrams :: "(bytes \<times> udp_addr) list"

definition printed :: "effect list \<Rightarrow> string list" where
  "printed out = concat (map (\<lambda>e. case e of Println l \<Rightarrow> [l] | _ \<Rightarrow> []) out)"

text \<open>
  \<open>sendPacket\<close>: \<open>encode\<close> is \<open>protobuf.Encode\<close>, bytes and error, and \<open>write\<close> the error of
  \<open>WriteToUDP\<close>.  A packet that cannot be encoded is sent all the same.
\<close>

definition sendPacket ::
  "(gossip_packet \<Rightarrow> bytes \<times> string option) \<Rightarrow> (bytes \<Rightarrow> udp_addr \<Rightarrow> string option) \<Rightarrow> gossip_packet \<Rightarrow> udp_addr
     \<Rightarrow> (bytes \<times> udp_addr) list \<times> effect list" where
  "sendPacket encode write_udp p a =
     (let (packetToSend, err) = encode p; err' = write_udp packetToSend a
      in (if err' = None then [(packetToSend, a)] else [], log_error err @ log_error err'))"

record system_calls =
  sys_io :: "nat \<Rightarrow> io_answers"
  sys_encode :: "gossip_packet \<Rightarrow> bytes \<times> string option"
  sys_write :: "bytes \<Rightarrow> udp_addr \<Rightarrow> string option"

definition no_faults :: "(gossip_packet \<Rightarrow> bytes) \<Rightarrow> system_calls" where
  "no_faults encode = \<lparr>sys_io = (\<lambda>_. no_errors), sys_encode = (\<lambda>p. (encode p, None)), sys_write = (\<lambda>_ _. None)\<rparr>"

fun run_effect :: "system_calls \<Rightarrow> folders \<Rightarrow> nat \<Rightarrow> effect \<Rightarrow> machine \<Rightarrow> machine" where
  "run_effect sys f i (SendPacket p a) m =
     (let (sent, out) = sendPacket (sys_encode sys) (sys_write sys) p a
      in m\<lparr>datagrams := datagrams m @ sent, console := console m @ printed out\<rparr>)"
| "run_effect sys f i (SaveFile fileName data) m =
     (let (d, out) = saveFileOnDisk (sys_io sys i) (downloadFolder f) fileName data (files_of m)
      in m\<lparr>files_of := d, console := console m @ printed out\<rparr>)"
| "run_effect sys f i (CopyFile source target) m =
     (let (d, out) = copyFile (sys_io sys i) (downloadFolder f) source target (files_of m)
      in m\<lparr>files_of := d, console := console m @ printed out\<rparr>)"
| "run_effect sys f i (Println l) m = m\<lparr>console := console m @ [l]\<rparr>"
| "run_effect sys f i (Go _) m = m"
| "run_effect sys f i (GoSend _) m = m"

fun run_effects :: "system_calls \<Rightarrow> folders \<Rightarrow> nat \<Rightarrow> effect list \<Rightarrow> machine \<Rightarrow> machine" where
  "run_effects sys f i [] m = m"
| "run_effects sys f i (e # es) m = run_effects sys f (Suc i) es (run_effect sys f i e m)"

definition no_copies :: "effect list \<Rightarrow> bool" where
  "no_copies out \<longleftrightarrow> (\<forall>s t. CopyFile s t \<notin> set out)"

lemma no_copies_simps [simp]:
  "no_copies []" "no_copies (xs @ ys) \<longleftrightarrow> no_copies xs \<and> no_copies ys"
  "no_copies (e # es) \<longleftrightarrow> (\<forall>s t. e \<noteq> CopyFile s t) \<and> no_copies es"
  by (auto simp: no_copies_def)

lemma no_copies_sends [simp]: "no_copies (sends ps)"
  by (auto simp: no_copies_def sends_def)

lemma printed_simps [simp]:
  "printed [] = []" "printed (xs @ ys) = printed xs @ printed ys" "printed (Println l # es) = l # printed es"
  "printed (SendPacket p a # es) = printed es" "printed (SaveFile n c # es) = printed es" "printed (Go t # es) = printed es"
  "printed (GoSend v # es) = printed es" "printed (log_error err) = (case err of None \<Rightarrow> [] | Some l \<Rightarrow> [l])"
  by (simp_all add: printed_def split: option.split)

text \<open>Without faults the effects of a handler are what they say.\<close>

lemma run_effects_clean:
  assumes "no_copies out"
  shows "run_effects (no_faults encode) f i out m =
     \<lparr>files_of = disk.put_all (map (\<lambda>(n, b). (downloadFolder f @ n, b)) (saves out)) (files_of m),
      console = console m @ printed out,
      datagrams = datagrams m @ map (\<lambda>(p, a). (encode p, a)) (packets_of out)\<rparr>"
  using assms
proof (induction out arbitrary: i m)
  case (Cons e es)
  then show ?case
    by (cases e) (auto simp: no_faults_def no_errors_def sendPacket_def saveFileOnDisk_def Let_def)
qed simp

section \<open>What is on disk afterwards\<close>

text \<open>
  C27: saving a file writes it and nothing else: every other file stays, the file has the content
  exactly if no call failed before the end of the write, a file that could not be created is
  untouched, one that was written in part is cut off, and each failure is one printed line.
\<close>

theorem saveFileOnDisk_correct:
  "let (d', out) = saveFileOnDisk io folder fileName data d; file = folder @ fileName
   in (\<forall>q. q \<noteq> file \<longrightarrow> fmlookup d' q = fmlookup d q)
    \<and> (err_create io \<noteq> None \<longrightarrow> d' = d)
    \<and> (err_create io = None \<longrightarrow> (\<exists>n. fmlookup d' file = Some (take n data)))
    \<and> (err_create io = None \<and> err_write io = None \<longrightarrow> fmlookup d' file = Some data)
    \<and> (out = [] \<longleftrightarrow> err_create io = None \<and> err_write io = None \<and> err_sync io = None)
    \<and> length out \<le> 1"
  by (auto simp: saveFileOnDisk_def log_error_def Let_def split: option.split intro: exI [of _ "length data"])

theorem saveFileOnDisk_correct_witness:
  "fmlookup (fst (saveFileOnDisk no_errors ''/d/'' ''f'' [1, 2] fmempty)) ''/d/f'' = Some [1, 2]"
  using saveFileOnDisk_correct [of no_errors "''/d/''" "''f''" "[1, 2]" fmempty]
  by (simp add: no_errors_def Let_def split: prod.splits)

text \<open>
  Copying a file onto another gives the other the same content and leaves the first one; copying
  a file onto itself would empty it, because the target is created before the source is read.
\<close>

theorem copyFile_correct:
  assumes "fmlookup d (folder @ source) = Some content"
  shows "fst (copyFile no_errors folder source target d) =
      fmupd (folder @ target) (if source = target then [] else content) d"
  using assms by (simp add: copyFile_def open_file_def no_errors_def Let_def)

theorem copyFile_correct_witness:
  "fst (copyFile no_errors ''/d/'' ''a'' ''a'' (fmupd ''/d/a'' [1] fmempty)) = fmupd ''/d/a'' [] (fmupd ''/d/a'' [1] fmempty)"
  using copyFile_correct [of "fmupd ''/d/a'' [1] fmempty" "''/d/''" "''a''" "[1]" "''a''"] by simp

end
