(* ===== verification/Boot.thy ===== *)
theory Boot
  imports Node Disk
begin

text \<open>
  The start of the process: \<open>main.go\<close>, \<open>NewGossiper\<close> and \<open>Init\<close> of \<open>gossiper/gossiper.go\<close>, the
  sockets of \<open>gossiper/connectionhandler.go\<close> and of \<open>clientsender.NewClient\<close>.  What the operating
  system answers is a record; a socket is its address, and the addresses that are in use already are
  passed on.  After the start, the packets of a node go through the codec and its socket.
\<close>

section \<open>Sockets\<close>

record operating_system =
  os_getwd :: "string + string"
  os_resolve :: "string \<Rightarrow> string + udp_addr"
  os_listen :: "udp_addr \<Rightarrow> udp_addr list \<Rightarrow> string option"
  os_dial :: "udp_addr \<Rightarrow> string option"

definition createConnectionData :: "operating_system \<Rightarrow> string \<Rightarrow> udp_addr list \<Rightarrow> (udp_addr \<times> udp_addr list) res" where
  "createConnectionData os addressString used =
     res_bind (or_panic (os_resolve os addressString)) (\<lambda>address.
     res_bind (ErrorCheck (os_listen os address used) True) (\<lambda>_. Inr (address, used @ [address])))"

record connection_handler =
  clientData :: udp_addr
  gossiperData :: udp_addr

definition NewConnectionHandler :: "operating_system \<Rightarrow> string \<Rightarrow> string \<Rightarrow> connection_handler res" where
  "NewConnectionHandler os gossiperAddr clientAddr =
     res_bind (createConnectionData os gossiperAddr []) (\<lambda>(gossiperData, used).
     res_bind (createConnectionData os clientAddr used) (\<lambda>(clientData, _).
       Inr \<lparr>clientData = clientData, gossiperData = gossiperData\<rparr>))"

definition BaseAddress :: string where
  "BaseAddress = ''127.0.0.1''"

text \<open>The client's socket: the address it is connected to.\<close>

definition NewClient :: "operating_system \<Rightarrow> string \<Rightarrow> udp_addr res" where
  "NewClient os uiPort =
     res_bind (or_panic (os_resolve os (BaseAddress @ '':'' @ uiPort))) (\<lambda>gossiperAddr.
     res_bind (ErrorCheck (os_dial os gossiperAddr) True) (\<lambda>_. Inr gossiperAddr))"

text \<open>The web server has a client of its own.\<close>

definition NewWebserver :: "operating_system \<Rightarrow> string \<Rightarrow> udp_addr res" where
  "NewWebserver os uiPort = NewClient os uiPort"

text \<open>The command line client of \<open>client/main.go\<close>: one message per run.\<close>

record client_options =
  cl_UIPort :: string
  cl_dest :: string
  cl_msg :: string
  cl_file :: string
  cl_request :: string
  cl_keywords :: string
  cl_budget :: u64

definition client_defaults :: client_options where
  "client_defaults = \<lparr>cl_UIPort = ''8080'', cl_dest = '''', cl_msg = '''', cl_file = '''', cl_request = '''', cl_keywords = '''', cl_budget = 0\<rparr>"

definition client_main ::
  "operating_system \<Rightarrow> (client_message \<Rightarrow> bytes \<times> string option) \<Rightarrow> (bytes \<Rightarrow> string option) \<Rightarrow> client_options
     \<Rightarrow> (bytes list \<times> effect list) res" where
  "client_main os encode write_conn opts =
     res_bind (NewClient os (cl_UIPort opts)) (\<lambda>client.
       Inr (SendMessage encode write_conn (cl_msg opts) (cl_dest opts) (cl_file opts) (cl_request opts) (cl_keywords opts)
              (cl_budget opts)))"

section \<open>The start\<close>

text \<open>\<open>Init\<close>: the channels that exist and the folders.\<close>

definition Init :: "operating_system \<Rightarrow> app_config \<Rightarrow> (string list \<times> folders) res" where
  "Init os c = res_bind (createWorkingDirectories (os_getwd os) initial_folders) (\<lambda>f. Inr (initPacketChannels c, f))"

definition resolved :: "operating_system \<Rightarrow> string \<Rightarrow> udp_addr option" where
  "resolved os s = (case os_resolve os s of Inl _ \<Rightarrow> None | Inr a \<Rightarrow> Some a)"

text \<open>
  \<open>NewGossiper\<close> runs \<open>Init\<close>, the folders, first.  \<open>main\<close> starts the web server after it, if there is a
  port for it.
\<close>

record process =
  proc_node :: gossiper
  proc_channels :: "string list"
  proc_folders :: folders
  proc_connections :: connection_handler
  proc_gui :: "udp_addr option"

definition main_start :: "operating_system \<Rightarrow> main_options \<Rightarrow> process res" where
  "main_start os opts =
     res_bind (Init os (start_config opts)) (\<lambda>(channels, f).
     res_bind (NewConnectionHandler os (opt_gossipAddr opts) (BaseAddress @ '':'' @ opt_uiPort opts)) (\<lambda>ch.
     res_bind (if opt_guiPort opts \<noteq> '''' then res_bind (NewWebserver os (opt_uiPort opts)) (\<lambda>a. Inr (Some a)) else Inr None) (\<lambda>gui.
       Inr \<lparr>proc_node = start_node (resolved os) (gossiperData ch) opts, proc_channels = channels, proc_folders = f, proc_connections = ch, proc_gui = gui\<rparr>)))"

definition can_start :: "operating_system \<Rightarrow> main_options \<Rightarrow> string \<Rightarrow> udp_addr \<Rightarrow> udp_addr \<Rightarrow> bool" where
  "can_start os opts wd a b \<longleftrightarrow> os_getwd os = Inr wd
     \<and> os_resolve os (opt_gossipAddr opts) = Inr a \<and> os_listen os a [] = None
     \<and> os_resolve os (BaseAddress @ '':'' @ opt_uiPort opts) = Inr b \<and> os_listen os b [a] = None
     \<and> (opt_guiPort opts = '''' \<or> os_dial os b = None)"

lemma main_start_Inr:
  "main_start os opts = Inr p \<longleftrightarrow> (\<exists>wd a b. can_start os opts wd a b
     \<and> p = \<lparr>proc_node = start_node (resolved os) a opts,
          proc_channels = initPacketChannels (start_config opts),
          proc_folders = \<lparr>shareFolder = wd @ ''/_SharedFiles/'', downloadFolder = wd @ ''/_Downloads/''\<rparr>,
          proc_connections = \<lparr>clientData = b, gossiperData = a\<rparr>,
          proc_gui = (if opt_guiPort opts = '''' then None else Some b)\<rparr>)"
proof -
  have conn: "createConnectionData os s used = Inr r \<longleftrightarrow>
      (\<exists>a. os_resolve os s = Inr a \<and> os_listen os a used = None \<and> r = (a, used @ [a]))" for s used r
    by (auto simp: createConnectionData_def go_simps)
  have handler: "NewConnectionHandler os s t = Inr ch \<longleftrightarrow>
      (\<exists>a b. os_resolve os s = Inr a \<and> os_listen os a [] = None \<and> os_resolve os t = Inr b \<and> os_listen os b [a] = None
         \<and> ch = \<lparr>clientData = b, gossiperData = a\<rparr>)" for s t ch
    by (auto simp: NewConnectionHandler_def go_simps conn)
  have client: "NewClient os port = Inr a \<longleftrightarrow>
      os_resolve os (BaseAddress @ '':'' @ port) = Inr a \<and> os_dial os a = None" for port a
    by (auto simp: NewClient_def go_simps)
  show ?thesis
    by (cases "opt_guiPort opts = []")
      (auto simp: main_start_def createWorkingDirectories_def initial_folders_def go_simps handler client Init_def NewWebserver_def can_start_def)
qed

lemma main_start_Inl:
  assumes "main_start os opts = Inl e"
  shows "e = ErrorRaised"
  using assms
  by (auto simp: main_start_def NewConnectionHandler_def createConnectionData_def NewClient_def createWorkingDirectories_def
      Init_def NewWebserver_def ErrorCheck_def res_bind_eq_Inl or_panic_def split: if_splits sum.splits)

text \<open>
  C30: the process comes up exactly when the working directory is known, both addresses resolve and can
  be listened at, the node's before the client's, and, with a web server, the client's address can be
  dialled; otherwise it stops with a panic.  Then the node listens at the address it was given and
  satisfies all its invariants, and its folders are below the working directory; the channels are those of its mode.
\<close>

theorem main_starts:
  "case main_start os opts of
     Inl e \<Rightarrow> e = ErrorRaised \<and> (\<nexists>wd a b. can_start os opts wd a b)
   | Inr p \<Rightarrow> (\<exists>wd a b. can_start os opts wd a b \<and> gossiperAddress (proc_node p) = a
       \<and> proc_connections p = \<lparr>clientData = b, gossiperData = a\<rparr> \<and> downloadFolder (proc_folders p) = wd @ ''/_Downloads/''
       \<and> proc_channels p = initPacketChannels (config (proc_node p))
       \<and> node_wf (proc_node p) \<and> node_name (proc_node p) = opt_name opts)"
proof (cases "main_start os opts")
  case (Inl e)
  then have "\<nexists>p. main_start os opts = Inr p" by simp
  then show ?thesis using Inl main_start_Inl [OF Inl] unfolding main_start_Inr by auto
next
  case (Inr p)
  then obtain wd a b where c: "can_start os opts wd a b" and p: "p = \<lparr>proc_node = start_node (resolved os) a opts,
          proc_channels = initPacketChannels (start_config opts),
          proc_folders = \<lparr>shareFolder = wd @ ''/_SharedFiles/'', downloadFolder = wd @ ''/_Downloads/''\<rparr>,
          proc_connections = \<lparr>clientData = b, gossiperData = a\<rparr>,
          proc_gui = (if opt_guiPort opts = '''' then None else Some b)\<rparr>"
    unfolding main_start_Inr by blast
  have "gossiperAddress (start_node (resolved os) a opts) = a" "node_name (start_node (resolved os) a opts) = opt_name opts"
    "config (start_node (resolved os) a opts) = start_config opts"
    by (simp_all add: start_node_def NewGossiper_def)
  then show ?thesis using Inr c start_node_wf [of "resolved os" a opts] by (auto simp: p)
qed

section \<open>Packets on the wire\<close>

text \<open>
  C40: if the codec gives back what it was given and the datagram is written and arrives, the packet a
  handler sends is put once on the channel of its type at the other node, with the sender's address,
  and the sender is a known peer from then on; a packet that does not fit the mode of operation goes
  to no channel.  A datagram that cannot be decoded is put on a channel that does not exist.
\<close>

theorem packet_delivered:
  assumes "encode p = (datagram, None)" and "write_udp datagram a = None" and "decode datagram = (p, None)"
    and "p \<noteq> empty_packet"
  shows "sendPacket encode write_udp p a = ([(datagram, a)], [])
    \<and> (let fits = ((Simple p \<noteq> None) = simpleMode (config g)); e = \<lparr>Packet = p, SenderAddr = sender\<rparr>;
           (g', out) = receivePacketsFromPeers decode datagram sender g
       in sender \<in> set (known_peers g') \<and> chan_sends out = (if fits then [ToPacketChannel (getTypeFromGossip p) e] else [])
        \<and> (getTypeFromGossip p \<in> set (initPacketChannels (config g)) \<longleftrightarrow> fits))
    \<and> (decode garbage = (empty_packet, Some err) \<longrightarrow> \<not> simpleMode (config g) \<longrightarrow>
         (\<exists>chan e. chan_sends (snd (receivePacketsFromPeers decode garbage sender g)) = [ToPacketChannel chan e]
            \<and> chan \<notin> set (initPacketChannels (config g))))"
proof -
  have "chan_sends (snd (receivePacketsFromPeers decode garbage sender g)) =
      [ToPacketChannel ''unknown'' \<lparr>Packet = empty_packet, SenderAddr = sender\<rparr>] \<and> ''unknown'' \<notin> set (initPacketChannels (config g))"
    if "decode garbage = (empty_packet, Some err)" "\<not> simpleMode (config g)"
    using that receive_dispatch [of decode garbage sender g]
    by (simp add: Let_def getTypeFromGossip_def split: prod.splits)
  moreover have "sendPacket encode write_udp p a = ([(datagram, a)], [])"
    using assms(1,2) by (simp add: sendPacket_def)
  ultimately show ?thesis
    using receive_dispatch [of decode datagram sender g] assms(3,4)
    by (auto simp: Let_def split: prod.splits)
qed

theorem packet_delivered_witness:
  "let p = empty_packet\<lparr>Rumor := Some \<lparr>rumor_Origin = ''A'', rumor_ID = 1, rumor_Text = ''hi''\<rparr>\<rparr>
   in sendPacket (\<lambda>_. ([1], None)) (\<lambda>_ _. None) p (sample_addr 2) = ([([1], sample_addr 2)], [])
    \<and> chan_sends (snd (receivePacketsFromPeers (\<lambda>_. (p, None)) [1] (sample_addr 1) (sample_node ''B'' 2)))
        = [ToPacketChannel ''rumor'' \<lparr>Packet = p, SenderAddr = sample_addr 1\<rparr>]"
proof -
  let ?p = "empty_packet\<lparr>Rumor := Some \<lparr>rumor_Origin = ''A'', rumor_ID = 1, rumor_Text = ''hi''\<rparr>\<rparr>"
  have "?p \<noteq> empty_packet" by (metis empty_packet_fields(2) gossip_packet.select_convs(2) gossip_packet.surjective gossip_packet.update_convs(2) option.distinct(1))
  moreover have "simpleMode (config (sample_node ''B'' 2)) = False"
    by (simp add: sample_node_def NewGossiper_def initial_config_def)
  moreover have "getTypeFromGossip ?p = ''rumor''" by (simp add: getTypeFromGossip_def)
  ultimately show ?thesis
    using packet_delivered [of "\<lambda>_. ([1], None)" ?p "[1]" "\<lambda>_ _. None" "sample_addr 2" "\<lambda>_. (?p, None)" "sample_node ''B'' 2" "sample_addr 1"]
    by (simp add: Let_def split: prod.splits)
qed

end
