(* ===== verification/Exchange.thy ===== *)
theory Exchange
  imports MainHandler Disk
begin

text \<open>
  Sharing a file between nodes, from the folder of one to the folder of the other: the handlers of
  \<open>filehandler.go\<close>, \<open>mainhandler.go\<close>, \<open>filesearching.go\<close> and \<open>filesharing.go\<close> composed, with the
  replies a download waits for computed by the handlers of the node that is asked and of the node
  that asks.
\<close>

section \<open>Effects of a download on the files\<close>

lemma no_copies_print [simp]: "no_copies (printDownloadMessage f d n)"
  by (simp add: printDownloadMessage_def)

text \<open>No part of a download copies files or forgets what the files are called.\<close>

definition keeps_names :: "gossiper \<Rightarrow> gossiper \<Rightarrow> effect list \<Rightarrow> bool" where
  "keeps_names g g' out \<longleftrightarrow> meta_names g' = meta_names g \<and> no_copies out"

lemma download_loop_names:
  "download_loop f peer h n p evs g = Inr (r, g', out) \<Longrightarrow> keeps_names g g' out"
proof (induction f peer h n p evs g arbitrary: r g' out rule: download_loop.induct)
  case (4 f peer h n p evs g)
  then show ?case by (auto simp: go_simps keeps_names_def split: prod.splits)
qed (auto simp: keeps_names_def)

lemma downloadDataFromPeer_names:
  "downloadDataFromPeer H f peer h n evs g = Inr (r, g', out) \<Longrightarrow> keeps_names g g' out"
  by (auto simp: downloadDataFromPeer_def Let_def go_simps keeps_names_def meta_names_def split: prod.splits
      dest!: download_loop_names)

lemma chunkDownloaded_names:
  "chunkDownloaded ord ord64 key dest peer h n g = Inr g' \<Longrightarrow> meta_names g' = meta_names g"
  by (auto simp: chunkDownloaded_def Let_def go_simps meta_names_set split: if_splits)

lemma try_peers_names:
  "try_peers H ord ord64 key f dest h n peers scripts g = Inr (r, scripts', g', out) \<Longrightarrow> keeps_names g g' out"
proof (induction H ord ord64 key f dest h n peers scripts g arbitrary: r scripts' g' out rule: try_peers.induct)
  case (2 H ord ord64 key f dest h n peer peers g)
  then show ?case by (auto simp: go_simps dest: downloadDataFromPeer_names)
next
  case (3 H ord ord64 key f dest h n peer peers evs scripts g)
  from 3(2) obtain r1 g1 out1 where d: "downloadDataFromPeer H f peer h n evs g = Inr (r1, g1, out1)"
    by (auto simp: go_simps)
  note k = downloadDataFromPeer_names [OF d]
  show ?case
  proof (cases r1)
    case None
    then show ?thesis using 3(2) d k by auto
  next
    case (Some b)
    then show ?thesis
      using 3(2) d k 3(1) [OF Some]
      by (cases b) (auto simp: go_simps keeps_names_def chunkDownloaded_names split: prod.splits)
  qed
qed (auto simp: keeps_names_def)

lemma chunk_loop_names:
  "chunk_loop H ord ord64 key f dest metafile is scripts g st = Inr (r, g', out) \<Longrightarrow> keeps_names g g' out"
proof (induction "is" arbitrary: scripts g st r g' out)
  case (Cons i "is")
  from Cons.prems obtain hash found scripts' g1 out1 where h: "metafile_hash metafile i = Inr hash"
    and p: "(case fmlookup (hashDataMap (fileHandler g)) (hex_encode hash) of
                 Some _ \<Rightarrow> Inr (Some True, scripts, g, [])
               | None \<Rightarrow> try_peers H ord ord64 key f dest hash (of_nat i + 1) (peers_with_chunk dest hash g) scripts g)
        = Inr (found, scripts', g1, out1)"
    by (auto simp: go_simps)
  have k: "keeps_names g g1 out1"
    using p by (auto simp: keeps_names_def dest!: try_peers_names split: option.splits)
  show ?case
  proof (cases "found = None")
    case True
    then show ?thesis using Cons.prems h p k by simp
  next
    case False
    then show ?thesis
      using Cons.prems h p k Cons.IH by (auto simp: go_simps keeps_names_def split: prod.splits)
  qed
qed (simp add: keeps_names_def)

text \<open>
  A download writes to the metadata only under the key of its file, and copies a file only if the
  entry found there has another name.
\<close>

lemma downloadWithMetafile_copies:
  assumes "downloadWithMetafile H ord ord64 f dest h metafile scripts g = Inr (r, g', out)"
    and "\<And>nm h'. fmlookup (meta_names g) (file_key H h f) = Some (nm, h') \<Longrightarrow> nm = f"
  shows "no_copies out"
proof -
  let ?key = "file_key H h f"
  let ?new = "\<lparr>FileName = f, MetafileHash = h, ChunkCount = of_nat (length metafile div 32), ChunkMap = [], FileSize = 0\<rparr>"
  obtain metas fm0 b where l: "LoadOrStore ?key ?new (filesMetadata (fileHandler g)) = (metas, fm0, b)" by (metis surj_pair)
  obtain fm where u: "updateChunkMap ord64 (fileHandler g) fm0 metafile = Inr fm"
    using assms(1) l by (auto simp: downloadWithMetafile_def openMetadata_def Let_def go_simps)
  have "FileName fm0 = f"
    using assms(2) l by (auto simp: LoadOrStore_def meta_names_def split: option.splits)
  then have fm: "FileName fm = f" using u by (auto simp: updateChunkMap_def go_simps)
  let ?g1 = "g\<lparr>fileHandler := (fileHandler g)\<lparr>filesMetadata := fmupd ?key fm metas\<rparr>\<rparr>"
  show ?thesis
  proof (cases "FileSize fm = 0")
    case False
    then show ?thesis using assms(1) l u fm by (simp add: downloadWithMetafile_def openMetadata_def Let_def)
  next
    case True
    obtain st g2 out1 where loop: "chunk_loop H ord ord64 ?key f dest metafile [0..<unat (ChunkCount fm)] scripts ?g1
        (replicate (unat (ChunkCount fm * of_nat fileChunk)) 0, 0, 0) = Inr (st, g2, out1)"
      using assms(1) l u True by (auto simp: downloadWithMetafile_def openMetadata_def Let_def go_simps)
    have "no_copies out1" using chunk_loop_names [OF loop] by (simp add: keeps_names_def)
    with assms(1) l u True loop show ?thesis
      by (cases st) (auto simp: downloadWithMetafile_def openMetadata_def finishDownload_def Let_def go_simps split: if_splits)
  qed
qed

lemma downloadFileChunks_copies:
  assumes "downloadFileChunks H ord ord64 f dest h scripts g = Inr (r, g', out)"
    and "\<And>nm h'. fmlookup (meta_names g) (file_key H h f) = Some (nm, h') \<Longrightarrow> nm = f"
  shows "no_copies out"
proof (cases "fmlookup (hashDataMap (fileHandler g)) (hex_encode h)")
  case (Some metafile)
  then show ?thesis using assms downloadWithMetafile_copies by (simp add: downloadFileChunks_def)
next
  case None
  show ?thesis
  proof (cases "dest = []")
    case True
    then show ?thesis using assms(1) None by (simp add: downloadFileChunks_def)
  next
    case False
    obtain evs rest where e: "(case scripts of [] \<Rightarrow> ([], []) | e # es \<Rightarrow> (e, es)) = (evs, rest)" by (metis surj_pair)
    obtain r1 g1 out1 where d: "downloadDataFromPeer H f dest h 0 evs g = Inr (r1, g1, out1)"
      using assms(1) None False e by (auto simp: downloadFileChunks_def downloadMetafile_def go_simps Let_def)
    note k = downloadDataFromPeer_names [OF d, unfolded keeps_names_def]
    show ?thesis
    proof (cases "r1 = Some True")
      case True
      then obtain metafile out2 where "downloadWithMetafile H ord ord64 f dest h metafile rest g1 = Inr (r, g', out2)"
        "out = out1 @ out2"
        using assms(1) None False e d
        by (auto simp: downloadFileChunks_def downloadMetafile_def go_simps Let_def)
      then show ?thesis
        using downloadWithMetafile_copies [of H ord ord64 f dest h metafile rest g1 r g' out2] assms(2) k by simp
    next
      case other: False
      then show ?thesis using assms(1) None False e d k
        by (auto simp: downloadFileChunks_def downloadMetafile_def go_simps Let_def split: option.splits bool.splits)
    qed
  qed
qed

section \<open>A conversation\<close>

text \<open>
  One piece: the loop of the server reads the request, the loop of the client reads the reply, and
  the download of the client gets what that loop puts on its channel.
\<close>

definition waiting_for :: "(bytes \<Rightarrow> bytes) \<Rightarrow> bytes \<Rightarrow> string \<Rightarrow> gossiper \<Rightarrow> gossiper" where
  "waiting_for H hash peer g =
     g\<lparr>fileHandler := (fileHandler g)\<lparr>hashChannels := fst (LoadOrStore (reply_key H hash peer) [] (hashChannels (fileHandler g)))\<rparr>\<rparr>"

definition answer_of :: "gossiper \<Rightarrow> gossip_packet \<Rightarrow> gossip_packet option" where
  "answer_of server request =
     (case processDataRequest \<lparr>Packet = request, SenderAddr = gossiperAddress server\<rparr> server of
        Inr (_, [Go (ForwardPrivate reply HopDataReply _)]) \<Rightarrow> Some reply
      | _ \<Rightarrow> None)"

definition handed_over :: "(bytes \<Rightarrow> bytes) \<Rightarrow> gossiper \<Rightarrow> gossip_packet \<Rightarrow> download_event list" where
  "handed_over H client reply =
     (case processDataReply H \<lparr>Packet = reply, SenderAddr = gossiperAddress client\<rparr> client of
        Inr (_, [GoSend (ToHashChannel _ r)]) \<Rightarrow> [ReplyArrives r]
      | _ \<Rightarrow> [])"

definition conversation :: "(bytes \<Rightarrow> bytes) \<Rightarrow> gossiper \<Rightarrow> gossiper \<Rightarrow> nat \<Rightarrow> bytes \<Rightarrow> download_event list" where
  "conversation H server client ticks hash =
     replicate ticks RequestTick @
     (case answer_of server (data_request_packet client (node_name server) hash) of
        None \<Rightarrow> []
      | Some reply \<Rightarrow> handed_over H (waiting_for H hash (node_name server) client) reply)"

text \<open>All the conversations of a download: one for each piece that is not here when it is needed.\<close>

fun conversations ::
  "(bytes \<Rightarrow> bytes) \<Rightarrow> gossiper \<Rightarrow> gossiper \<Rightarrow> (bytes \<Rightarrow> nat) \<Rightarrow> (string, bytes) fmap \<Rightarrow> bytes list \<Rightarrow> download_event list list" where
  "conversations H server client ticks store [] = []"
| "conversations H server client ticks store (d # ds) =
     (case chunk_fetch store (H d) of
        Some _ \<Rightarrow> conversations H server client ticks store ds
      | None \<Rightarrow> conversation H server client (ticks d) (H d) # conversations H server client ticks (chunk_keep (H d) d store) ds)"

text \<open>The reply of a node that has the piece.\<close>

definition reply_of :: "gossiper \<Rightarrow> gossiper \<Rightarrow> bytes \<Rightarrow> bytes \<Rightarrow> data_reply" where
  "reply_of server client hash d =
     \<lparr>drep_Origin = node_name server, drep_Destination = node_name client,
      drep_HopLimit = word_of_int (hopLimit (config server)), drep_HashValue = hash, drep_Data = Some d\<rparr>"

lemma answer_of_stored:
  assumes "chunk_fetch (hashDataMap (fileHandler server)) hash = Some d"
  shows "answer_of server (data_request_packet client (node_name server) hash)
      = Some (empty_packet\<lparr>DataReply := Some (reply_of server client hash d)\<rparr>)"
  using assms by (simp add: answer_of_def processDataRequest_def data_request_packet_def reply_of_def chunk_fetch_def Let_def)

lemma handed_over_stored:
  assumes "hash_function H"
  shows "handed_over H (waiting_for H (H d) (node_name server) client) (empty_packet\<lparr>DataReply := Some (reply_of server client (H d) d)\<rparr>)
      = [ReplyArrives (reply_of server client (H d) d)]"
proof -
  have "length (H d) = 32" using assms by (rule hash_function.length_H)
  then have "checkHash H (H d) d" by (simp add: checkHash_def)
  moreover have "fmlookup (hashChannels (fileHandler (waiting_for H (H d) (node_name server) client)))
      (reply_key H (H d) (node_name server)) \<noteq> None"
    by (auto simp: waiting_for_def LoadOrStore_def split: option.split)
  moreover have "node_name (waiting_for H (H d) (node_name server) client) = node_name client" by (simp add: waiting_for_def)
  ultimately show ?thesis
    by (auto simp: handed_over_def processDataReply_def reply_of_def Let_def)
qed

lemma conversations_serve:
  assumes "hash_function H" and "\<forall>d \<in> set ds. chunk_fetch (hashDataMap (fileHandler server)) (H d) = Some d"
  shows "conversations H server client ticks store ds = serve H ticks (\<lambda>d. reply_of server client (H d) d) store ds"
  using assms(2)
proof (induction ds arbitrary: store)
  case (Cons d ds)
  then show ?case
    by (auto simp: conversation_def answer_of_stored handed_over_stored [OF assms(1)] split: option.split)
qed simp

text \<open>A node that has all the pieces of a file.\<close>

definition offers :: "(bytes \<Rightarrow> bytes) \<Rightarrow> bytes \<Rightarrow> gossiper \<Rightarrow> bool" where
  "offers H content g \<longleftrightarrow>
     (\<forall>d \<in> set (metafile_of H content # file_parts content). chunk_fetch (hashDataMap (fileHandler g)) (H d) = Some d)"

text \<open>No two of the pieces of a file and of the data of a node have the same hash.\<close>

definition collision_free :: "(bytes \<Rightarrow> bytes) \<Rightarrow> bytes \<Rightarrow> gossiper \<Rightarrow> bool" where
  "collision_free H content g \<longleftrightarrow> store_sound H (hashDataMap (fileHandler g)) \<and>
     inj_on H (set (file_parts content) \<union> {metafile_of H content} \<union> store_data (hashDataMap (fileHandler g)))"

section \<open>Sharing a file by its hash\<close>

lemma offers_indexed:
  assumes "disk name = Inr content" and "collision_free H content server"
  shows "offers H content (server\<lparr>fileHandler := fst (indexFile H disk c name (fileHandler server))\<rparr>)"
proof -
  let ?s = "hashDataMap (fileHandler server)"
  have "inj_on H (set (file_parts content @ [metafile_of H content]) \<union> store_data ?s)" "store_sound H ?s"
    using assms(2) by (simp_all add: collision_free_def)
  from chunks.fold_keep [of H ?s, unfolded chunks_sound chunks_contents, OF this(2,1)]
  show ?thesis by (simp add: offers_def indexFile_store [of disk name content, OF assms(1)])
qed

lemma download_offered:
  assumes "hash_function H" and "is_order ord64" and "length content < 2 ^ 63"
    and "offers H content server" and "collision_free H content client"
    and "fmlookup (filesMetadata (fileHandler client)) (file_key H (H (metafile_of H content)) fileName) = None"
    and "askable H dest (file_parts content) client"
    and "dest = [] \<longrightarrow> chunk_fetch (hashDataMap (fileHandler client)) (H (metafile_of H content)) \<noteq> None"
  shows "\<exists>client' out. downloadFileChunks H ord ord64 fileName dest (H (metafile_of H content))
      (conversations H server client0 ticks (hashDataMap (fileHandler client)) (metafile_of H content # file_parts content)) client
        = Inr (True, client', out)
    \<and> run_effects (no_faults encode) f i out m = m\<lparr>files_of := fmupd (downloadFolder f @ fileName) content (files_of m),
         console := console m @ printed out, datagrams := datagrams m @ map (\<lambda>(p, a). (encode p, a)) (packets_of out)\<rparr>
    \<and> offers H content client'"
proof -
  let ?ds = "metafile_of H content # file_parts content"
  let ?reply = "\<lambda>d. reply_of server client0 (H d) d"
  have conv: "conversations H server client0 ticks (hashDataMap (fileHandler client)) ?ds
      = serve H ticks ?reply (hashDataMap (fileHandler client)) ?ds"
    using assms(4) unfolding offers_def by (rule conversations_serve [OF assms(1)])
  have "\<forall>d \<in> set ?ds. data_of (?reply d) = d" by (simp add: reply_of_def data_of_def)
  moreover have "store_sound H (hashDataMap (fileHandler client))"
    "inj_on H (set (file_parts content) \<union> {metafile_of H content} \<union> store_data (hashDataMap (fileHandler client)))"
    using assms(5) by (simp_all add: collision_free_def)
  ultimately obtain client' out where d: "downloadFileChunks H ord ord64 fileName dest (H (metafile_of H content))
      (serve H ticks ?reply (hashDataMap (fileHandler client)) ?ds) client = Inr (True, client', out)"
    "saves out = [(fileName, content)]"
    "chunk_fetch (hashDataMap (fileHandler client')) (H (metafile_of H content)) = Some (metafile_of H content)"
    "\<forall>d \<in> set (file_parts content). chunk_fetch (hashDataMap (fileHandler client')) (H d) = Some d"
    using download_served [where reply = ?reply and ord = ord and ticks = ticks, OF assms(1,2,7) _ assms(3) _ _ assms(6,8)]
    by blast
  have "no_copies out"
    using downloadFileChunks_copies [OF d(1)] assms(6) by (simp add: meta_names_def)
  with d show ?thesis
    unfolding conv by (intro exI [of _ client'] exI [of _ out]) (simp add: run_effects_clean offers_def del: serve.simps)
qed


lemma sample_collision_free: "collision_free sample_hash [7] (sample_node nm p)"
proof -
  have "hashDataMap (fileHandler (sample_node nm p)) = fmempty"
    by (simp add: sample_node_def NewGossiper_def NewFileHandler_def)
  moreover have "sample_hash (metafile_of sample_hash [7]) \<noteq> sample_hash [7]"
    by (simp add: metafile_of_def sample_file_parts) (simp add: sample_hash_def)
  ultimately show ?thesis
    by (auto simp: collision_free_def store_sound_def store_data_def chunk_fetch_def sample_file_parts inj_on_def)
qed


section \<open>Finding a file by a keyword\<close>

text \<open>The result that a node sends for a file it has indexed.\<close>

definition result_for :: "(bytes \<Rightarrow> bytes) \<Rightarrow> string \<Rightarrow> bytes \<Rightarrow> search_result" where
  "result_for H name content =
     \<lparr>sres_FileName = name, sres_MetafileHash = H (metafile_of H content),
      sres_ChunkMap = map (\<lambda>i. of_nat i + 1) [0..<numFileChunks (length content)],
      sres_ChunkCount = of_nat (numFileChunks (length content))\<rparr>"

lemma indexed_is_found:
  assumes "is_order ord" and "disk name = Inr content" and "content \<noteq> []" and "containsKeyword rx name ks"
    and "fmlookup (filesMetadata fh) (file_key H (H (metafile_of H content)) name) = None"
  shows "result_for H name content \<in> set (searchMatchingLocalFiles rx ord ks (fst (indexFile H disk c name fh)))"
proof -
  let ?fm = "indexed_metadata H name content" and ?fh = "fst (indexFile H disk c name fh)"
  have "fmlookup (filesMetadata ?fh) (file_key H (H (metafile_of H content)) name) = Some ?fm"
    using assms(2,5)
    by (auto simp: indexFile_def index_chunks_parts LoadOrStore_def file_key_def indexed_metadata_def Let_def)
  then have mem: "?fm \<in> set (map_values ord (filesMetadata ?fh))"
    by (auto simp: map_values_set [OF assms(1)])
  have "0 < numFileChunks (length content)" using assms(3) by (simp add: numFileChunks_less)
  then have "containsKeyword rx (FileName ?fm) ks \<and> length (ChunkMap ?fm) \<noteq> 0"
    using assms(4) by (simp add: indexed_metadata_def)
  with mem have "?fm \<in> set (filter (\<lambda>m. containsKeyword rx (FileName m) ks \<and> length (ChunkMap m) \<noteq> 0)
      (map_values ord (filesMetadata ?fh)))" by simp
  then have "\<lparr>sres_FileName = FileName ?fm, sres_MetafileHash = MetafileHash ?fm, sres_ChunkMap = ChunkMap ?fm,
      sres_ChunkCount = ChunkCount ?fm\<rparr> \<in> set (searchMatchingLocalFiles rx ord ks ?fh)"
    unfolding searchMatchingLocalFiles_def set_map by (rule imageI)
  then show ?thesis by (simp add: indexed_metadata_def result_for_def)
qed

text \<open>The chunk numbers of a result name the chunks of the file.\<close>

lemma chunk_number:
  assumes "hash_function H" and "length content < 2 ^ 63" and "i < numFileChunks (length content)"
  shows "unat (of_nat i + 1 :: u64) = Suc i" "chunk_hash (metafile_of H content) (of_nat i + 1) = H (partBuffer content i)"
proof -
  have N: "numFileChunks (length content) < 2 ^ 64"
    using numFileChunks_bounds(1) [of "length content"] assms(2) by (simp add: fileChunk_def)
  then have "Suc i < 2 ^ 64" using assms(3) by simp
  then have "unat (of_nat (Suc i) :: u64) = Suc i" by (simp add: unat_of_nat del: of_nat_Suc)
  then show u: "unat (of_nat i + 1 :: u64) = Suc i" by (simp add: add.commute)
  have "metafile_hash (metafile_of H content) i = Inr (H (partBuffer content i))"
    using assms(1,3) by (rule metafile_of_hash)
  then show "chunk_hash (metafile_of H content) (of_nat i + 1) = H (partBuffer content i)"
    by (simp add: chunk_hash_def u metafile_hash_def go_simps mult.commute)
qed

lemma metafileArrived_all:
  assumes "hash_function H" and "is_order ord" and "is_order ord64" and "length content < 2 ^ 63" and "origin \<noteq> []"
    and "fmlookup (filesMetadata (fileHandler g)) key = Some fm" and "MetafileHash fm = H (metafile_of H content)"
    and "ChunkCount fm = of_nat (numFileChunks (length content))"
    and "chunk_fetch (hashDataMap (fileHandler g)) (H (metafile_of H content)) = Some (metafile_of H content)"
    and "\<forall>d \<in> set (file_parts content). owners_of (fileHandler g) (H d) = []"
  shows "\<exists>g'. metafileArrived ord ord64 key origin (sres_ChunkMap (result_for H name content)) g = Inr g'
    \<and> askable H [] (file_parts content) g' \<and> hashDataMap (fileHandler g') = hashDataMap (fileHandler g)
    \<and> (\<forall>k. k \<noteq> key \<longrightarrow> fmlookup (filesMetadata (fileHandler g')) k = fmlookup (filesMetadata (fileHandler g)) k)"
proof -
  let ?N = "numFileChunks (length content)" and ?M = "metafile_of H content" and ?fh = "fileHandler g"
  let ?cm = "map (\<lambda>i. of_nat i + 1 :: u64) [0..<?N]"
  have len: "length ?M = 32 * ?N" by (rule length_metafile_of [OF assms(1)])
  have N: "?N < 2 ^ 51" using numFileChunks_bounds(1) [of "length content"] assms(4) by (simp add: fileChunk_def)
  have "length ?M < 2 ^ 64" using N len by simp
  moreover have "1 \<le> of_nat i + (1 :: u64) \<and> 32 * unat (of_nat i + (1 :: u64)) \<le> length ?M" if "i < ?N" for i
    using chunk_number(1) [OF assms(1,4) that] that len by (simp add: word_le_nat_alt)
  then have "\<forall>e \<in> set ?cm. 1 \<le> e \<and> 32 * unat e \<le> length ?M" by auto
  ultimately obtain owners where o: "updateChunkOwner_loop ord origin ?M ?cm (chunkOwners ?fh) = Inr owners"
    "\<forall>k. set (case fmlookup owners k of None \<Rightarrow> [] | Some l \<Rightarrow> l)
        = set (case fmlookup (chunkOwners ?fh) k of None \<Rightarrow> [] | Some l \<Rightarrow> l)
          \<union> (if k \<in> (\<lambda>e. hex_encode (chunk_hash ?M e)) ` set ?cm then {origin} else {})"
    using owner_loop_spec [OF assms(2)] by blast
  have "unat (ChunkCount fm) = ?N" using N by (simp add: assms(8) unat_of_nat)
  then have "\<forall>i \<in> set [0..<unat (ChunkCount fm)]. 32 * Suc i \<le> length ?M" by (auto simp: len)
  from updateChunkMap_loop_spec [OF assms(3) this, of "hashDataMap ?fh" "ChunkMap fm"]
  obtain fm' where fm': "updateChunkMap ord64 (?fh\<lparr>chunkOwners := owners\<rparr>) fm ?M = Inr fm'"
    by (auto simp: updateChunkMap_def)
  let ?g' = "g\<lparr>fileHandler := ?fh\<lparr>chunkOwners := owners, filesMetadata := fmupd key fm' (filesMetadata ?fh)\<rparr>\<rparr>"
  have "metafileArrived ord ord64 key origin ?cm g = Inr ?g'"
    using assms(6,7,9) o(1) fm' by (simp add: metafileArrived_def updateChunkOwnerMap_def chunk_fetch_def Let_def)
  moreover have "\<exists>p ps. fmlookup owners (hex_encode (H d)) = Some (p # ps) \<and> p \<noteq> []" if d: "d \<in> set (file_parts content)" for d
  proof -
    obtain i where i: "i < ?N" "d = partBuffer content i" using d by (auto simp: file_parts_def)
    have "hex_encode (H d) \<in> (\<lambda>e. hex_encode (chunk_hash ?M e)) ` set ?cm"
      using chunk_number(2) [OF assms(1,4) i(1)] i by force
    moreover have "owners_of ?fh (H d) = []" using assms(10) d by blast
    ultimately have "set (case fmlookup owners (hex_encode (H d)) of None \<Rightarrow> [] | Some l \<Rightarrow> l) = {origin}"
      using spec [OF o(2), of "hex_encode (H d)"] unfolding owners_of_def by (simp only: if_True list.set Un_empty_left)
    then obtain l where l: "fmlookup owners (hex_encode (H d)) = Some l" "set l = {origin}"
      by (cases "fmlookup owners (hex_encode (H d))") auto
    then obtain p ps where "l = p # ps" by (cases l) auto
    with l assms(5) show ?thesis by auto
  qed
  ultimately show ?thesis
    by (intro exI [of _ ?g']) (auto simp: askable_def result_for_def)
qed

lemma file_key_not_plain:
  assumes "hash_function H" and "name \<noteq> []" and "length h = 32"
  shows "file_key H h' name' \<noteq> hex_encode h @ name"
proof
  assume "file_key H h' name' = hex_encode h @ name"
  then have "length (file_key H h' name') = 64 + length name" using assms(3) by (simp add: length_hex_encode)
  then show False
    using assms(2) hash_function.length_H [OF assms(1)] by (simp add: file_key_def getKeyFromString_def length_hex_encode)
qed

lemma collision_free_reliable:
  "collision_free H content g \<longleftrightarrow> reliable H (metafile_of H content # file_parts content) (hashDataMap (fileHandler g))"
  by (simp add: collision_free_def reliable_def)

text \<open>Fetching the metafile from a node that has it ends with the update of owners and chunks.\<close>

lemma fetchMetafile_offered:
  assumes "hash_function H" and "offers H content server" and "collision_free H content g"
    and "fmlookup (filesMetadata (fileHandler g)) key = Some fm" and "MetafileHash fm = H (metafile_of H content)"
  shows "\<exists>g1 out. fetchMetafile H ord ord64 key (node_name server) cm
        (conversation H server g ticks (H (metafile_of H content))) g
      = res_bind (metafileArrived ord ord64 key (node_name server) cm g1) (\<lambda>g2. Inr (True, g2, out))
    \<and> chunk_fetch (hashDataMap (fileHandler g1)) (H (metafile_of H content)) = Some (metafile_of H content)
    \<and> filesMetadata (fileHandler g1) = filesMetadata (fileHandler g) \<and> chunkOwners (fileHandler g1) = chunkOwners (fileHandler g)
    \<and> collision_free H content g1"
proof -
  let ?M = "metafile_of H content" and ?s = "hashDataMap (fileHandler g)"
  have mem: "?M \<in> set (?M # file_parts content)" by simp
  have rel: "reliable H (?M # file_parts content) ?s" using assms(3) by (simp add: collision_free_reliable)
  show ?thesis
  proof (cases "chunk_fetch ?s (H ?M)")
    case (Some e)
    then have "e = ?M" using reliable_fetch [OF rel mem] by simp
    with Some show ?thesis
      using assms(3-5) by (intro exI [of _ g] exI [of _ "[]"]) (simp add: fetchMetafile_def chunk_fetch_def)
  next
    case None
    have "chunk_fetch (hashDataMap (fileHandler server)) (H ?M) = Some ?M" using assms(2) by (simp add: offers_def)
    then have conv: "conversation H server g ticks (H ?M) = replicate ticks RequestTick @ [ReplyArrives (reply_of server g (H ?M) ?M)]"
      by (simp add: conversation_def answer_of_stored handed_over_stored [OF assms(1)])
    obtain g1 out where d: "downloadDataFromPeer H (FileName fm) (node_name server) (H ?M) 0
        (replicate ticks RequestTick @ [ReplyArrives (reply_of server g (H ?M) ?M)]) g = Inr (Some True, g1, out)"
      "hashDataMap (fileHandler g1) = chunk_keep (H ?M) ?M ?s"
      "filesMetadata (fileHandler g1) = filesMetadata (fileHandler g)" "chunkOwners (fileHandler g1) = chunkOwners (fileHandler g)"
      using downloadDataFromPeer_serve [of H "FileName fm" "node_name server" "H ?M" 0 ticks "reply_of server g (H ?M) ?M" g]
      by (auto simp: data_of_def reply_of_def)
    have "chunk_fetch (hashDataMap (fileHandler g1)) (H ?M) = Some ?M" "collision_free H content g1"
      using reliable_own [OF rel mem] reliable_keep [OF rel mem] by (simp_all add: d(2) collision_free_reliable)
    with d None show ?thesis
      using assms(4,5)
      by (intro exI [of _ g1] exI [of _ out]) (simp add: fetchMetafile_def downloadMetafile_def conv chunk_fetch_def)
  qed
qed



end
