(* ===== verification/Sha256_Test.thy ===== *)
theory Sha256_Test
  imports Sha256
begin

text \<open>The hash function model against a published test vector, evaluated in the kernel.\<close>

text \<open>The test vector of FIPS 180-4 for the three bytes of \<open>abc\<close>.\<close>

lemma sha256_abc:
  "hex_encode (sha256 (bytes_of ''abc'')) =
     ''ba7816bf8f01cfea414140de5dae2223b00361a396177a9cb410ff61f20015ad''"
  by code_simp

end
